(* ===== verification/Prelude.thy ===== *)
theory Prelude
  imports Complex_Main "HOL-Library.Word" "HOL-Library.Log_Nat"
begin

section \<open>Prelude: shared types, collections and helper lemmas\<close>

text \<open>
  This theory holds what every component of the scanner's model shares: the result type for
  code that may throw, the collections of rewrite rules that carry the component proofs
  (\<open>float_simps\<close> for closed floating-point terms, \<open>step_simps\<close> for the one-step equations of the
  loops, \<open>inv_intros\<close> for preserved invariants), and generic facts on lists, maps and options that
  more than one component uses. Nothing here is specific to a source file.
\<close>

named_theorems float_simps \<open>evaluation of binary32 and binary64 rounding on closed terms\<close>
named_theorems step_simps \<open>one-step equations of operations and loops\<close>
named_theorems inv_intros \<open>invariants kept by operations\<close>

subsection \<open>Results of code that may throw\<close>

text \<open>
  A C++ function that may throw \<open>std::runtime_error\<close> returns a sum: \<open>Inl\<close> the exception's reason,
  \<open>Inr\<close> the value.
\<close>

type_synonym ('e, 'a) result = "'e + 'a"

definition bind_result :: "('e, 'a) result \<Rightarrow> ('a \<Rightarrow> ('e, 'b) result) \<Rightarrow> ('e, 'b) result" where
  "bind_result r f = (case r of Inl e \<Rightarrow> Inl e | Inr a \<Rightarrow> f a)"

lemma bind_result_simps [simp]:
  "bind_result (Inl e) f = Inl e"
  "bind_result (Inr a) f = f a"
  by (simp_all add: bind_result_def)

lemma bind_result_Inr:
  "bind_result r f = Inr b \<longleftrightarrow> (\<exists>a. r = Inr a \<and> f a = Inr b)"
  by (cases r) auto

definition throw_if :: "bool \<Rightarrow> 'e \<Rightarrow> ('e, unit) result" where
  "throw_if c e = (if c then Inl e else Inr ())"

lemma throw_if_Inr [simp]: "throw_if c e = Inr u \<longleftrightarrow> \<not> c"
  by (cases u) (simp add: throw_if_def)

lemma throw_if_simps [simp]: "throw_if True e = Inl e" "throw_if False e = Inr ()"
  by (simp_all add: throw_if_def)

subsection \<open>Lists\<close>

text \<open>\<open>std::queue::pop\<close> on a full queue, iterated: the last \<open>n\<close> elements survive.\<close>

definition keep_last :: "nat \<Rightarrow> 'a list \<Rightarrow> 'a list" where
  "keep_last n xs = drop (length xs - n) xs"

lemma length_keep_last [simp]: "length (keep_last n xs) = min n (length xs)"
  by (simp add: keep_last_def)

lemma keep_last_short: "length xs \<le> n \<Longrightarrow> keep_last n xs = xs"
  by (simp add: keep_last_def)

lemma keep_last_snoc:
  "keep_last (Suc n) (xs @ [x]) = keep_last n xs @ [x]"
  by (simp add: keep_last_def)

lemma upto_snoc: "i \<le> j \<Longrightarrow> [i..j] = [i..j - 1] @ [j]"
  using upto_rec2 [of i j] by simp

lemma sum_list_concat: "sum_list (concat xss) = sum_list (map sum_list xss)"
  by (induction xss) auto

lemma nth_update_other: "i \<noteq> j \<Longrightarrow> xs[i := x] ! j = xs ! j"
  by simp

text \<open>Updating the one element that has a key changes a sum by the difference.\<close>

lemma sum_update_one:
  assumes "distinct (map key xs)" and "e \<in> set xs"
  shows "sum_list (map (\<lambda>r. h (if key r = key e then g r else r)) xs) = sum_list (map h xs) + (h (g e) - h e :: int)"
  using assms
proof (induction xs)
  case (Cons x xs)
  show ?case
  proof (cases "x = e")
    case True
    then have "\<forall>r\<in>set xs. key r \<noteq> key e" using Cons.prems by (auto simp: image_iff)
    then have "map (\<lambda>r. h (if key r = key e then g r else r)) xs = map h xs" by simp
    then show ?thesis using True by (simp del: map_eq_conv)
  next
    case False
    then have "key x \<noteq> key e" using Cons.prems by auto
    then show ?thesis using Cons False by simp
  qed
qed simp

subsection \<open>Maximal runs\<close>

text \<open>
  A maximal run of a predicate on an integer interval: the predicate holds throughout and
  cannot be extended at either end inside \<open>[lo, hi]\<close>. The detector's state machine is proved
  to report exactly these.
\<close>

definition maximal_run :: "(int \<Rightarrow> bool) \<Rightarrow> int \<Rightarrow> int \<Rightarrow> int \<Rightarrow> int \<Rightarrow> bool" where
  "maximal_run P lo hi a b \<longleftrightarrow>
     lo \<le> a \<and> a \<le> b \<and> b \<le> hi \<and> (\<forall>k \<in> {a..b}. P k) \<and>
     (a = lo \<or> \<not> P (a - 1)) \<and> (b = hi \<or> \<not> P (b + 1))"

lemma maximal_run_unique:
  assumes "maximal_run P lo hi a b" and "maximal_run P lo hi c d"
    and "k \<in> {a..b}" and "k \<in> {c..d}"
  shows "a = c \<and> b = d"
proof -
  have a: "\<forall>k \<in> {a..b}. P k" and c: "\<forall>k \<in> {c..d}. P k"
    and bounds: "lo \<le> a" "b \<le> hi" "lo \<le> c" "d \<le> hi"
    and ends: "a = lo \<or> \<not> P (a - 1)" "b = hi \<or> \<not> P (b + 1)"
      "c = lo \<or> \<not> P (c - 1)" "d = hi \<or> \<not> P (d + 1)"
    using assms(1,2) by (auto simp: maximal_run_def)
  have "\<not> a < c"
  proof
    assume "a < c"
    then have "c - 1 \<in> {a..b}" using assms(3,4) by auto
    then show False using a ends(3) bounds \<open>a < c\<close> by force
  qed
  moreover have "\<not> c < a"
  proof
    assume "c < a"
    then have "a - 1 \<in> {c..d}" using assms(3,4) by auto
    then show False using c ends(1) bounds \<open>c < a\<close> by force
  qed
  moreover have "\<not> b < d"
  proof
    assume "b < d"
    then have "b + 1 \<in> {c..d}" using assms(3,4) by auto
    then show False using c ends(2) bounds \<open>b < d\<close> by force
  qed
  moreover have "\<not> d < b"
  proof
    assume "d < b"
    then have "d + 1 \<in> {a..b}" using assms(3,4) by auto
    then show False using a ends(4) bounds \<open>d < b\<close> by force
  qed
  ultimately show ?thesis by linarith
qed

text \<open>
  \<open>lists_runs P lo hi rs\<close>: \<open>rs\<close> is the list of all maximal runs of \<open>P\<close> on \<open>[lo, hi]\<close>, from left to
  right. The three lemmas after it extend such a list by one bin.
\<close>

definition lists_runs :: "(int \<Rightarrow> bool) \<Rightarrow> int \<Rightarrow> int \<Rightarrow> (int \<times> int) list \<Rightarrow> bool" where
  "lists_runs P lo hi rs \<longleftrightarrow>
     set rs = {(a, b). maximal_run P lo hi a b} \<and> sorted_wrt (\<lambda>r r'. snd r < fst r') rs"

lemma lists_runs_empty: "hi < lo \<Longrightarrow> lists_runs P lo hi []"
  by (auto simp: lists_runs_def maximal_run_def)

lemma maximal_run_extend_out:
  assumes "\<not> P (k + 1)"
  shows "maximal_run P lo (k + 1) a b \<longleftrightarrow> maximal_run P lo k a b"
proof
  assume run: "maximal_run P lo (k + 1) a b"
  then have "P b" by (auto simp: maximal_run_def)
  with assms have "b \<noteq> k + 1" by metis
  with run show "maximal_run P lo k a b" by (auto simp: maximal_run_def)
next
  assume "maximal_run P lo k a b"
  with assms show "maximal_run P lo (k + 1) a b" by (auto simp: maximal_run_def)
qed

lemma lists_runs_out:
  assumes "lists_runs P lo k rs" and "\<not> P (k + 1)"
  shows "lists_runs P lo (k + 1) rs"
  using assms by (simp add: lists_runs_def maximal_run_extend_out)

lemma maximal_run_open:
  assumes "P (k + 1)" and "maximal_run P lo (k + 1) a b" and "b \<noteq> k + 1"
  shows "maximal_run P lo k a b \<and> b < k"
proof -
  have "b \<noteq> k" using assms by (auto simp: maximal_run_def)
  then show ?thesis using assms by (auto simp: maximal_run_def)
qed

lemma lists_runs_new:
  assumes rs: "lists_runs P lo k rs" and lo: "lo \<le> k + 1" and P: "P (k + 1)"
    and closed: "k < lo \<or> \<not> P k"
  shows "lists_runs P lo (k + 1) (rs @ [(k + 1, k + 1)])"
proof -
  have new: "maximal_run P lo (k + 1) a b \<longleftrightarrow> maximal_run P lo k a b \<or> (a = k + 1 \<and> b = k + 1)" for a b
  proof (cases "b = k + 1")
    case True
    have "\<not> (lo \<le> k \<and> a \<le> k)" if "maximal_run P lo (k + 1) a b"
      using that closed True by (auto simp: maximal_run_def)
    then show ?thesis using True P lo closed by (auto simp: maximal_run_def)
  next
    case False
    have "b < k" if run: "maximal_run P lo k a b"
    proof -
      have "P b" "b \<le> k" "lo \<le> b" using run by (auto simp: maximal_run_def)
      with closed show ?thesis by (cases "b = k") auto
    qed
    then have "maximal_run P lo k a b \<Longrightarrow> maximal_run P lo (k + 1) a b"
      by (auto simp: maximal_run_def)
    then show ?thesis using False maximal_run_open [of P k, OF P] by blast
  qed
  have "\<forall>r\<in>set rs. snd r < k + 1"
    using rs by (auto simp: lists_runs_def maximal_run_def)
  then show ?thesis
    using rs by (auto simp: lists_runs_def new sorted_wrt_append)
qed

lemma lists_runs_grow:
  assumes rs: "lists_runs P lo k (rs @ [(a, k)])" and P: "P (k + 1)"
  shows "lists_runs P lo (k + 1) (rs @ [(a, k + 1)])"
proof -
  have a: "maximal_run P lo k a k"
    using rs by (auto simp: lists_runs_def)
  then have Pk: "P k" and ak: "a \<le> k"
    by (auto simp: maximal_run_def)
  have sorted: "\<forall>r\<in>set rs. snd r < a" and srt: "sorted_wrt (\<lambda>r r'. snd r < fst r') rs"
    using rs by (auto simp: lists_runs_def sorted_wrt_append)
  have rs_set: "set rs = {(c, b). maximal_run P lo k c b \<and> b \<noteq> k}"
  proof -
    have "(c, b) \<in> set rs \<longleftrightarrow> maximal_run P lo k c b \<and> b \<noteq> k" for c b
    proof -
      have m: "(c, b) \<in> set rs \<or> (c = a \<and> b = k) \<longleftrightarrow> maximal_run P lo k c b"
        using rs by (auto simp: lists_runs_def set_eq_iff)
      have "(c, b) \<in> set rs \<Longrightarrow> b \<noteq> k" using sorted ak by fastforce
      moreover have "maximal_run P lo k c k \<Longrightarrow> c = a"
        using maximal_run_unique [OF a, of c k k] ak by (auto simp: maximal_run_def)
      ultimately show ?thesis using m by blast
    qed
    then show ?thesis by auto
  qed
  have grow: "maximal_run P lo (k + 1) a (k + 1)"
    using a P ak by (auto simp: maximal_run_def) (metis atLeastAtMost_iff zle_add1_eq_le order_less_le)+
  have last: "maximal_run P lo (k + 1) c (k + 1) \<Longrightarrow> c = a" for c
    using maximal_run_unique [OF grow, of c "k + 1" "k + 1"] ak by (auto simp: maximal_run_def)
  have old: "maximal_run P lo (k + 1) c b \<longleftrightarrow> maximal_run P lo k c b" if "b \<noteq> k + 1" "b \<noteq> k" for c b
    using that maximal_run_open [of P k, OF P, of lo c b] by (auto simp: maximal_run_def)
  have no_k: "\<not> maximal_run P lo (k + 1) c k" for c
    using P by (auto simp: maximal_run_def)
  have no_k1: "maximal_run P lo k c b \<Longrightarrow> b \<noteq> k + 1" for c b
    by (auto simp: maximal_run_def)
  have "(c, b) \<in> set (rs @ [(a, k + 1)]) \<longleftrightarrow> maximal_run P lo (k + 1) c b" for c b
  proof (cases "b = k + 1")
    case True
    then have "(c, b) \<notin> set rs" using no_k1 rs_set by blast
    moreover have "maximal_run P lo (k + 1) c b \<longleftrightarrow> c = a"
      unfolding True using grow last by blast
    ultimately show ?thesis using True by simp
  next
    case False
    then show ?thesis using no_k [of c] old [of b c] rs_set by (cases "b = k") auto
  qed
  then have "set (rs @ [(a, k + 1)]) = {(c, b). maximal_run P lo (k + 1) c b}"
    by auto
  then show ?thesis
    using srt sorted by (auto simp: lists_runs_def sorted_wrt_append)
qed

lemma sorted_wrt_irrefl_distinct:
  "sorted_wrt R xs \<Longrightarrow> (\<And>x. x \<in> set xs \<Longrightarrow> \<not> R x x) \<Longrightarrow> distinct xs"
  by (induction xs) auto

lemma lists_runsD:
  "lists_runs P lo hi rs \<Longrightarrow> (a, b) \<in> set rs \<Longrightarrow> maximal_run P lo hi a b"
  by (auto simp: lists_runs_def)

lemma maximal_runD:
  "maximal_run P lo hi a b \<Longrightarrow> lo \<le> a \<and> a \<le> b \<and> b \<le> hi"
  by (simp add: maximal_run_def)

lemma lists_runs_distinct:
  assumes "lists_runs P lo hi rs" shows "distinct rs"
proof (rule sorted_wrt_irrefl_distinct)
  show "sorted_wrt (\<lambda>r r'. snd r < fst r') rs" using assms by (simp add: lists_runs_def)
  show "\<not> snd x < fst x" if "x \<in> set rs" for x
    using maximal_runD [OF lists_runsD [OF assms, of "fst x" "snd x"]] that by auto
qed

lemma maximal_runs_disjoint:
  assumes "maximal_run P lo hi a b" and "maximal_run P lo hi a' b'"
  shows "(a = a' \<and> b = b') \<or> b < a' \<or> b' < a"
  using maximal_run_unique [OF assms, of "max a a'"] maximal_runD [OF assms(1)] maximal_runD [OF assms(2)]
  by (auto simp: max_def split: if_splits)

end
