(* ===== verification/Floats.thy ===== *)
theory Floats
  imports Prelude
begin

section \<open>IEEE 754 arithmetic of \<open>float\<close> and \<open>double\<close>\<close>

text \<open>
  The signal path computes in \<open>float\<close> (binary32) and the frequency plan in \<open>double\<close> (binary64).
  A C++ operation on these types is the real operation followed by rounding to nearest, ties to
  even, which is what the release build's baseline (SSE2 on x86-64-v2, no \<open>-ffast-math\<close>) executes.
  Values are real numbers; \<open>f32\<close> and \<open>f64\<close> round to the two formats, subnormals included, and
  every definition of the development writes the rounding where the source has the operation.
  Overflow to infinity is outside the model (no quantity of the program comes near \<open>2 ^ 128\<close>),
  and where the source makes a NaN on purpose (an empty CFAR window) the model has an option.

  What the proofs need of rounding is the locale \<open>rounding\<close>: monotone, idempotent, exact on
  integers that fit the significand. Both formats are interpretations of it.
\<close>

subsection \<open>The binade of a real\<close>

definition bexp :: "real \<Rightarrow> int" where
  "bexp x = (if 1 \<le> \<bar>x\<bar> then bitlen \<lfloor>\<bar>x\<bar>\<rfloor> - 1 else - bitlen (\<lceil>1 / \<bar>x\<bar>\<rceil> - 1))"

lemma powi_pos [simp]: "0 < (2::real) powi e"
  by simp

lemma bexp_large:
  assumes "1 \<le> \<bar>x\<bar>"
  shows "2 powi bexp x \<le> \<bar>x\<bar> \<and> \<bar>x\<bar> < 2 powi (bexp x + 1)"
proof -
  define n where "n = \<lfloor>\<bar>x\<bar>\<rfloor>"
  have n: "0 < n" using assms by (simp add: n_def)
  then have b: "0 < bitlen n"
    using bitlen_nonneg [of n] bitlen_eq_zero_iff [of n] by linarith
  have lo: "2 ^ nat (bitlen n - 1) \<le> n" and hi: "n < 2 ^ nat (bitlen n)"
    using bitlen_bounds [OF n] by auto
  have e: "bexp x = bitlen n - 1" using assms by (simp add: bexp_def n_def)
  have "(2::real) powi (bitlen n - 1) = of_int (2 ^ nat (bitlen n - 1))"
    using b by (simp add: power_int_def)
  also have "\<dots> \<le> of_int n" using lo by (simp only: of_int_le_iff)
  also have "\<dots> \<le> \<bar>x\<bar>" by (simp add: n_def)
  finally have 1: "2 powi bexp x \<le> \<bar>x\<bar>" by (simp add: e)
  have "\<bar>x\<bar> < of_int (n + 1)" by (simp add: n_def)
  also have "\<dots> \<le> of_int (2 ^ nat (bitlen n))" using hi by (simp only: of_int_le_iff)
  also have "\<dots> = (2::real) powi (bexp x + 1)"
    using b by (simp add: e power_int_def)
  finally show ?thesis using 1 by blast
qed

lemma bexp_small:
  assumes "x \<noteq> 0" and "\<bar>x\<bar> < 1"
  shows "2 powi bexp x \<le> \<bar>x\<bar> \<and> \<bar>x\<bar> < 2 powi (bexp x + 1)"
proof -
  define n where "n = \<lceil>1 / \<bar>x\<bar>\<rceil> - 1"
  define k where "k = bitlen n"
  have ax: "0 < \<bar>x\<bar>" using assms by simp
  have "1 < 1 / \<bar>x\<bar>" using assms by (simp add: field_simps)
  then have n: "0 < n" by (simp add: n_def)
  then have k: "0 < k"
    using bitlen_nonneg [of n] bitlen_eq_zero_iff [of n] by (auto simp: k_def)
  have lo: "2 ^ nat (k - 1) \<le> n" and hi: "n < 2 ^ nat k"
    using bitlen_bounds [OF n] by (auto simp: k_def)
  have e: "bexp x = - k" using assms by (simp add: bexp_def n_def k_def)
  have "1 / \<bar>x\<bar> \<le> of_int (n + 1)" by (simp add: n_def)
  also have "\<dots> \<le> of_int (2 ^ nat k)" using hi by (simp only: of_int_le_iff)
  also have "\<dots> = (2::real) powi k" using k by (simp add: power_int_def)
  finally have "1 / \<bar>x\<bar> \<le> 2 powi k" .
  then have 1: "2 powi bexp x \<le> \<bar>x\<bar>"
    using ax by (simp add: e power_int_minus field_simps)
  have "(2::real) powi (k - 1) = of_int (2 ^ nat (k - 1))" using k by (simp add: power_int_def)
  also have "\<dots> \<le> of_int n" using lo by (simp only: of_int_le_iff)
  also have "\<dots> < 1 / \<bar>x\<bar>" unfolding n_def by linarith
  finally have "\<bar>x\<bar> * 2 powi (k - 1) < 1" using ax by (simp add: field_simps)
  also have "1 = (2::real) powi (bexp x + 1) * 2 powi (k - 1)"
    using e by (simp flip: power_int_add)
  finally have "\<bar>x\<bar> < 2 powi (bexp x + 1)" by (simp only: mult_less_cancel_right_pos powi_pos)
  then show ?thesis using 1 by blast
qed

lemma bexp_bounds:
  assumes "x \<noteq> 0"
  shows "2 powi bexp x \<le> \<bar>x\<bar>" and "\<bar>x\<bar> < 2 powi (bexp x + 1)"
  using bexp_large [of x] bexp_small [of x] assms by (cases "1 \<le> \<bar>x\<bar>"; auto)+

lemma powi_le_imp: "(2::real) powi a < 2 powi b \<Longrightarrow> a < b"
  by (metis linorder_not_less one_le_numeral power_int_increasing)

lemma bexp_mono:
  assumes "x \<noteq> 0" and "\<bar>x\<bar> \<le> \<bar>y\<bar>"
  shows "bexp x \<le> bexp y"
proof -
  have "y \<noteq> 0" using assms by auto
  have "(2::real) powi bexp x < 2 powi (bexp y + 1)"
    using bexp_bounds [OF assms(1)] bexp_bounds [OF \<open>y \<noteq> 0\<close>] assms(2) by linarith
  then show ?thesis by (drule_tac powi_le_imp) simp
qed

subsection \<open>Round half to even\<close>

definition rne :: "real \<Rightarrow> int" where
  "rne x = (let f = \<lfloor>x\<rfloor>; d = x - of_int f in
     if d < 1/2 then f else if 1/2 < d then f + 1 else if even f then f else f + 1)"

lemma rne_of_int [simp]: "rne (of_int n) = n"
  by (simp add: rne_def)

lemma rne_floor: "\<lfloor>x\<rfloor> \<le> rne x" "rne x \<le> \<lfloor>x\<rfloor> + 1"
  by (simp_all add: rne_def Let_def)

lemma rne_mono: "x \<le> y \<Longrightarrow> rne x \<le> rne y"
proof (cases "\<lfloor>x\<rfloor> = \<lfloor>y\<rfloor>")
  case True
  assume "x \<le> y"
  with True show ?thesis by (auto simp: rne_def Let_def)
next
  case False
  assume "x \<le> y"
  then have "\<lfloor>x\<rfloor> \<le> \<lfloor>y\<rfloor>" by (rule floor_mono)
  with False have "\<lfloor>x\<rfloor> + 1 \<le> \<lfloor>y\<rfloor>" by linarith
  then show ?thesis using rne_floor(2) [of x] rne_floor(1) [of y] by linarith
qed

lemma rne_error: "\<bar>of_int (rne x) - x\<bar> \<le> 1/2"
proof -
  have "0 \<le> x - of_int \<lfloor>x\<rfloor>" "x - of_int \<lfloor>x\<rfloor> < 1" by linarith+
  then show ?thesis by (auto simp: rne_def Let_def)
qed

subsection \<open>Rounding to a format\<close>

text \<open>
  \<open>rnd p emin\<close> rounds to a significand of \<open>p\<close> bits and least exponent \<open>emin\<close>: the exponent of the
  last place is that of the binade, but never below \<open>emin\<close> (the subnormal range).
\<close>

definition lastplace :: "nat \<Rightarrow> int \<Rightarrow> real \<Rightarrow> int" where
  "lastplace p emin x = max (bexp x - int p + 1) emin"

definition rnd :: "nat \<Rightarrow> int \<Rightarrow> real \<Rightarrow> real" where
  "rnd p emin x = (if x = 0 then 0 else
     of_int (rne (x / 2 powi lastplace p emin x)) * 2 powi lastplace p emin x)"

definition f32 :: "real \<Rightarrow> real" where
  "f32 = rnd 24 (- 149)"

definition f64 :: "real \<Rightarrow> real" where
  "f64 = rnd 53 (- 1074)"

lemma rnd_0 [simp]: "rnd p emin 0 = 0"
  by (simp add: rnd_def)

lemma rnd_le_grid:
  assumes "x \<noteq> 0" and "x \<le> of_int k * 2 powi lastplace p emin x"
  shows "rnd p emin x \<le> of_int k * 2 powi lastplace p emin x"
proof -
  have "x / 2 powi lastplace p emin x \<le> of_int k"
    using assms(2) by (simp add: pos_divide_le_eq)
  then have "rne (x / 2 powi lastplace p emin x) \<le> k"
    using rne_mono by fastforce
  then show ?thesis using assms(1) by (simp add: rnd_def)
qed

lemma rnd_ge_grid:
  assumes "x \<noteq> 0" and "of_int k * 2 powi lastplace p emin x \<le> x"
  shows "of_int k * 2 powi lastplace p emin x \<le> rnd p emin x"
proof -
  have "of_int k \<le> x / 2 powi lastplace p emin x"
    using assms(2) by (simp add: pos_le_divide_eq)
  then have "k \<le> rne (x / 2 powi lastplace p emin x)"
    using rne_mono by fastforce
  then show ?thesis using assms(1) by (simp add: rnd_def)
qed

lemma powi_multiple:
  assumes "e \<le> k"
  shows "of_int m * (2::real) powi k = of_int (m * 2 ^ nat (k - e)) * 2 powi e"
proof -
  have "(2::real) powi k = 2 powi (k - e) * 2 powi e"
    by (simp flip: power_int_add)
  then show ?thesis using assms by (simp add: power_int_def)
qed

lemma powi_grid:
  assumes "e \<le> k"
  shows "\<exists>j. (2::real) powi k = of_int j * 2 powi e" and "\<exists>j. - ((2::real) powi k) = of_int j * 2 powi e"
  using powi_multiple [OF assms, of 1] powi_multiple [OF assms, of "- 1"]
  by (metis mult_1 of_int_1, metis mult_minus1 of_int_1 of_int_minus)

lemma lastplace_mono: "x \<noteq> 0 \<Longrightarrow> \<bar>x\<bar> \<le> \<bar>y\<bar> \<Longrightarrow> lastplace p emin x \<le> lastplace p emin y"
  using bexp_mono [of x y] by (auto simp: lastplace_def)

lemma rnd_mono:
  assumes "1 \<le> p" and "x \<le> y"
  shows "rnd p emin x \<le> rnd p emin y"
proof -
  let ?e = "lastplace p emin"
  consider (zero) "x = 0 \<or> y = 0" | (same) "x \<noteq> 0" "y \<noteq> 0" "?e x = ?e y"
    | (up) "x \<noteq> 0" "y \<noteq> 0" "?e x < ?e y" | (down) "x \<noteq> 0" "y \<noteq> 0" "?e y < ?e x"
    by linarith
  then show ?thesis
  proof cases
    case zero
    then show ?thesis
      using assms(2) rnd_le_grid [of x 0 p emin] rnd_ge_grid [of y 0 p emin]
      by (cases "x = 0"; cases "y = 0"; simp)
  next
    case same
    have "x / 2 powi ?e x \<le> y / 2 powi ?e x"
      using assms(2) by (simp add: divide_right_mono)
    then show ?thesis using same rne_mono by (simp add: rnd_def)
  next
    case up
    have "\<bar>x\<bar> < \<bar>y\<bar>" using lastplace_mono [of y x p emin] up by force
    then have y: "0 < y" using assms(2) by linarith
    have ey: "?e y = bexp y - int p + 1" and "emin \<le> ?e x" using up by (auto simp: lastplace_def)
    have "bexp x + 1 \<le> bexp y" "?e x \<le> bexp y"
      using up ey assms(1) by (auto simp: lastplace_def)
    define g where "g = (2::real) powi bexp y"
    have "x \<le> g" "g \<le> y"
      using bexp_bounds(2) [OF up(1)] bexp_bounds(1) [OF up(2)] y
        power_int_increasing [OF \<open>bexp x + 1 \<le> bexp y\<close>, of "2::real"] by (auto simp: g_def)
    moreover obtain j k where "g = of_int j * 2 powi ?e x" "g = of_int k * 2 powi ?e y"
      using powi_grid(1) [of "?e x" "bexp y"] powi_grid(1) [of "?e y" "bexp y"]
        \<open>?e x \<le> bexp y\<close> ey assms(1) unfolding g_def by fastforce
    ultimately show ?thesis
      using rnd_le_grid [OF up(1), of j p emin] rnd_ge_grid [OF up(2), of k p emin] by simp
  next
    case down
    have "\<bar>y\<bar> < \<bar>x\<bar>" using lastplace_mono [of x y p emin] down by force
    then have x: "x < 0" using assms(2) by linarith
    have ex: "?e x = bexp x - int p + 1" and "emin \<le> ?e y" using down by (auto simp: lastplace_def)
    have "bexp y + 1 \<le> bexp x" "?e y \<le> bexp x"
      using down ex assms(1) by (auto simp: lastplace_def)
    define g where "g = - ((2::real) powi bexp x)"
    have "x \<le> g" "g \<le> y"
      using bexp_bounds(2) [OF down(2)] bexp_bounds(1) [OF down(1)] x
        power_int_increasing [OF \<open>bexp y + 1 \<le> bexp x\<close>, of "2::real"] by (auto simp: g_def)
    moreover obtain j k where "g = of_int j * 2 powi ?e x" "g = of_int k * 2 powi ?e y"
      using powi_grid(2) [of "?e x" "bexp x"] powi_grid(2) [of "?e y" "bexp x"]
        \<open>?e y \<le> bexp x\<close> ex assms(1) unfolding g_def by fastforce
    ultimately show ?thesis
      using rnd_le_grid [OF down(1), of j p emin] rnd_ge_grid [OF down(2), of k p emin] by simp
  qed
qed

text \<open>A value whose significand fits the format is its own rounding.\<close>

lemma rnd_representable:
  assumes p: "1 \<le> p" and m: "\<bar>m\<bar> \<le> 2 ^ p" and k: "emin \<le> k"
  shows "rnd p emin (of_int m * 2 powi k) = of_int m * 2 powi k"
proof (cases "m = 0")
  case False
  define x where "x = of_int m * (2::real) powi k"
  have x: "x \<noteq> 0" using False by (simp add: x_def)
  have "\<exists>n. x = of_int n * 2 powi lastplace p emin x"
  proof (cases "lastplace p emin x \<le> k")
    case True
    then show ?thesis using powi_multiple x_def by blast
  next
    case big: False
    then have e: "lastplace p emin x = bexp x - int p + 1" using k by (auto simp: lastplace_def)
    have "real_of_int \<bar>m\<bar> \<le> real_of_int (2 ^ p)" using m by (simp only: of_int_le_iff)
    then have "\<bar>x\<bar> \<le> 2 powi (int p + k)"
      by (simp add: x_def abs_mult power_int_add mult_right_mono)
    moreover have "(2::real) powi (int p + k) \<le> 2 powi bexp x"
      using big e by (intro power_int_increasing) auto
    ultimately have ax: "\<bar>x\<bar> = 2 powi (int p + k)" and "(2::real) powi (int p + k) = 2 powi bexp x"
      using bexp_bounds(1) [OF x] by linarith+
    then have "bexp x = int p + k"
      by (metis order_less_irrefl one_less_numeral_iff power_int_strict_increasing semiring_norm(76)
          linorder_neqE)
    then have "x = of_int (sgn m) * 2 powi bexp x"
      using ax False by (auto simp: x_def abs_mult sgn_if split: if_splits)
    moreover have "lastplace p emin x \<le> bexp x" using e p by linarith
    ultimately show ?thesis using powi_multiple by metis
  qed
  then obtain n where "x = of_int n * 2 powi lastplace p emin x" by blast
  then show ?thesis
    using rnd_le_grid [OF x, of n p emin] rnd_ge_grid [OF x, of n p emin] by (simp flip: x_def)
qed simp

lemma rnd_form:
  assumes "1 \<le> p"
  obtains m k where "rnd p emin x = of_int m * 2 powi k" "\<bar>m\<bar> \<le> 2 ^ p" "emin \<le> k"
proof (cases "x = 0")
  case True
  then show ?thesis using that [of 0 emin] by simp
next
  case False
  define e where "e = lastplace p emin x"
  have "bexp x + 1 \<le> int p + e" by (simp add: e_def lastplace_def)
  then have "(2::real) powi (bexp x + 1) \<le> 2 powi (int p + e)"
    by (rule power_int_increasing) simp
  with bexp_bounds(2) [OF False] have "\<bar>x\<bar> < 2 powi (int p + e)" by linarith
  also have "\<dots> = real_of_int (2 ^ p) * 2 powi e" by (simp add: power_int_add)
  finally have "x / 2 powi e \<le> of_int (2 ^ p)" "of_int (- (2 ^ p)) \<le> x / 2 powi e"
    by (simp_all add: pos_divide_le_eq pos_le_divide_eq)
  then have "rne (x / 2 powi e) \<le> 2 ^ p" "- (2 ^ p) \<le> rne (x / 2 powi e)"
    using rne_mono rne_of_int by metis+
  then have "\<bar>rne (x / 2 powi e)\<bar> \<le> 2 ^ p" by linarith
  then show ?thesis
    using that [of "rne (x / 2 powi e)" e] False by (simp add: rnd_def e_def lastplace_def)
qed

lemma rnd_idem: "1 \<le> p \<Longrightarrow> rnd p emin (rnd p emin x) = rnd p emin x"
  using rnd_form [of p emin x] rnd_representable by metis

lemma rnd_of_int: "1 \<le> p \<Longrightarrow> emin \<le> 0 \<Longrightarrow> \<bar>n\<bar> \<le> 2 ^ p \<Longrightarrow> rnd p emin (of_int n) = of_int n"
  using rnd_representable [of p n emin 0] by simp

lemma rnd_error: "\<bar>rnd p emin x - x\<bar> \<le> 2 powi lastplace p emin x / 2"
proof (cases "x = 0")
  case False
  let ?u = "(2::real) powi lastplace p emin x"
  have "rnd p emin x - x = (of_int (rne (x / ?u)) - x / ?u) * ?u"
    using False by (simp add: rnd_def algebra_simps)
  then have "\<bar>rnd p emin x - x\<bar> = \<bar>of_int (rne (x / ?u)) - x / ?u\<bar> * ?u"
    by (simp add: abs_mult)
  also have "\<dots> \<le> 1/2 * ?u" using rne_error by (intro mult_right_mono) auto
  finally show ?thesis by simp
qed simp

subsection \<open>The contract of rounding\<close>

locale rounding =
  fixes fl :: "real \<Rightarrow> real" and prec :: nat
  assumes fl_mono: "x \<le> y \<Longrightarrow> fl x \<le> fl y"
    and fl_idem [simp]: "fl (fl x) = fl x"
    and fl_int: "\<bar>n\<bar> \<le> 2 ^ prec \<Longrightarrow> fl (of_int n) = of_int n"
begin

lemma fl_0 [simp]: "fl 0 = 0"
  using fl_int [of 0] by simp

lemma fl_1 [simp]: "fl 1 = 1"
  using fl_int [of 1] by simp

lemma fl_nonneg: "0 \<le> x \<Longrightarrow> 0 \<le> fl x"
  using fl_mono [of 0 x] by simp

lemma fl_nonpos: "x \<le> 0 \<Longrightarrow> fl x \<le> 0"
  using fl_mono [of x 0] by simp

lemma fl_le_fixed: "x \<le> y \<Longrightarrow> fl y = y \<Longrightarrow> fl x \<le> y"
  using fl_mono [of x y] by simp

lemma fl_ge_fixed: "y \<le> x \<Longrightarrow> fl y = y \<Longrightarrow> y \<le> fl x"
  using fl_mono [of y x] by simp

lemma fl_nat: "n \<le> 2 ^ prec \<Longrightarrow> fl (real n) = real n"
  using fl_int [of "int n"] by (simp add: of_nat_le_iff flip: of_nat_le_iff)

text \<open>A step of at least one unit is never absorbed below \<open>2 ^ prec\<close>: a \<open>pos += step\<close> loop advances.\<close>

lemma fl_add_advances:
  assumes "1 \<le> d" and "- (2 ^ prec) \<le> \<lfloor>x\<rfloor>" and "\<lfloor>x\<rfloor> < 2 ^ prec"
  shows "\<lfloor>x\<rfloor> + 1 \<le> \<lfloor>fl (x + d)\<rfloor>"
proof -
  have "\<bar>\<lfloor>x\<rfloor> + 1\<bar> \<le> 2 ^ prec" using assms(2,3) by linarith
  then have "fl (of_int (\<lfloor>x\<rfloor> + 1)) = of_int (\<lfloor>x\<rfloor> + 1)" by (rule fl_int)
  moreover have "of_int (\<lfloor>x\<rfloor> + 1) \<le> x + d" using assms(1) by linarith
  ultimately have "of_int (\<lfloor>x\<rfloor> + 1) \<le> fl (x + d)" by (intro fl_ge_fixed)
  then show ?thesis by (simp only: le_floor_iff)
qed

end

interpretation r32: rounding f32 24
  by unfold_locales (auto simp: f32_def intro: rnd_mono rnd_idem rnd_of_int)

interpretation r64: rounding f64 53
  by unfold_locales (auto simp: f64_def intro: rnd_mono rnd_idem rnd_of_int)

text \<open>Widening a \<open>float\<close> to \<open>double\<close> is exact.\<close>

lemma f64_f32 [simp]: "f64 (f32 x) = f32 x"
proof -
  obtain m k where 1: "f32 x = of_int m * 2 powi k" "\<bar>m\<bar> \<le> 2 ^ 24" "- 149 \<le> k"
    using rnd_form [of 24 "- 149" x] by (auto simp: f32_def)
  then have "\<bar>m\<bar> \<le> 2 ^ 53" by simp
  with 1 show ?thesis by (simp add: f64_def rnd_representable)
qed

text \<open>The standard model: a relative error of half a unit in the last place, plus the subnormal floor.\<close>

lemma rnd_relative_error:
  "\<bar>rnd p emin x - x\<bar> \<le> \<bar>x\<bar> / 2 ^ p + 2 powi emin / 2"
proof (cases "x = 0")
  case False
  have "(2::real) powi lastplace p emin x \<le> 2 powi (bexp x - int p + 1) + 2 powi emin"
    unfolding lastplace_def by (cases "bexp x - int p + 1 \<le> emin") (auto simp: max_def)
  also have "(2::real) powi (bexp x - int p + 1) = 2 * 2 powi bexp x / 2 ^ p"
    by (simp add: power_int_add power_int_diff)
  also have "\<dots> \<le> 2 * \<bar>x\<bar> / 2 ^ p"
    using bexp_bounds(1) [OF False] by (simp add: divide_right_mono)
  finally show ?thesis using rnd_error [of p emin x] by simp
qed simp

lemma f64_error: "\<bar>f64 x - x\<bar> \<le> \<bar>x\<bar> / 2 ^ 53 + 1 / 2 ^ 1000"
proof -
  have "(2::real) powi (- 1074) / 2 \<le> 1 / 2 ^ 1000"
    by (simp add: power_int_minus field_simps)
  then show ?thesis using rnd_relative_error [of 53 "- 1074" x] by (simp add: f64_def)
qed

subsection \<open>Evaluation on numerals\<close>

lemma f32_numeral [float_simps]:
  "numeral n \<le> (16777216::int) \<Longrightarrow> f32 (numeral n) = numeral n"
  "numeral n \<le> (16777216::int) \<Longrightarrow> f32 (- numeral n) = - numeral n"
  using r32.fl_int [of "numeral n"] r32.fl_int [of "- numeral n"] by simp_all

lemma f64_numeral [float_simps]:
  "numeral n \<le> (9007199254740992::int) \<Longrightarrow> f64 (numeral n) = numeral n"
  "numeral n \<le> (9007199254740992::int) \<Longrightarrow> f64 (- numeral n) = - numeral n"
  using r64.fl_int [of "numeral n"] r64.fl_int [of "- numeral n"] by simp_all

lemma f64_Ints:
  assumes "x \<in> \<int>" and "\<bar>x\<bar> \<le> 2 ^ 53"
  shows "f64 x = x"
proof -
  obtain n where n: "x = of_int n" using assms(1) by (auto elim: Ints_cases)
  then have "real_of_int \<bar>n\<bar> \<le> real_of_int (2 ^ 53)" using assms(2) by simp
  then have "\<bar>n\<bar> \<le> 2 ^ 53" by (simp only: of_int_le_iff)
  then show ?thesis using r64.fl_int [of n] n by simp
qed

text \<open>Any closed rational term: unfold the definition.\<close>

lemmas round_eval =
  f32_def f64_def rnd_def lastplace_def bexp_def compute_bitlen compute_floorlog rne_def Let_def

subsection \<open>Conversions\<close>

text \<open>
  \<open>static_cast<int>\<close> of a \<open>double\<close> truncates, and is undefined when the result does not fit: None.
  \<open>std::llround\<close> rounds half away from zero, and its result is then cast to \<open>uint64_t\<close>.
\<close>

definition trunc :: "real \<Rightarrow> int" where
  "trunc x = (if 0 \<le> x then \<lfloor>x\<rfloor> else \<lceil>x\<rceil>)"

definition int_cast :: "real \<Rightarrow> int option" where
  "int_cast x = (if - (2 ^ 31) \<le> trunc x \<and> trunc x < 2 ^ 31 then Some (trunc x) else None)"

definition llround :: "real \<Rightarrow> int" where
  "llround x = (if 0 \<le> x then \<lfloor>x + 1/2\<rfloor> else \<lceil>x - 1/2\<rceil>)"

definition u64_of_real :: "real \<Rightarrow> 64 word" where
  "u64_of_real x = word_of_int (llround x)"

lemma trunc_nonneg: "0 \<le> x \<Longrightarrow> trunc x = \<lfloor>x\<rfloor>"
  by (simp add: trunc_def)

lemma int_cast_Some: "0 \<le> x \<Longrightarrow> x < 2 ^ 31 \<Longrightarrow> int_cast x = Some \<lfloor>x\<rfloor>"
  by (auto simp: int_cast_def trunc_def floor_less_iff)

lemma int_cast_SomeD: "int_cast x = Some i \<Longrightarrow> i = trunc x \<and> - (2 ^ 31) \<le> i \<and> i < 2 ^ 31"
  by (auto simp: int_cast_def split: if_splits)

lemma llround_of_int [simp]: "llround (of_int n) = n"
  by (auto simp: llround_def ceiling_eq_iff)

lemma llround_error: "\<bar>of_int (llround x) - x\<bar> \<le> 1/2"
proof (cases "0 \<le> x")
  case True
  have "of_int \<lfloor>x + 1/2\<rfloor> \<le> x + 1/2" "x + 1/2 < of_int \<lfloor>x + 1/2\<rfloor> + 1" by linarith+
  then have "\<bar>of_int \<lfloor>x + 1/2\<rfloor> - x\<bar> \<le> 1/2" by linarith
  with True show ?thesis by (simp add: llround_def)
next
  case False
  have "x - 1/2 \<le> of_int \<lceil>x - 1/2\<rceil>" "of_int \<lceil>x - 1/2\<rceil> < x - 1/2 + 1" by linarith+
  then have "\<bar>of_int \<lceil>x - 1/2\<rceil> - x\<bar> \<le> 1/2" by linarith
  with False show ?thesis by (simp add: llround_def)
qed

lemma llround_mono: "x \<le> y \<Longrightarrow> llround x \<le> llround y"
  by (auto simp: llround_def intro: floor_mono ceiling_mono) linarith

end
