(* ===== verification/Strings.thy ===== *)
theory Strings
  imports Floats
begin

section \<open>The string functions of the standard library the code calls\<close>

text \<open>
  \<open>std::string::find\<close> and \<open>substr\<close>, \<open>std::stoi\<close> and \<open>std::stod\<close> (None is the thrown
  \<open>std::invalid_argument\<close> or \<open>std::out_of_range\<close>), and extraction from a \<open>std::istringstream\<close> of
  words and of \<open>uint32_t\<close>. A string is its list of bytes. \<open>std::stod\<close> is modelled on decimal
  numerals, with the range error of an overflow and of an inexact subnormal result; the hexadecimal,
  infinity and NaN spellings are outside the model.
\<close>

subsection \<open>Searching\<close>

fun starts_with :: "string \<Rightarrow> string \<Rightarrow> bool" where
  "starts_with [] s = True"
| "starts_with (p # ps) [] = False"
| "starts_with (p # ps) (c # s) = (p = c \<and> starts_with ps s)"

text \<open>\<open>s.find(pat)\<close> followed by skipping the match: what is left after the first occurrence.\<close>

fun after_first :: "string \<Rightarrow> string \<Rightarrow> string option" where
  "after_first pat [] = (if pat = [] then Some [] else None)"
| "after_first pat (c # s) =
     (if starts_with pat (c # s) then Some (drop (length pat) (c # s)) else after_first pat s)"

text \<open>\<open>s.substr(0, s.find(c))\<close>, None when \<open>c\<close> does not occur.\<close>

fun upto_char :: "char \<Rightarrow> string \<Rightarrow> string option" where
  "upto_char d [] = None"
| "upto_char d (c # s) = (if c = d then Some [] else map_option ((#) c) (upto_char d s))"

lemma starts_with_append [simp]: "starts_with p (p @ s)"
  by (induction p) auto

lemma starts_with_iff: "starts_with p s \<longleftrightarrow> (\<exists>t. s = p @ t)"
  by (induction p s rule: starts_with.induct) auto

lemma after_first_here: "after_first p (p @ s) = Some s"
proof (cases "p @ s")
  case (Cons c t)
  then have "starts_with p (c # t)" "drop (length p) (c # t) = s"
    by (metis starts_with_append, metis append_eq_conv_conj)
  with Cons show ?thesis by simp
qed simp

lemma after_first_skip:
  assumes "\<And>u v. t @ s \<noteq> u @ p @ v \<or> length t \<le> length u"
  shows "after_first p (t @ s) = after_first p s"
  using assms
proof (induction t)
  case (Cons c t)
  have "\<not> starts_with p (c # t @ s)"
    using Cons.prems [of "[]"] by (auto simp: starts_with_iff)
  moreover have "after_first p (t @ s) = after_first p s"
  proof (rule Cons.IH)
    fix u v
    show "t @ s \<noteq> u @ p @ v \<or> length t \<le> length u"
      using Cons.prems [of "c # u" v] by auto
  qed
  ultimately show ?case by simp
qed simp

lemma upto_char_append: "d \<notin> set v \<Longrightarrow> upto_char d (v @ d # s) = Some v"
  by (induction v) auto

lemma upto_char_Some: "upto_char d s = Some v \<Longrightarrow> d \<notin> set v \<and> (\<exists>t. s = v @ d # t)"
  by (induction s arbitrary: v) (auto split: if_splits)

subsection \<open>Numbers\<close>

definition is_space :: "char \<Rightarrow> bool" where
  "is_space c \<longleftrightarrow> of_char c = (32::nat) \<or> (9 \<le> (of_char c :: nat) \<and> of_char c \<le> (13::nat))"

definition is_digit :: "char \<Rightarrow> bool" where
  "is_digit c \<longleftrightarrow> 48 \<le> (of_char c :: nat) \<and> of_char c \<le> (57::nat)"

definition digit_val :: "char \<Rightarrow> nat" where
  "digit_val c = of_char c - 48"

definition digits_val :: "string \<Rightarrow> nat" where
  "digits_val ds = foldl (\<lambda>n c. 10 * n + digit_val c) 0 ds"

definition skip_ws :: "string \<Rightarrow> string" where
  "skip_ws s = dropWhile is_space s"

text \<open>An optional sign: true for minus.\<close>

definition split_sign :: "string \<Rightarrow> bool \<times> string" where
  "split_sign s = (case s of [] \<Rightarrow> (False, [])
     | c # t \<Rightarrow> if c = CHR ''-'' then (True, t) else if c = CHR ''+'' then (False, t) else (False, s))"

lemma split_sign_shorter: "split_sign s = (neg, t) \<Longrightarrow> length t \<le> length s"
  by (cases s) (auto simp: split_sign_def split: if_splits)

definition stoi :: "string \<Rightarrow> int option" where
  "stoi s = (let (neg, t) = split_sign (skip_ws s); ds = takeWhile is_digit t;
       v = (if neg then - int (digits_val ds) else int (digits_val ds))
     in if ds = [] then None
        else if - (2 ^ 31) \<le> v \<and> v < 2 ^ 31 then Some v else None)"

text \<open>The exponent part counts only when a digit follows it.\<close>

definition split_exponent :: "string \<Rightarrow> int" where
  "split_exponent s = (case s of [] \<Rightarrow> 0
     | c # t \<Rightarrow> if c = CHR ''e'' \<or> c = CHR ''E''
         then (let (neg, u) = split_sign t; ds = takeWhile is_digit u
               in if neg then - int (digits_val ds) else int (digits_val ds))
         else 0)"

definition stod :: "string \<Rightarrow> real option" where
  "stod s = (let (neg, t) = split_sign (skip_ws s);
       ip = takeWhile is_digit t; r = dropWhile is_digit t;
       (fp, r') = (case r of [] \<Rightarrow> ([], [])
         | c # u \<Rightarrow> if c = CHR ''.'' then (takeWhile is_digit u, dropWhile is_digit u) else ([], r));
       m = real (digits_val (ip @ fp)) * 10 powi (split_exponent r' - int (length fp));
       x = (if neg then - m else m); v = f64 x
     in if ip = [] \<and> fp = [] then None
        else if \<bar>v\<bar> < 2 ^ 1024 \<and> (v = x \<or> 2 powi (-1022) \<le> \<bar>v\<bar>) then Some v else None)"

subsection \<open>Extraction from a string stream\<close>

lemma length_skip_ws: "length (skip_ws s) \<le> length s"
  by (simp add: skip_ws_def length_dropWhile_le)

text \<open>\<open>while (ss >> id) ids.push_back(id)\<close>\<close>

function words_of :: "string \<Rightarrow> string list" where
  "words_of s = (let t = skip_ws s in
     if t = [] then []
     else takeWhile (\<lambda>c. \<not> is_space c) t # words_of (dropWhile (\<lambda>c. \<not> is_space c) t))"
  by pat_completeness auto
termination
proof (relation "measure length", goal_cases)
  case (2 s t)
  then obtain c u where t: "t = c # u" "\<not> is_space c"
    by (metis dropWhile_eq_Cons_conv neq_Nil_conv skip_ws_def)
  then have "length (dropWhile (\<lambda>c. \<not> is_space c) t) \<le> length u"
    by (simp add: length_dropWhile_le)
  moreover have "length t \<le> length s" using 2(1) length_skip_ws [of s] by simp
  ultimately show ?case using t by simp
qed simp

declare words_of.simps [simp del]

text \<open>
  \<open>ss >> tg\<close> for a \<open>uint32_t\<close>: an optional sign and digits, with a minus sign taken modulo \<open>2 ^ 32\<close>;
  no digit or a value above the type's maximum sets \<open>failbit\<close> (None).
\<close>

definition get_u32 :: "string \<Rightarrow> (32 word \<times> string) option" where
  "get_u32 s = (let (neg, t) = split_sign (skip_ws s); ds = takeWhile is_digit t
     in if ds = [] \<or> 2 ^ 32 \<le> digits_val ds then None
        else Some ((if neg then - of_nat (digits_val ds) else of_nat (digits_val ds)),
                   dropWhile is_digit t))"

lemma get_u32_shorter:
  assumes "get_u32 s = Some (w, r)"
  shows "length r < length s"
proof -
  obtain neg t where t: "split_sign (skip_ws s) = (neg, t)" by fastforce
  have "takeWhile is_digit t \<noteq> []" and r: "r = dropWhile is_digit t"
    using assms t by (auto simp: get_u32_def Let_def split: if_splits)
  then obtain c u where u: "t = c # u" "is_digit c"
    by (metis takeWhile.simps(1) takeWhile_eq_Nil_iff neq_Nil_conv list.sel(1))
  then have "length r \<le> length u" by (simp add: r length_dropWhile_le)
  moreover have "length t \<le> length s"
    using split_sign_shorter [OF t] length_skip_ws [of s] by linarith
  ultimately show ?thesis using u by simp
qed

text \<open>\<open>while (ss >> tg) list.push_back(tg)\<close>\<close>

function u32s_of :: "string \<Rightarrow> 32 word list" where
  "u32s_of s = (case get_u32 s of None \<Rightarrow> [] | Some (w, r) \<Rightarrow> w # u32s_of r)"
  by pat_completeness auto
termination
  by (relation "measure length") (auto dest: get_u32_shorter)

declare u32s_of.simps [simp del]

subsection \<open>Printing integers\<close>

text \<open>\<open>std::to_string\<close> and \<open>fmt\<close>'s \<open>{}\<close> of an integer.\<close>

definition digit_char :: "nat \<Rightarrow> char" where
  "digit_char d = char_of (48 + d)"

fun show_nat :: "nat \<Rightarrow> string" where
  "show_nat n = (if n < 10 then [digit_char n] else show_nat (n div 10) @ [digit_char (n mod 10)])"

declare show_nat.simps [simp del]

definition show_int :: "int \<Rightarrow> string" where
  "show_int i = (if i < 0 then CHR ''-'' # show_nat (nat (- i)) else show_nat (nat i))"

lemma digit_char: "d < 10 \<Longrightarrow> is_digit (digit_char d) \<and> digit_val (digit_char d) = d"
  by (simp add: is_digit_def digit_val_def digit_char_def)

lemma digits_val_snoc: "digits_val (ds @ [c]) = 10 * digits_val ds + digit_val c"
  by (simp add: digits_val_def)

lemma show_nat_digits: "c \<in> set (show_nat n) \<Longrightarrow> is_digit c"
  by (induction n rule: show_nat.induct) (subst (asm) show_nat.simps, auto simp: digit_char split: if_splits)

lemma digits_val_show_nat: "digits_val (show_nat n) = n"
proof (induction n rule: show_nat.induct)
  case (1 n)
  show ?case
  proof (cases "n < 10")
    case True
    then show ?thesis
      by (subst show_nat.simps) (simp add: digit_char digits_val_def)
  next
    case False
    then show ?thesis
      using 1 by (subst show_nat.simps) (simp add: digits_val_snoc digit_char)
  qed
qed

lemma show_nat_nonempty [simp]: "show_nat n \<noteq> []"
  by (subst show_nat.simps) simp

lemma digit_not_special: "is_digit c \<Longrightarrow> \<not> is_space c \<and> c \<noteq> CHR ''-'' \<and> c \<noteq> CHR ''+''"
  by (auto simp: is_digit_def is_space_def)

text \<open>Reading back a printed integer followed by something that is no digit.\<close>

lemma stoi_show_int:
  assumes "- (2 ^ 31) \<le> i" and "i < 2 ^ 31" and "r = [] \<or> \<not> is_digit (hd r)"
  shows "stoi (show_int i @ r) = Some i"
proof -
  define n where "n = nat \<bar>i\<bar>"
  obtain c t where ct: "show_nat n = c # t" by (cases "show_nat n") auto
  then have c: "is_digit c" using show_nat_digits [of c n] by simp
  have take: "takeWhile is_digit (show_nat n @ r) = show_nat n"
    using assms(3) show_nat_digits [of _ n] by (cases r) (auto simp: takeWhile_append)
  have sk: "skip_ws (show_nat n @ r) = show_nat n @ r"
    using ct digit_not_special [OF c] by (simp add: skip_ws_def)
  show ?thesis
  proof (cases "i < 0")
    case True
    then have "split_sign (skip_ws (show_int i @ r)) = (True, show_nat n @ r)"
      by (simp add: show_int_def n_def skip_ws_def is_space_def split_sign_def)
    then show ?thesis
      using True take assms(1,2) by (simp add: stoi_def digits_val_show_nat n_def)
  next
    case False
    then have "split_sign (skip_ws (show_int i @ r)) = (False, show_nat n @ r)"
      using sk ct digit_not_special [OF c] by (simp add: show_int_def n_def split_sign_def)
    then show ?thesis
      using False take assms(1,2) by (simp add: stoi_def digits_val_show_nat n_def)
  qed
qed

end
