(* ===== verification/Config.thy ===== *)
theory Config
  imports Strings
begin

unbundle bit_operations_syntax

section \<open>Configuration (\<open>SweepConfig.hpp\<close>, \<open>SweepConfig.cpp\<close>)\<close>

text \<open>
  The configuration structs with their default member values, \<open>SweepConfig::from_file\<close> section by
  section, the checks it makes, and \<open>SweepConfig::splitBands\<close>. The XML library (tinyxml2) is a
  parameter: a record of the accessors the code calls, over an abstract element type. The units
  library (Au) is transparent: a quantity is the real in the unit the field's name says. The
  main results: a configuration that loads satisfies \<open>valid_config\<close>, which is what the other
  components rely on, and the slices of \<open>splitBands\<close> are as many as the devices and tile each band.
\<close>

subsection \<open>The structs\<close>

record amqp_config =
  url :: string
  amqp_username :: string
  amqp_password :: string
  detection_topic :: string
  task_request_queue :: string
  task_response_queue :: string
  reconnect_interval_sec :: int

record db_config =
  db_host :: string
  db_port :: int
  db_name :: string
  db_user :: string
  db_password :: string

record device_config =
  rx_channels :: int
  sample_rate :: real
  rx_gain_db :: real
  bandwidth_hz :: real
  required_device_id :: string

record sweep_params =
  start_hz :: real
  stop_hz :: real
  dwell_samples :: int
  fft_size :: int
  usable_bw_fraction :: real
  threshold_db :: real
  min_signal_bw_hz :: real
  settle_samples :: int
  dc_guard_hz :: real
  cfar_guard_bins :: int
  cfar_ref_bins :: int
  min_papr_db :: real
  noise_floor_alpha :: real

record receiver_config =
  local_ip :: string
  rx_port :: int

record threat_config =
  threat_enabled :: bool
  gps_enabled :: bool
  gps_jammer_threshold_db :: real
  gps_spoof_detectable_dbm :: real
  gps_check_interval_s :: real
  adsb_enabled :: bool
  ais_enabled :: bool
  eas_enabled :: bool
  dsc_enabled :: bool
  p25_rogue_enabled :: bool
  alert_topic :: string

record p25_config =
  p25_enabled :: bool
  grant_topic :: string
  capture_s :: real
  p25_rank :: int
  tg_whitelist :: "32 word list"

record band_config =
  device_id :: string
  device_required :: bool
  band_start_hz :: real
  band_stop_hz :: real

record sweep_config =
  scanner_id :: string
  rank :: int
  analysis_pause_ms :: real
  bands :: "band_config list"
  scan_device_ids :: "string list"
  amqp :: amqp_config
  db :: db_config
  device :: device_config
  sweep :: sweep_params
  receiver :: receiver_config
  p25 :: p25_config
  threat :: threat_config

subsection \<open>Default member values\<close>

definition default_amqp :: amqp_config where
  "default_amqp = \<lparr>url = ''amqp://localhost:5672'', amqp_username = [], amqp_password = [],
     detection_topic = ''rf.detections'', task_request_queue = ''sdr.task.request'',
     task_response_queue = ''sdr.task.response'', reconnect_interval_sec = 5\<rparr>"

definition default_db :: db_config where
  "default_db = \<lparr>db_host = ''localhost'', db_port = 5432, db_name = ''sdr_scanner'',
     db_user = [], db_password = []\<rparr>"

definition default_device :: device_config where
  "default_device = \<lparr>rx_channels = 1, sample_rate = 10000000, rx_gain_db = 40,
     bandwidth_hz = 10000000, required_device_id = []\<rparr>"

definition default_sweep :: sweep_params where
  "default_sweep = \<lparr>start_hz = 70000000, stop_hz = 1000000000, dwell_samples = 4096,
     fft_size = 4096, usable_bw_fraction = f64 (4/5), threshold_db = 10, min_signal_bw_hz = 1000,
     settle_samples = 512, dc_guard_hz = 50000, cfar_guard_bins = 8, cfar_ref_bins = 32,
     min_papr_db = 3, noise_floor_alpha = f32 (8/100)\<rparr>"

definition default_receiver :: receiver_config where
  "default_receiver = \<lparr>local_ip = ''0.0.0.0'', rx_port = 0\<rparr>"

definition default_threat :: threat_config where
  "default_threat = \<lparr>threat_enabled = False, gps_enabled = False, gps_jammer_threshold_db = 20,
     gps_spoof_detectable_dbm = - 110, gps_check_interval_s = 30, adsb_enabled = True,
     ais_enabled = True, eas_enabled = True, dsc_enabled = True, p25_rogue_enabled = True,
     alert_topic = ''rf.alerts''\<rparr>"

definition default_p25 :: p25_config where
  "default_p25 = \<lparr>p25_enabled = False, grant_topic = ''rf.p25.grants'', capture_s = 3,
     p25_rank = 3, tg_whitelist = []\<rparr>"

definition default_band :: band_config where
  "default_band = \<lparr>device_id = [], device_required = False, band_start_hz = 0, band_stop_hz = 0\<rparr>"

definition default_config :: sweep_config where
  "default_config = \<lparr>scanner_id = ''scanner-0'', rank = 1, analysis_pause_ms = 0, bands = [],
     scan_device_ids = [], amqp = default_amqp, db = default_db, device = default_device,
     sweep = default_sweep, receiver = default_receiver, p25 = default_p25,
     threat = default_threat\<rparr>"

definition connection_string :: "db_config \<Rightarrow> string" where
  "connection_string d = ''host='' @ db_host d @ '' port='' @ show_int (db_port d) @
     '' dbname='' @ db_name d @ '' user='' @ db_user d @ '' password='' @ db_password d"

subsection \<open>The XML library\<close>

text \<open>
  \<open>xml_load\<close> is \<open>LoadFile\<close> (the error text, or the document node), \<open>xml_child\<close> is
  \<open>FirstChildElement(name)\<close>, \<open>xml_children\<close> what the loop over \<open>FirstChildElement\<close> and
  \<open>NextSiblingElement\<close> visits, \<open>xml_text\<close> is \<open>GetText\<close>, and the queries give None where the library's
  \<open>Query...Text\<close> reports an error, in which case it leaves its target alone.
\<close>

record 'e xml_api =
  xml_load :: "string \<Rightarrow> string + 'e"
  xml_child :: "'e \<Rightarrow> string \<Rightarrow> 'e option"
  xml_children :: "'e \<Rightarrow> string \<Rightarrow> 'e list"
  xml_text :: "'e \<Rightarrow> string option"
  xml_int :: "'e \<Rightarrow> int option"
  xml_u64 :: "'e \<Rightarrow> 64 word option"
  xml_double :: "'e \<Rightarrow> real option"
  xml_float :: "'e \<Rightarrow> real option"

datatype config_error =
    CannotOpen string string
  | NoRootElement
  | MissingElement string
  | BandRange real real
  | BadCaptureS string
  | BadP25Rank string
  | SweepRange
  | BadFftSize
  | BadUsableFraction
  | BadGuardBins
  | BadRefBins
  | BadAlpha

definition get_or :: "'a option \<Rightarrow> 'a \<Rightarrow> 'a" where
  "get_or a d = (case a of None \<Rightarrow> d | Some x \<Rightarrow> x)"

lemma get_or_simps [simp]: "get_or None d = d" "get_or (Some x) d = x"
  by (simp_all add: get_or_def)

definition text_or_default :: "'e xml_api \<Rightarrow> 'e option \<Rightarrow> string \<Rightarrow> string" where
  "text_or_default x el d = (case el of None \<Rightarrow> d | Some e \<Rightarrow> get_or (xml_text x e) d)"

definition need :: "'e xml_api \<Rightarrow> 'e \<Rightarrow> string \<Rightarrow> (config_error, 'e) result" where
  "need x e name = (case xml_child x e name of None \<Rightarrow> Inl (MissingElement name) | Some c \<Rightarrow> Inr c)"

text \<open>
  The recurring field patterns: \<open>Query...Text\<close> into the field itself keeps the old value when the
  text does not parse; through a local \<open>raw\<close> initialised to 0 it stores 0.
\<close>

definition query_field :: "('e \<Rightarrow> 'v option) \<Rightarrow> 'e option \<Rightarrow> 'v \<Rightarrow> 'v" where
  "query_field q el old = (case el of None \<Rightarrow> old | Some e \<Rightarrow> get_or (q e) old)"

definition hz_field :: "'e xml_api \<Rightarrow> 'e option \<Rightarrow> real \<Rightarrow> real" where
  "hz_field x el old = (case el of None \<Rightarrow> old
     | Some e \<Rightarrow> f64 (real (unat (get_or (xml_u64 x e) 0))))"

definition raw_double_field :: "'e xml_api \<Rightarrow> 'e option \<Rightarrow> real \<Rightarrow> real" where
  "raw_double_field x el old = (case el of None \<Rightarrow> old | Some e \<Rightarrow> get_or (xml_double x e) 0)"

definition boolopt :: "'e xml_api \<Rightarrow> 'e \<Rightarrow> string \<Rightarrow> bool \<Rightarrow> bool" where
  "boolopt x parent tag d = (case xml_child x parent tag of None \<Rightarrow> d
     | Some e \<Rightarrow> (let v = get_or (xml_text x e) [] in v = ''true'' \<or> v = ''1'' \<or> v = ''yes''))"

subsection \<open>The sections of the file\<close>

definition parse_general :: "'e xml_api \<Rightarrow> 'e \<Rightarrow> sweep_config \<Rightarrow> sweep_config" where
  "parse_general x rt cfg = cfg\<lparr>
     scanner_id := text_or_default x (xml_child x rt ''scanner_id'') (scanner_id cfg),
     rank := query_field (xml_int x) (xml_child x rt ''rank'') (rank cfg),
     analysis_pause_ms := (case xml_child x rt ''analysis_pause_ms'' of
        None \<Rightarrow> analysis_pause_ms cfg | Some e \<Rightarrow> of_int (get_or (xml_int x e) 0)),
     scan_device_ids := (case xml_child x rt ''scan_device_ids'' of
        None \<Rightarrow> scan_device_ids cfg
      | Some e \<Rightarrow> scan_device_ids cfg @ words_of (get_or (xml_text x e) []))\<rparr>"

definition parse_band :: "'e xml_api \<Rightarrow> 'e \<Rightarrow> (config_error, band_config) result" where
  "parse_band x b =
     (let bc = default_band\<lparr>device_id := text_or_default x (xml_child x b ''device'') []\<rparr>;
          bc = (case xml_child x b ''required_device'' of None \<Rightarrow> bc
             | Some e \<Rightarrow> bc\<lparr>device_id := text_or_default x (Some e) [], device_required := True\<rparr>);
          bc = bc\<lparr>band_start_hz := hz_field x (xml_child x b ''start_hz'') (band_start_hz bc)\<rparr>;
          bc = bc\<lparr>band_stop_hz := hz_field x (xml_child x b ''stop_hz'') (band_stop_hz bc)\<rparr>
      in if band_stop_hz bc \<le> band_start_hz bc
         then Inl (BandRange (band_start_hz bc) (band_stop_hz bc)) else Inr bc)"

fun parse_band_list :: "'e xml_api \<Rightarrow> 'e list \<Rightarrow> (config_error, band_config list) result" where
  "parse_band_list x [] = Inr []"
| "parse_band_list x (b # bs) =
     bind_result (parse_band x b) (\<lambda>bc. bind_result (parse_band_list x bs) (\<lambda>r. Inr (bc # r)))"

definition parse_bands :: "'e xml_api \<Rightarrow> 'e \<Rightarrow> (config_error, band_config list) result" where
  "parse_bands x rt = (case xml_child x rt ''bands'' of None \<Rightarrow> Inr []
     | Some el \<Rightarrow> parse_band_list x (xml_children x el ''band''))"

definition parse_threat :: "'e xml_api \<Rightarrow> 'e \<Rightarrow> threat_config \<Rightarrow> threat_config" where
  "parse_threat x rt t = (case xml_child x rt ''threat'' of None \<Rightarrow> t
     | Some th \<Rightarrow> t\<lparr>
        threat_enabled := boolopt x th ''enabled'' False,
        gps_enabled := boolopt x th ''gps_enabled'' False,
        adsb_enabled := boolopt x th ''adsb_enabled'' True,
        ais_enabled := boolopt x th ''ais_enabled'' True,
        eas_enabled := boolopt x th ''eas_enabled'' True,
        dsc_enabled := boolopt x th ''dsc_enabled'' True,
        p25_rogue_enabled := boolopt x th ''p25_rogue_enabled'' True,
        gps_jammer_threshold_db := query_field (xml_double x)
          (xml_child x th ''gps_jammer_threshold_db'') (gps_jammer_threshold_db t),
        gps_spoof_detectable_dbm := query_field (xml_double x)
          (xml_child x th ''gps_spoof_detectable_dbm'') (gps_spoof_detectable_dbm t),
        gps_check_interval_s := query_field (xml_double x)
          (xml_child x th ''gps_check_interval_s'') (gps_check_interval_s t),
        alert_topic := text_or_default x (xml_child x th ''alert_topic'') (alert_topic t)\<rparr>)"

definition parse_p25 :: "'e xml_api \<Rightarrow> 'e \<Rightarrow> p25_config \<Rightarrow> (config_error, p25_config) result" where
  "parse_p25 x rt p = (case xml_child x rt ''p25'' of None \<Rightarrow> Inr p
     | Some el \<Rightarrow>
        (let p = p\<lparr>p25_enabled := boolopt x el ''enabled'' False,
                   grant_topic := text_or_default x (xml_child x el ''grant_topic'') (grant_topic p)\<rparr>
         in bind_result
              (case xml_child x el ''capture_s'' of None \<Rightarrow> Inr p
               | Some e \<Rightarrow> (case stod (get_or (xml_text x e) ''3.0'') of
                    None \<Rightarrow> Inl (BadCaptureS (get_or (xml_text x e) []))
                  | Some v \<Rightarrow> Inr (p\<lparr>capture_s := v\<rparr>)))
            (\<lambda>p. bind_result
              (case xml_child x el ''rank'' of None \<Rightarrow> Inr p
               | Some e \<Rightarrow> (case stoi (get_or (xml_text x e) ''3'') of
                    None \<Rightarrow> Inl (BadP25Rank (get_or (xml_text x e) []))
                  | Some v \<Rightarrow> Inr (p\<lparr>p25_rank := v\<rparr>)))
            (\<lambda>p. Inr (case xml_child x el ''tg_whitelist'' of None \<Rightarrow> p
               | Some e \<Rightarrow> p\<lparr>tg_whitelist := tg_whitelist p @ u32s_of (get_or (xml_text x e) [])\<rparr>)))))"

definition parse_amqp :: "'e xml_api \<Rightarrow> 'e \<Rightarrow> amqp_config \<Rightarrow> amqp_config" where
  "parse_amqp x rt a = (case xml_child x rt ''amqp'' of None \<Rightarrow> a
     | Some el \<Rightarrow> a\<lparr>
        url := text_or_default x (xml_child x el ''url'') (url a),
        amqp_username := text_or_default x (xml_child x el ''username'') [],
        amqp_password := text_or_default x (xml_child x el ''password'') [],
        detection_topic := text_or_default x (xml_child x el ''detection_topic'') (detection_topic a),
        task_request_queue :=
          text_or_default x (xml_child x el ''task_request_queue'') (task_request_queue a),
        task_response_queue :=
          text_or_default x (xml_child x el ''task_response_queue'') (task_response_queue a),
        reconnect_interval_sec :=
          query_field (xml_int x) (xml_child x el ''reconnect_interval_sec'') (reconnect_interval_sec a)\<rparr>)"

definition parse_database :: "'e xml_api \<Rightarrow> 'e \<Rightarrow> db_config \<Rightarrow> db_config" where
  "parse_database x rt d = (case xml_child x rt ''database'' of None \<Rightarrow> d
     | Some el \<Rightarrow> d\<lparr>
        db_host := text_or_default x (xml_child x el ''host'') (db_host d),
        db_port := query_field (xml_int x) (xml_child x el ''port'') (db_port d),
        db_name := text_or_default x (xml_child x el ''name'') (db_name d),
        db_user := text_or_default x (xml_child x el ''user'') [],
        db_password := text_or_default x (xml_child x el ''password'') []\<rparr>)"

definition parse_device :: "'e xml_api \<Rightarrow> 'e \<Rightarrow> device_config \<Rightarrow> device_config" where
  "parse_device x dev d =
     (let d = d\<lparr>
        rx_channels := query_field (xml_int x) (xml_child x dev ''rx_channels'') (rx_channels d),
        sample_rate := raw_double_field x (xml_child x dev ''sample_rate_sps'') (sample_rate d),
        rx_gain_db := query_field (xml_double x) (xml_child x dev ''rx_gain_db'') (rx_gain_db d),
        required_device_id := (case xml_child x dev ''required_device_id'' of
            None \<Rightarrow> required_device_id d | Some e \<Rightarrow> text_or_default x (Some e) []),
        bandwidth_hz := raw_double_field x (xml_child x dev ''bandwidth_hz'') (bandwidth_hz d)\<rparr>
      in d\<lparr>rx_channels := max 1 (rx_channels d)\<rparr>)"

definition parse_sweep :: "'e xml_api \<Rightarrow> 'e \<Rightarrow> sweep_params \<Rightarrow> sweep_params" where
  "parse_sweep x el s = s\<lparr>
     start_hz := hz_field x (xml_child x el ''start_hz'') (start_hz s),
     stop_hz := hz_field x (xml_child x el ''stop_hz'') (stop_hz s),
     dwell_samples := query_field (xml_int x) (xml_child x el ''dwell_samples'') (dwell_samples s),
     fft_size := query_field (xml_int x) (xml_child x el ''fft_size'') (fft_size s),
     usable_bw_fraction :=
       query_field (xml_double x) (xml_child x el ''usable_bw_fraction'') (usable_bw_fraction s),
     threshold_db := query_field (xml_double x) (xml_child x el ''threshold_db'') (threshold_db s),
     min_signal_bw_hz := hz_field x (xml_child x el ''min_signal_bw_hz'') (min_signal_bw_hz s),
     settle_samples := query_field (xml_int x) (xml_child x el ''settle_samples'') (settle_samples s),
     dc_guard_hz := hz_field x (xml_child x el ''dc_guard_hz'') (dc_guard_hz s),
     cfar_guard_bins := query_field (xml_int x) (xml_child x el ''cfar_guard_bins'') (cfar_guard_bins s),
     cfar_ref_bins := query_field (xml_int x) (xml_child x el ''cfar_ref_bins'') (cfar_ref_bins s),
     min_papr_db := query_field (xml_float x) (xml_child x el ''min_papr_db'') (min_papr_db s),
     noise_floor_alpha :=
       query_field (xml_float x) (xml_child x el ''noise_floor_alpha'') (noise_floor_alpha s)\<rparr>"

text \<open>The checks after the \<open><sweep>\<close> block, in the order of the source; one clamps instead of throwing.\<close>

definition check_sweep :: "sweep_params \<Rightarrow> (config_error, sweep_params) result" where
  "check_sweep s =
     (if stop_hz s \<le> start_hz s then Inl SweepRange
      else if fft_size s < 64 \<or> fft_size s AND (fft_size s - 1) \<noteq> 0 then Inl BadFftSize
      else let s = (if dwell_samples s < fft_size s then s\<lparr>dwell_samples := fft_size s\<rparr> else s)
      in if usable_bw_fraction s \<le> 0 \<or> 1 < usable_bw_fraction s then Inl BadUsableFraction
      else if cfar_guard_bins s < 0 then Inl BadGuardBins
      else if cfar_ref_bins s < 1 then Inl BadRefBins
      else if noise_floor_alpha s \<le> 0 \<or> 1 < noise_floor_alpha s then Inl BadAlpha
      else Inr s)"

definition parse_receiver :: "'e xml_api \<Rightarrow> 'e \<Rightarrow> receiver_config \<Rightarrow> receiver_config" where
  "parse_receiver x rt r = (case xml_child x rt ''receiver'' of None \<Rightarrow> r
     | Some el \<Rightarrow> r\<lparr>
        local_ip := text_or_default x (xml_child x el ''local_ip'') (local_ip r),
        rx_port := query_field (xml_int x) (xml_child x el ''port'') (rx_port r)\<rparr>)"

definition from_file :: "'e xml_api \<Rightarrow> string \<Rightarrow> (config_error, sweep_config) result" where
  "from_file x path = (case xml_load x path of Inl err \<Rightarrow> Inl (CannotOpen path err)
     | Inr doc \<Rightarrow> (case xml_child x doc ''sdr_acquisition'' of None \<Rightarrow> Inl NoRootElement
     | Some rt \<Rightarrow>
        (let cfg = parse_general x rt default_config
         in bind_result (parse_bands x rt) (\<lambda>pending_bands.
         (let cfg = cfg\<lparr>threat := parse_threat x rt (threat cfg)\<rparr>
          in bind_result (parse_p25 x rt (p25 cfg)) (\<lambda>pc.
         (let cfg = cfg\<lparr>p25 := pc, amqp := parse_amqp x rt (amqp cfg),
                db := parse_database x rt (db cfg)\<rparr>
          in bind_result (need x rt ''device'') (\<lambda>dev.
         (let cfg = cfg\<lparr>device := parse_device x dev (device cfg)\<rparr>
          in bind_result (need x rt ''sweep'') (\<lambda>sw.
             bind_result (check_sweep (parse_sweep x sw (sweep cfg))) (\<lambda>sp.
             Inr (cfg\<lparr>sweep := sp, bands := pending_bands,
                  receiver := parse_receiver x rt (receiver cfg)\<rparr>))))))))))))"

subsection \<open>The power-of-two test\<close>

text \<open>\<open>n & (n - 1)\<close> clears the lowest set bit: it is zero exactly on powers of two.\<close>

lemma and_pred_even: "(2 * m) AND (2 * m - 1) = 2 * (m AND (m - 1))" for m :: int
proof -
  have "even (2 * m)" "odd (2 * m - 1)" "(2 * m - 1) div 2 = m - 1" by simp_all
  then show ?thesis
    by (subst and_int_rec) simp
qed

lemma and_pred_odd: "(2 * m + 1) AND (2 * m) = 2 * m" for m :: int
  by (subst and_int_rec) simp

lemma pow2_test: "0 < n \<Longrightarrow> n AND (n - 1) = 0 \<longleftrightarrow> (\<exists>k. n = 2 ^ k)" for n :: int
proof (induction "nat n" arbitrary: n rule: less_induct)
  case less
  show ?case
  proof (cases "even n")
    case True
    then obtain m where m: "n = 2 * m" by blast
    then have "0 < m" and "nat m < nat n" using less.prems by auto
    then have "m AND (m - 1) = 0 \<longleftrightarrow> (\<exists>k. m = 2 ^ k)" using less.hyps by blast
    moreover have "(\<exists>k. n = 2 ^ k) \<longleftrightarrow> (\<exists>k. m = 2 ^ k)"
    proof
      assume "\<exists>k. n = 2 ^ k"
      then obtain k where k: "n = 2 ^ k" by blast
      then have "k \<noteq> 0" using m by (metis even_mult_iff even_numeral odd_one power_0)
      then obtain j where "k = Suc j" by (cases k) auto
      then show "\<exists>k. m = 2 ^ k" using k m by auto
    next
      assume "\<exists>k. m = 2 ^ k"
      then show "\<exists>k. n = 2 ^ k" using m by (metis power_Suc)
    qed
    ultimately show ?thesis using m by (simp add: and_pred_even)
  next
    case False
    then obtain m where m: "n = 2 * m + 1" by (elim oddE)
    then have "0 \<le> m" using less.prems by linarith
    have "(\<exists>k. n = 2 ^ k) \<longleftrightarrow> m = 0"
    proof
      assume "\<exists>k. n = 2 ^ k"
      then obtain k where "n = 2 ^ k" by blast
      with False have "k = 0" by (cases k) auto
      then show "m = 0" using m \<open>n = 2 ^ k\<close> by simp
    next
      assume "m = 0"
      then show "\<exists>k. n = 2 ^ k" using m by (intro exI [of _ 0]) simp
    qed
    then show ?thesis using m by (simp add: and_pred_odd)
  qed
qed

subsection \<open>What a loaded configuration satisfies\<close>

definition valid_sweep :: "sweep_params \<Rightarrow> bool" where
  "valid_sweep s \<longleftrightarrow> start_hz s < stop_hz s \<and> 64 \<le> fft_size s \<and> (\<exists>k. fft_size s = 2 ^ k) \<and>
     fft_size s \<le> dwell_samples s \<and> 0 < usable_bw_fraction s \<and> usable_bw_fraction s \<le> 1 \<and>
     0 \<le> cfar_guard_bins s \<and> 1 \<le> cfar_ref_bins s \<and>
     0 < noise_floor_alpha s \<and> noise_floor_alpha s \<le> 1"

definition valid_config :: "sweep_config \<Rightarrow> bool" where
  "valid_config c \<longleftrightarrow> valid_sweep (sweep c) \<and> 1 \<le> rx_channels (device c) \<and>
     (\<forall>b \<in> set (bands c). band_start_hz b < band_stop_hz b)"

lemma check_sweep_valid: "check_sweep s = Inr s' \<Longrightarrow> valid_sweep s'"
  by (auto simp: check_sweep_def valid_sweep_def Let_def pow2_test split: if_splits)

lemma check_sweep_accepts:
  "valid_sweep s \<Longrightarrow> check_sweep s = Inr s"
  using pow2_test [of "fft_size s"] by (auto simp: check_sweep_def valid_sweep_def Let_def)

lemma parse_band_range: "parse_band x b = Inr bc \<Longrightarrow> band_start_hz bc < band_stop_hz bc"
  by (auto simp: parse_band_def Let_def split: if_splits)

lemma parse_band_list_range:
  "parse_band_list x bs = Inr r \<Longrightarrow> b \<in> set r \<Longrightarrow> band_start_hz b < band_stop_hz b"
  by (induction bs arbitrary: r) (auto simp: bind_result_Inr dest: parse_band_range)

lemma parse_bands_range:
  "parse_bands x e = Inr r \<Longrightarrow> b \<in> set r \<Longrightarrow> band_start_hz b < band_stop_hz b"
  by (auto simp: parse_bands_def split: option.splits intro: parse_band_list_range)

lemma parse_device_channels: "1 \<le> rx_channels (parse_device x e d)"
  by (simp add: parse_device_def Let_def)

lemma from_file_InrD:
  assumes "from_file x path = Inr c"
  obtains doc rt dev sw where
    "xml_load x path = Inr doc" "xml_child x doc ''sdr_acquisition'' = Some rt"
    "xml_child x rt ''device'' = Some dev" "xml_child x rt ''sweep'' = Some sw"
    "parse_bands x rt = Inr (bands c)"
    "check_sweep (parse_sweep x sw default_sweep) = Inr (sweep c)"
    "device c = parse_device x dev default_device"
    "receiver c = parse_receiver x rt default_receiver"
    "amqp c = parse_amqp x rt default_amqp" "db c = parse_database x rt default_db"
    "threat c = parse_threat x rt default_threat" "parse_p25 x rt default_p25 = Inr (p25 c)"
  using assms
  by (auto simp: from_file_def Let_def bind_result_Inr need_def parse_general_def default_config_def
      split: sum.splits option.splits)

lemma from_file_valid_config: "from_file x path = Inr c \<Longrightarrow> valid_config c"
  by (erule from_file_InrD)
    (auto simp: valid_config_def check_sweep_valid parse_device_channels dest: parse_bands_range)

subsection \<open>Splitting bands over devices\<close>

definition band_slice :: "band_config \<Rightarrow> int \<Rightarrow> int \<Rightarrow> band_config" where
  "band_slice b pieces j =
     (let lo = band_start_hz b; hi = band_stop_hz b; step = f64 (f64 (hi - lo) / of_int pieces)
      in \<lparr>device_id = device_id b, device_required = device_required b,
          band_start_hz = f64 (lo + f64 (of_int j * step)),
          band_stop_hz = f64 (lo + f64 (of_int (j + 1) * step))\<rparr>)"

definition band_slices :: "band_config \<Rightarrow> int \<Rightarrow> band_config list" where
  "band_slices b pieces = map (band_slice b pieces) [0..pieces - 1]"

text \<open>The loop over the bands, with its counter; an empty list would divide by zero (None).\<close>

fun split_loop :: "int \<Rightarrow> int \<Rightarrow> int \<Rightarrow> band_config list \<Rightarrow> band_config list list" where
  "split_loop base remainder i [] = []"
| "split_loop base remainder i (b # bs) =
     band_slices b (base + (if i < remainder then 1 else 0)) # split_loop base remainder (i + 1) bs"

definition split_bands :: "band_config list \<Rightarrow> int \<Rightarrow> band_config list option" where
  "split_bands bs n_devices =
     (if n_devices \<le> int (length bs) then Some bs
      else let nb = int (length bs) in
        if nb = 0 then None
        else Some (concat (split_loop (n_devices div nb) (n_devices mod nb) 0 bs)))"

lemma length_band_slices: "length (band_slices b pieces) = nat pieces"
  by (simp add: band_slices_def)

lemma length_split_loop [simp]: "length (split_loop base r i bs) = length bs"
  by (induction bs arbitrary: i) auto

lemma nth_split_loop:
  "k < length bs \<Longrightarrow>
   split_loop base r i bs ! k = band_slices (bs ! k) (base + (if i + int k < r then 1 else 0))"
  by (induction bs arbitrary: i k) (auto simp: nth_Cons algebra_simps split: nat.splits)

lemma pieces_sum:
  assumes "0 \<le> base" and "0 \<le> i"
  shows "int (length (concat (split_loop base r i bs))) =
    int (length bs) * base + max 0 (min (r - i) (int (length bs)))"
  using assms
proof (induction bs arbitrary: i)
  case (Cons b bs)
  then show ?case
    by (auto simp: length_band_slices algebra_simps max_def min_def)
qed simp

lemma split_bands_length_eq:
  assumes "bs \<noteq> []" and "int (length bs) < n"
  shows "\<exists>out. split_bands bs n = Some out \<and> int (length out) = n"
proof -
  let ?nb = "int (length bs)"
  have nb: "0 < ?nb" using assms(1) by simp
  then have r: "0 \<le> n mod ?nb" "n mod ?nb < ?nb" by simp_all
  have "0 \<le> n div ?nb" using assms nb by (simp add: pos_imp_zdiv_nonneg_iff)
  then have "int (length (concat (split_loop (n div ?nb) (n mod ?nb) 0 bs))) =
    ?nb * (n div ?nb) + n mod ?nb"
    using pieces_sum [of "n div ?nb" 0 "n mod ?nb" bs] r by simp
  also have "\<dots> = n" by simp
  finally show ?thesis using assms nb by (simp add: split_bands_def Let_def)
qed

text \<open>
  What tiling a band means: the slices start where the band starts, each begins exactly where the
  one before ends (the two are the same floating-point expression), they inherit the device, and
  the last one ends within a hertz of the band's end.
\<close>

definition tiles :: "band_config \<Rightarrow> band_config list \<Rightarrow> bool" where
  "tiles b g \<longleftrightarrow> g \<noteq> [] \<and> band_start_hz (hd g) = band_start_hz b \<and>
     \<bar>band_stop_hz (last g) - band_stop_hz b\<bar> \<le> 1 \<and>
     (\<forall>j. Suc j < length g \<longrightarrow> band_stop_hz (g ! j) = band_start_hz (g ! Suc j)) \<and>
     (\<forall>s \<in> set g. band_start_hz s \<le> band_stop_hz s \<and>
        device_id s = device_id b \<and> device_required s = device_required b)"

definition plannable :: "band_config \<Rightarrow> bool" where
  "plannable b \<longleftrightarrow> f64 (band_start_hz b) = band_start_hz b \<and> 0 \<le> band_start_hz b \<and>
     band_start_hz b \<le> band_stop_hz b \<and> band_stop_hz b \<le> 2 ^ 43"

lemma f64_error_bounded:
  assumes "0 \<le> x" and "x \<le> 2 ^ 44"
  shows "\<bar>f64 x - x\<bar> \<le> 1 / 256"
proof -
  have "x / 2 ^ 53 \<le> 2 ^ 44 / 2 ^ 53" using assms by (intro divide_right_mono) auto
  moreover have "(2::real) ^ 44 / 2 ^ 53 + 1 / 2 ^ 1000 \<le> 1 / 256" by simp
  ultimately show ?thesis using f64_error [of x] assms(1) by linarith
qed

lemma last_slice_stop:
  assumes "plannable b" and "0 < pieces" and "pieces < 2 ^ 31"
  shows "\<bar>band_stop_hz (band_slice b pieces (pieces - 1)) - band_stop_hz b\<bar> \<le> 1"
proof -
  define lo hi p where "lo = band_start_hz b" and "hi = band_stop_hz b" and "p = real_of_int pieces"
  define w step t where "w = f64 (hi - lo)" and "step = f64 (w / p)" and "t = p * step"
  have b: "0 \<le> lo" "lo \<le> hi" "hi \<le> 2 ^ 43"
    using assms(1) by (auto simp: plannable_def lo_def hi_def)
  have p: "1 \<le> p" "p \<le> 2 ^ 31" using assms(2,3) by (auto simp: p_def)
  have w: "\<bar>w - (hi - lo)\<bar> \<le> 1 / 256"
    unfolding w_def using b by (intro f64_error_bounded) auto
  have w0: "0 \<le> w" unfolding w_def using b by (intro r64.fl_nonneg) simp
  have w1: "w \<le> 2 ^ 43 + 1" using w b by linarith
  have s0: "0 \<le> step" unfolding step_def using w0 p by (intro r64.fl_nonneg) simp
  have e: "\<bar>step - w / p\<bar> \<le> (w / p) / 2 ^ 53 + 1 / 2 ^ 1000"
    using f64_error [of "w / p"] w0 p by (simp add: step_def)
  have "t - w = p * (step - w / p)" using p by (simp add: t_def right_diff_distrib)
  then have "\<bar>t - w\<bar> = p * \<bar>step - w / p\<bar>" using p by (simp add: abs_mult)
  also have "\<dots> \<le> p * ((w / p) / 2 ^ 53 + 1 / 2 ^ 1000)"
    using e p by (intro mult_left_mono) auto
  also have "\<dots> = w / 2 ^ 53 + p / 2 ^ 1000" using p by (simp add: distrib_left)
  also have "\<dots> \<le> (2 ^ 43 + 1) / 2 ^ 53 + 2 ^ 31 / 2 ^ 1000"
    using w1 p by (intro add_mono divide_right_mono) auto
  also have "\<dots> \<le> 1 / 256" by simp
  finally have t: "\<bar>t - w\<bar> \<le> 1 / 256" .
  have t0: "0 \<le> t" using s0 p by (simp add: t_def)
  have t1: "t \<le> 2 ^ 43 + 2" using t w1 by linarith
  then have t2: "t \<le> 2 ^ 44" by simp
  have ft: "\<bar>f64 t - t\<bar> \<le> 1 / 256" using t0 t2 by (rule f64_error_bounded)
  have "0 \<le> f64 t" using t0 by (intro r64.fl_nonneg)
  then have "0 \<le> lo + f64 t" using b by simp
  moreover have "lo + f64 t \<le> 2 ^ 43 + 1" using b w t ft by linarith
  then have "lo + f64 t \<le> 2 ^ 44" by simp
  ultimately have fs: "\<bar>f64 (lo + f64 t) - (lo + f64 t)\<bar> \<le> 1 / 256" by (rule f64_error_bounded)
  have "band_stop_hz (band_slice b pieces (pieces - 1)) = f64 (lo + f64 t)"
    by (simp add: band_slice_def Let_def lo_def hi_def w_def step_def p_def t_def)
  moreover have "\<bar>f64 (lo + f64 t) - hi\<bar> \<le> 1"
    using w t ft fs unfolding abs_le_iff by linarith
  ultimately show ?thesis by (simp add: hi_def)
qed

lemma band_slices_tile:
  assumes b: "plannable b" and p: "0 < pieces" "pieces < 2 ^ 31"
  shows "tiles b (band_slices b pieces)"
proof -
  define g where "g = band_slices b pieces"
  have len: "length g = nat pieces" by (simp add: g_def length_band_slices)
  have nth: "g ! j = band_slice b pieces (int j)" if "j < nat pieces" for j
    using that by (simp add: g_def band_slices_def)
  have "g \<noteq> []" using len p by auto
  then have hd: "hd g = band_slice b pieces 0" and last: "last g = band_slice b pieces (pieces - 1)"
    using nth [of 0] nth [of "nat pieces - 1"] len p by (simp_all add: hd_conv_nth last_conv_nth)
  have start: "band_start_hz (hd g) = band_start_hz b"
    using b by (simp add: hd band_slice_def Let_def plannable_def)
  have ordered: "band_start_hz (band_slice b pieces j) \<le> band_stop_hz (band_slice b pieces j)" for j
  proof -
    have "0 \<le> f64 (f64 (band_stop_hz b - band_start_hz b) / of_int pieces)"
      using b p by (intro r64.fl_nonneg divide_nonneg_pos) (auto simp: plannable_def)
    then show ?thesis
      by (auto simp: band_slice_def Let_def intro!: r64.fl_mono add_left_mono mult_right_mono)
  qed
  have "band_stop_hz (g ! j) = band_start_hz (g ! Suc j)" if "Suc j < length g" for j
    using that nth len by (simp add: band_slice_def Let_def add.commute)
  moreover have "band_start_hz s \<le> band_stop_hz s \<and> device_id s = device_id b \<and>
      device_required s = device_required b" if "s \<in> set g" for s
    using that ordered by (auto simp: g_def band_slices_def) (auto simp: band_slice_def Let_def)
  ultimately show ?thesis
    using \<open>g \<noteq> []\<close> start last_slice_stop [OF b p] by (simp add: tiles_def last flip: g_def)
qed

lemma split_loop_tiles:
  assumes "\<forall>b \<in> set bs. plannable b" and "1 \<le> base" "base + 1 < 2 ^ 31" and "k < length bs"
  shows "tiles (bs ! k) (split_loop base r i bs ! k)"
  using assms by (auto simp: nth_split_loop intro!: band_slices_tile)

lemma split_bands_groups:
  assumes "bs \<noteq> []" and "int (length bs) < n" and "n + 1 < 2 ^ 31" and "\<forall>b \<in> set bs. plannable b"
  shows "\<exists>groups. split_bands bs n = Some (concat groups) \<and> length groups = length bs \<and>
     (\<forall>k < length bs. tiles (bs ! k) (groups ! k) \<and>
        int (length (groups ! k)) = n div int (length bs) + (if int k < n mod int (length bs) then 1 else 0))"
proof -
  let ?nb = "int (length bs)" and ?base = "n div int (length bs)"
  have nb: "0 < ?nb" using assms(1) by simp
  have base: "1 \<le> ?base" "?base + 1 < 2 ^ 31"
  proof -
    show "1 \<le> ?base" using zdiv_mono1 [of ?nb n ?nb] nb assms(2) by simp
    have "n div ?nb \<le> n div 1" using nb assms(2) by (intro zdiv_mono2) linarith+
    then show "?base + 1 < 2 ^ 31" using assms(3) by simp
  qed
  have len: "int (length (split_loop ?base (n mod ?nb) 0 bs ! k)) =
      ?base + (if int k < n mod ?nb then 1 else 0)" if "k < length bs" for k
    using that base(1) by (simp add: nth_split_loop length_band_slices)
  show ?thesis
    using assms(2) nb len split_loop_tiles [OF assms(4) base]
    by (intro exI [of _ "split_loop ?base (n mod ?nb) 0 bs"]) (auto simp: split_bands_def Let_def)
qed

subsection \<open>Properties of the configuration\<close>


text \<open>A configuration file of one attribute-free tree, as the accessors see it.\<close>

datatype sample_element = Doc | Elem string

definition sample_xml :: "sample_element xml_api" where
  "sample_xml = \<lparr>xml_load = (\<lambda>path. if path = ''scanner.xml'' then Inr Doc else Inl ''not found''),
     xml_child = (\<lambda>e name. case e of
        Doc \<Rightarrow> if name = ''sdr_acquisition'' then Some (Elem name) else None
      | Elem n \<Rightarrow> if n = ''sdr_acquisition'' \<and> (name = ''device'' \<or> name = ''sweep'') then Some (Elem name)
          else if n = ''sweep'' \<and> name = ''fft_size'' then Some (Elem name) else None),
     xml_children = (\<lambda>e name. []), xml_text = (\<lambda>e. None),
     xml_int = (\<lambda>e. if e = Elem ''fft_size'' then Some 8192 else None),
     xml_u64 = (\<lambda>e. None), xml_double = (\<lambda>e. None), xml_float = (\<lambda>e. None)\<rparr>"

lemma sample_xml_loads: "\<exists>c. from_file sample_xml ''scanner.xml'' = Inr c \<and> fft_size (sweep c) = 8192 \<and>
    dwell_samples (sweep c) = 8192"
  by (simp add: from_file_def sample_xml_def Let_def need_def parse_general_def parse_bands_def
      parse_threat_def parse_p25_def parse_amqp_def parse_database_def parse_device_def parse_sweep_def
      check_sweep_def parse_receiver_def default_config_def default_sweep_def default_device_def
      query_field_def hz_field_def raw_double_field_def text_or_default_def round_eval)


text \<open>C23. With more devices than bands, \<open>splitBands\<close> gives as many slices as devices: every band
  becomes a group of consecutive slices that starts where the band starts, has no gap or overlap at
  its inner borders, ends within a hertz of the band's end and inherits the device; the group sizes
  are even, the remainder going to the first bands.\<close>

theorem split_bands_tiles:
  assumes "bs \<noteq> []" and "int (length bs) < n" and "n + 1 < 2 ^ 31" and "\<forall>b \<in> set bs. plannable b"
  shows "\<exists>groups. split_bands bs n = Some (concat groups) \<and> int (length (concat groups)) = n \<and>
     length groups = length bs \<and>
     (\<forall>k < length bs. tiles (bs ! k) (groups ! k) \<and>
        int (length (groups ! k)) = n div int (length bs) + (if int k < n mod int (length bs) then 1 else 0))"
  using split_bands_groups [OF assms] split_bands_length_eq [OF assms(1,2)] by auto

definition two_bands :: "band_config list" where
  "two_bands = [default_band\<lparr>band_start_hz := 70000000, band_stop_hz := 1100000000\<rparr>,
     default_band\<lparr>device_id := ''pluto-1'', band_start_hz := 1100000000, band_stop_hz := 6000000000\<rparr>]"

theorem split_bands_tiles_witness:
  "\<exists>groups. split_bands two_bands 5 = Some (concat groups) \<and> length groups = 2 \<and>
     tiles (two_bands ! 0) (groups ! 0) \<and> length (groups ! 0) = 3 \<and>
     tiles (two_bands ! 1) (groups ! 1) \<and> length (groups ! 1) = 2"
proof -
  have len: "length two_bands = 2" by (simp add: two_bands_def)
  obtain groups where "split_bands two_bands 5 = Some (concat groups)" "length groups = length two_bands"
    and each: "\<forall>k < length two_bands. tiles (two_bands ! k) (groups ! k) \<and>
        int (length (groups ! k)) = 5 div int (length two_bands) +
          (if int k < 5 mod int (length two_bands) then 1 else 0)"
    using split_bands_tiles [of two_bands 5]
    by (auto simp: two_bands_def plannable_def default_band_def float_simps)
  moreover have "int (length (groups ! 0)) = 3" "int (length (groups ! 1)) = 2"
    using each [rule_format, of 0] each [rule_format, of 1] by (simp_all add: len)
  then have "length (groups ! 0) = 3" "length (groups ! 1) = 2" by linarith+
  ultimately show ?thesis
    using each len by (intro exI [of _ groups]) simp
qed

end
