(* ===== verification/Types.thy ===== *)
theory Types
  imports Config
begin

section \<open>Detections and dwells (\<open>Types.hpp\<close>, \<open>IqSource.hpp\<close>)\<close>

text \<open>
  The values the components exchange. A \<open>time_point\<close> is an integer in the clock's ticks, a
  \<open>shared_ptr\<close> to a constant vector is the optional vector (nothing writes through it), a quantity
  in hertz is the real number of hertz.
\<close>

type_synonym sample = "real \<times> real"
type_synonym timestamp = int

record dwell =
  dwell_center_hz :: real
  ch_samples :: "sample list list"

record detection =
  det_timestamp :: timestamp
  center_freq_hz :: real
  det_bandwidth_hz :: real
  power_db :: real
  det_scanner_id :: string
  channel :: int
  snr_db :: real
  iq_snapshot :: "real list option"
  snapshot_sample_rate_sps :: real
  lat :: "real option"
  lon :: "real option"
  alt_m :: "real option"

text \<open>\<open>duration_cast<milliseconds>\<close> of a time point: the clock ticks in nanoseconds, and the cast
  truncates towards zero.\<close>

definition to_ms :: "timestamp \<Rightarrow> int" where
  "to_ms t = sgn t * (\<bar>t\<bar> div 1000000)"

definition schema_version :: string where
  "schema_version = ''1.2''"

definition default_detection :: detection where
  "default_detection = \<lparr>det_timestamp = 0, center_freq_hz = 0, det_bandwidth_hz = 0, power_db = 0,
     det_scanner_id = [], channel = 0, snr_db = 0, iq_snapshot = None, snapshot_sample_rate_sps = 0,
     lat = None, lon = None, alt_m = None\<rparr>"

definition default_dwell :: dwell where
  "default_dwell = \<lparr>dwell_center_hz = 0, ch_samples = []\<rparr>"

end
