(* ===== verification/Fft.thy ===== *)
theory Fft
  imports Types
begin

section \<open>Spectrum and CA-CFAR detection (\<open>FftProcessor.hpp\<close>, \<open>FftProcessor.cpp\<close>)\<close>

text \<open>
  The detector of one dwell: Welch averaging (\<open>computeSpectrum\<close>), the noise estimate, the CFAR
  run detector (\<open>detectFromSpectrum\<close>) and the bin-to-frequency conversion, every operation of
  \<open>float\<close> and \<open>double\<close> rounded as the source has it. FFTW is a parameter \<open>fft\<close>, the transform
  that the plan computes on the list of complex inputs. None is undefined behaviour: a product or
  a conversion that does not fit \<open>int\<close>. The FFTW buffers, the plan and the prefix-sum buffer
  \<open>psum_\<close> carry nothing from one call to the next and are not part of the state;
  \<open>std::sort\<close> is taken stable and \<open>std::nth_element\<close> to leave its range sorted, one of the
  outcomes the standard allows (no result here depends on the choice beyond the order of signals
  of equal power).
\<close>

record fft_processor =
  fp_size :: int
  fp_guard :: int
  fp_ref :: int
  fp_window :: "real list"
  fp_acc :: "real list"
  fp_power :: "real list"
  fp_scratch :: "real list"

datatype fft_error = InvalidFftSize

definition bin_at :: "real list \<Rightarrow> int \<Rightarrow> real" where
  "bin_at xs k = xs ! nat k"

subsection \<open>Standard-library functions\<close>

definition m_pi :: real where
  "m_pi = f64 pi"

definition std_cos :: "real \<Rightarrow> real" where
  "std_cos x = f64 (cos x)"

definition std_log10f :: "real \<Rightarrow> real" where
  "std_log10f x = f32 (log 10 x)"

subsection \<open>Construction\<close>

definition window_coeff :: "int \<Rightarrow> int \<Rightarrow> real" where
  "window_coeff n i =
     (let x = f64 (f64 (f64 (2 * m_pi) * of_int i) / of_int (n - 1))
      in f32 (f32 (f32 (f32 (35875 / 100000)
             - f32 (f32 (48829 / 100000) * f32 (std_cos x)))
             + f32 (f32 (14128 / 100000) * f32 (std_cos (f64 (2 * x)))))
             - f32 (f32 (1168 / 100000) * f32 (std_cos (f64 (3 * x))))))"

definition new_processor :: "int \<Rightarrow> int \<Rightarrow> int \<Rightarrow> (fft_error, fft_processor) result" where
  "new_processor n cfar_guard cfar_ref =
     (if n < 64 \<or> n AND (n - 1) \<noteq> 0 then Inl InvalidFftSize
      else Inr \<lparr>fp_size = n, fp_guard = cfar_guard, fp_ref = cfar_ref,
             fp_window = map (window_coeff n) [0..n - 1],
             fp_acc = replicate (nat n) 0, fp_power = replicate (nat n) 0,
             fp_scratch = replicate (nat n) 0\<rparr>)"

subsection \<open>One frame\<close>

definition int_mul :: "int \<Rightarrow> int \<Rightarrow> int option" where
  "int_mul a b = (if - (2 ^ 31) \<le> a * b \<and> a * b < 2 ^ 31 then Some (a * b) else None)"

definition mean32 :: "int \<Rightarrow> real list \<Rightarrow> real" where
  "mean32 n xs = f32 (foldl (\<lambda>s x. f32 (s + x)) 0 xs / f32 (of_int n))"

definition windowed :: "int \<Rightarrow> real list \<Rightarrow> sample list \<Rightarrow> sample list" where
  "windowed n w src =
     (let mean_re = mean32 n (map fst src); mean_im = mean32 n (map snd src)
      in map2 (\<lambda>z wi. (f32 (f32 (fst z - mean_re) * wi), f32 (f32 (snd z - mean_im) * wi))) src w)"

definition power_of :: "real \<Rightarrow> sample \<Rightarrow> real" where
  "power_of nrm z = f32 (f32 (f32 (fst z * fst z) + f32 (snd z * snd z)) * nrm)"

definition shift_index :: "int \<Rightarrow> nat \<Rightarrow> nat" where
  "shift_index n k = (let half = nat (n div 2) in if k < half then k + half else k - half)"

definition accum_frame ::
  "(sample list \<Rightarrow> sample list) \<Rightarrow> fft_processor \<Rightarrow> sample list \<Rightarrow> fft_processor option" where
  "accum_frame fft p src =
     (let n = fp_size p; out = fft (windowed n (fp_window p) src)
      in case int_mul n n of None \<Rightarrow> None
       | Some nn \<Rightarrow>
          (let nrm = f32 (1 / f32 (of_int nn))
           in Some (p\<lparr>fp_acc := map (\<lambda>k. f32 (fp_acc p ! k + power_of nrm (out ! shift_index n k)))
                                 [0..<nat n]\<rparr>)))"

subsection \<open>Welch averaging\<close>

definition n_frames :: "int \<Rightarrow> int \<Rightarrow> int" where
  "n_frames n n_samples = (n_samples - n) div (n div 2) + 1"

definition frame :: "int \<Rightarrow> sample list \<Rightarrow> int \<Rightarrow> sample list" where
  "frame n samples f = take (nat n) (drop (nat (f * (n div 2))) samples)"

fun accum_frames ::
  "(sample list \<Rightarrow> sample list) \<Rightarrow> fft_processor \<Rightarrow> sample list list \<Rightarrow> fft_processor option" where
  "accum_frames fft p [] = Some p"
| "accum_frames fft p (s # ss) =
     (case accum_frame fft p s of None \<Rightarrow> None | Some p' \<Rightarrow> accum_frames fft p' ss)"

definition to_dbfs :: "real \<Rightarrow> real \<Rightarrow> real" where
  "to_dbfs inv_n a = f32 (10 * std_log10f (f32 (f32 (a * inv_n) + f32 (1 / 10 ^ 30))))"

definition compute_spectrum ::
  "(sample list \<Rightarrow> sample list) \<Rightarrow> fft_processor \<Rightarrow> sample list \<Rightarrow> fft_processor option" where
  "compute_spectrum fft p samples =
     (let n = fp_size p; n_samples = int (length samples)
      in if n_samples < n then Some p
         else let nf = n_frames n n_samples
         in case accum_frames fft (p\<lparr>fp_acc := replicate (nat n) 0\<rparr>)
                   (map (frame n samples) [0..nf - 1]) of
              None \<Rightarrow> None
            | Some q \<Rightarrow> Some (q\<lparr>fp_power := map (to_dbfs (f32 (1 / f32 (of_int nf)))) (fp_acc q)\<rparr>))"

subsection \<open>Noise floor by median\<close>

definition estimate_noise :: "fft_processor \<Rightarrow> int \<Rightarrow> int \<Rightarrow> real \<times> fft_processor" where
  "estimate_noise p start_bin end_bin =
     (let n = end_bin - start_bin + 1;
          seg = take (nat n) (drop (nat start_bin) (fp_power p));
          scratch = sort seg @ drop (length seg) (fp_scratch p)
      in (bin_at scratch (n div 2), p\<lparr>fp_scratch := scratch\<rparr>))"

subsection \<open>CA-CFAR\<close>

fun psums :: "real \<Rightarrow> real list \<Rightarrow> real list" where
  "psums acc [] = [acc]"
| "psums acc (x # xs) = acc # psums (f32 (acc + x)) xs"

definition ref_mean :: "real list \<Rightarrow> int \<Rightarrow> int \<Rightarrow> int \<Rightarrow> real option" where
  "ref_mean ps n a b =
     (let a = max a 0; b = min b (n - 1)
      in if b < a then None
         else Some (f32 (f32 (bin_at ps (b + 1) - bin_at ps a) / f32 (of_int (b - a + 1)))))"

definition local_noise :: "real list \<Rightarrow> int \<Rightarrow> int \<Rightarrow> int \<Rightarrow> real \<Rightarrow> int \<Rightarrow> real" where
  "local_noise ps n g r global_noise i =
     (case (ref_mean ps n (i - g - r) (i - g - 1), ref_mean ps n (i + g + 1) (i + g + r)) of
        (None, None) \<Rightarrow> global_noise
      | (None, Some right) \<Rightarrow> right
      | (Some left, None) \<Rightarrow> left
      | (Some left, Some right) \<Rightarrow> f32 (f32 (left + right) * (1/2)))"

definition with_hist :: "real list option \<Rightarrow> int \<Rightarrow> real \<Rightarrow> real" where
  "with_hist hist_floor k noise = (case hist_floor of None \<Rightarrow> noise
     | Some h \<Rightarrow> if k < int (length h) then max noise (bin_at h k) else noise)"

record signal =
  start_bin :: int
  end_bin :: int
  peak_db :: real
  mean_db :: real
  center_bin :: real

text \<open>The parameters of one detection pass that stay fixed during the scan of the bins.\<close>

record scan_params =
  sp_start :: int
  sp_end :: int
  sp_min_bins :: int
  sp_papr :: real
  sp_power :: "real list"
  sp_above :: "int \<Rightarrow> bool"

record run_state =
  run_start :: int
  peak_bin_abs :: int
  run_peak :: real
  run_sum :: real
  run_count :: int
  signals :: "signal list"

definition no_peak :: real where
  "no_peak = f32 (- (10 ^ 30))"

definition reset_run :: "run_state \<Rightarrow> run_state" where
  "reset_run s = s\<lparr>run_start := - 1, peak_bin_abs := - 1, run_peak := no_peak, run_sum := 0,
     run_count := 0\<rparr>"

definition init_run :: run_state where
  "init_run = \<lparr>run_start = - 1, peak_bin_abs = - 1, run_peak = no_peak, run_sum = 0, run_count = 0,
     signals = []\<rparr>"

definition interpolate :: "scan_params \<Rightarrow> int \<Rightarrow> real" where
  "interpolate c peak_bin =
     (if sp_start c < peak_bin \<and> peak_bin < sp_end c then
        let y0 = bin_at (sp_power c) (peak_bin - 1); y1 = bin_at (sp_power c) peak_bin;
            y2 = bin_at (sp_power c) (peak_bin + 1);
            denom = f32 (2 * f32 (f32 (f32 (2 * y1) - y0) - y2))
        in if f32 (1 / 10 ^ 6) < \<bar>denom\<bar>
           then f32 (f32 (of_int peak_bin) + f32 (f32 (y2 - y0) / denom))
           else f32 (of_int peak_bin)
      else f32 (of_int peak_bin))"

definition flush_run :: "scan_params \<Rightarrow> run_state \<Rightarrow> int \<Rightarrow> run_state" where
  "flush_run c s run_end_abs =
     (if run_start s < 0 then s
      else let width = run_end_abs - run_start s + 1;
             s' = (if sp_min_bins c \<le> width then
                     let mean = f32 (run_sum s / f32 (of_int (run_count s)))
                     in if width < 2 \<or> sp_papr c \<le> f32 (run_peak s - mean)
                        then s\<lparr>signals := signals s @
                          [\<lparr>start_bin = run_start s, end_bin = run_end_abs, peak_db = run_peak s,
                            mean_db = mean, center_bin = interpolate c (peak_bin_abs s)\<rparr>]\<rparr>
                        else s
                   else s)
      in reset_run s')"

definition scan_bin :: "scan_params \<Rightarrow> run_state \<Rightarrow> int \<Rightarrow> run_state" where
  "scan_bin c s k =
     (if sp_above c k then
        let s1 = (if run_start s < 0 then s\<lparr>run_start := k\<rparr> else s);
            s2 = (if run_peak s1 < bin_at (sp_power c) k
                  then s1\<lparr>run_peak := bin_at (sp_power c) k, peak_bin_abs := k\<rparr> else s1)
        in s2\<lparr>run_sum := f32 (run_sum s2 + bin_at (sp_power c) k), run_count := run_count s2 + 1\<rparr>
      else flush_run c s (k - 1))"

definition scan_bins :: "scan_params \<Rightarrow> run_state" where
  "scan_bins c =
     flush_run c (foldl (scan_bin c) init_run [sp_start c..sp_end c]) (sp_end c)"

subsection \<open>The detection pass\<close>

record detect_args =
  da_threshold :: real
  da_usable :: real
  da_rate :: real
  da_min_bw :: real
  da_dc_guard :: real
  da_papr :: real
  da_hist :: "real list option"

text \<open>\<open>std::max(1, (int)std::ceil(hz / bin_hz))\<close>, undefined when the quotient is.\<close>

definition bins_for :: "real \<Rightarrow> real \<Rightarrow> int option" where
  "bins_for hz bin_hz = (if bin_hz = 0 then None
     else map_option (max 1) (int_cast (of_int \<lceil>f64 (hz / bin_hz)\<rceil>)))"

definition margin_bins :: "int \<Rightarrow> real \<Rightarrow> int option" where
  "margin_bins n usable = int_cast (f64 (f64 (of_int n * f64 (1 - usable)) / 2))"

definition blank_dc :: "real list \<Rightarrow> int \<Rightarrow> int \<Rightarrow> real \<Rightarrow> real list" where
  "blank_dc pdb g_lo g_hi floor_est = foldl (\<lambda>p k. p[nat k := floor_est]) pdb [g_lo..g_hi]"

definition dc_guard :: "fft_processor \<Rightarrow> detect_args \<Rightarrow> int \<Rightarrow> int \<Rightarrow> fft_processor option" where
  "dc_guard p a s_bin e_bin =
     (if 0 < da_dc_guard a then
        case bins_for (da_dc_guard a) (f64 (da_rate a / of_int (fp_size p))) of None \<Rightarrow> None
        | Some guard_bins \<Rightarrow>
           (let center = fp_size p div 2; g_lo = max s_bin (center - guard_bins);
                g_hi = min e_bin (center + guard_bins);
                (floor_est, q) = estimate_noise p s_bin e_bin
            in Some (q\<lparr>fp_power := blank_dc (fp_power q) g_lo g_hi floor_est\<rparr>))
      else Some p)"

definition above_threshold :: "fft_processor \<Rightarrow> detect_args \<Rightarrow> int \<Rightarrow> int \<Rightarrow> real \<Rightarrow> int \<Rightarrow> bool" where
  "above_threshold p a s_bin e_bin global_noise =
     (let n = e_bin - s_bin + 1;
          ps = psums 0 (map (bin_at (fp_power p)) [s_bin..e_bin])
      in (\<lambda>k. f32 (with_hist (da_hist a) k
                 (local_noise ps n (fp_guard p) (fp_ref p) global_noise (k - s_bin)) + da_threshold a)
               \<le> bin_at (fp_power p) k))"

definition scan_params_of ::
  "fft_processor \<Rightarrow> detect_args \<Rightarrow> int \<Rightarrow> int \<Rightarrow> real \<Rightarrow> int \<Rightarrow> scan_params" where
  "scan_params_of p a s_bin e_bin global_noise min_bins =
     \<lparr>sp_start = s_bin, sp_end = e_bin, sp_min_bins = min_bins, sp_papr = da_papr a,
      sp_power = fp_power p, sp_above = above_threshold p a s_bin e_bin global_noise\<rparr>"

definition detect_setup :: "fft_processor \<Rightarrow> detect_args \<Rightarrow> (scan_params \<times> fft_processor) option" where
  "detect_setup p a =
     (case margin_bins (fp_size p) (da_usable a) of None \<Rightarrow> None
      | Some margin \<Rightarrow>
         (let s_bin = margin; e_bin = fp_size p - 1 - margin
          in case dc_guard p a s_bin e_bin of None \<Rightarrow> None
           | Some q \<Rightarrow>
              (let (global_noise, q) = estimate_noise q s_bin e_bin
               in case bins_for (da_min_bw a) (f64 (da_rate a / of_int (fp_size q))) of None \<Rightarrow> None
                | Some min_bins \<Rightarrow>
                   if s_bin \<le> e_bin \<and> 2 ^ 31 \<le> e_bin - s_bin + fp_guard q + max 1 (fp_ref q) then None
                   else Some (scan_params_of q a s_bin e_bin global_noise min_bins, q))))"

definition detect_from_spectrum ::
  "fft_processor \<Rightarrow> detect_args \<Rightarrow> (signal list \<times> fft_processor) option" where
  "detect_from_spectrum p a =
     (case detect_setup p a of None \<Rightarrow> None
      | Some (c, q) \<Rightarrow> Some (sort_key (\<lambda>s. - peak_db s) (signals (scan_bins c)), q))"

definition detect ::
  "(sample list \<Rightarrow> sample list) \<Rightarrow> fft_processor \<Rightarrow> sample list \<Rightarrow> detect_args \<Rightarrow>
   (signal list \<times> fft_processor) option" where
  "detect fft p samples a =
     (case compute_spectrum fft p samples of None \<Rightarrow> None
      | Some q \<Rightarrow> detect_from_spectrum q (a\<lparr>da_papr := 3, da_hist := None\<rparr>))"

subsection \<open>Frequency conversion\<close>

definition bin_to_hz :: "fft_processor \<Rightarrow> real \<Rightarrow> real \<Rightarrow> real \<Rightarrow> real" where
  "bin_to_hz p bin rate center =
     f64 (center + f64 (f64 (bin - of_int (fp_size p div 2)) * f64 (rate / of_int (fp_size p))))"

definition int_bin_to_hz :: "fft_processor \<Rightarrow> int \<Rightarrow> real \<Rightarrow> real \<Rightarrow> real" where
  "int_bin_to_hz p bin rate center = bin_to_hz p (f32 (of_int bin)) rate center"

end
