(* ===== verification/CfarRuns.thy ===== *)
theory CfarRuns
  imports Fft
begin

section \<open>The scan over the bins finds the maximal runs\<close>

text \<open>The single pass of \<open>detectFromSpectrum\<close> with its running sums, against runs of bins above the threshold defined
  on the whole spectrum.\<close>

subsection \<open>The detector reports the maximal runs\<close>

text \<open>
  What the loop of \<open>detectFromSpectrum\<close> should report, said without its state: the peak, the float
  mean and the first peak bin of a run, and which runs are wide and peaky enough. The lemmas below
  carry the loop's state through the bins: after bin \<open>k\<close> it is the description of the run that is
  open at \<open>k\<close>, and the signals are those of the runs that are closed.
\<close>

definition run_powers :: "scan_params \<Rightarrow> int \<Rightarrow> int \<Rightarrow> real list" where
  "run_powers c a b = map (bin_at (sp_power c)) [a..b]"

definition run_peak_of :: "scan_params \<Rightarrow> int \<Rightarrow> int \<Rightarrow> real" where
  "run_peak_of c a b = Max (set (run_powers c a b))"

definition peak_bin_of :: "scan_params \<Rightarrow> int \<Rightarrow> int \<Rightarrow> int" where
  "peak_bin_of c a b = hd (filter (\<lambda>k. bin_at (sp_power c) k = run_peak_of c a b) [a..b])"

definition run_sum_of :: "scan_params \<Rightarrow> int \<Rightarrow> int \<Rightarrow> real" where
  "run_sum_of c a b = foldl (\<lambda>s x. f32 (s + x)) 0 (run_powers c a b)"

definition run_mean_of :: "scan_params \<Rightarrow> int \<Rightarrow> int \<Rightarrow> real" where
  "run_mean_of c a b = f32 (run_sum_of c a b / f32 (of_int (b - a + 1)))"

definition reportable :: "scan_params \<Rightarrow> int \<times> int \<Rightarrow> bool" where
  "reportable c = (\<lambda>(a, b). sp_min_bins c \<le> b - a + 1 \<and>
     (b - a + 1 < 2 \<or> sp_papr c \<le> f32 (run_peak_of c a b - run_mean_of c a b)))"

definition run_signal :: "scan_params \<Rightarrow> int \<times> int \<Rightarrow> signal" where
  "run_signal c = (\<lambda>(a, b). \<lparr>start_bin = a, end_bin = b, peak_db = run_peak_of c a b,
     mean_db = run_mean_of c a b, center_bin = interpolate c (peak_bin_of c a b)\<rparr>)"

definition reported :: "scan_params \<Rightarrow> (int \<times> int) list \<Rightarrow> signal list" where
  "reported c rs = map (run_signal c) (filter (reportable c) rs)"

definition open_run :: "scan_params \<Rightarrow> (int \<times> int) list \<Rightarrow> int \<Rightarrow> int \<Rightarrow> run_state" where
  "open_run c rs a k = \<lparr>run_start = a, peak_bin_abs = peak_bin_of c a k,
     run_peak = run_peak_of c a k, run_sum = run_sum_of c a k, run_count = k - a + 1,
     signals = reported c rs\<rparr>"

definition closed_run :: "scan_params \<Rightarrow> (int \<times> int) list \<Rightarrow> run_state" where
  "closed_run c rs = init_run\<lparr>signals := reported c rs\<rparr>"

lemma reported_snoc:
  "reported c (rs @ [r]) = reported c rs @ (if reportable c r then [run_signal c r] else [])"
  by (simp add: reported_def)

lemma reported_Nil [simp]: "reported c [] = []"
  by (simp add: reported_def)

lemma run_powers_single [simp]: "run_powers c k k = [bin_at (sp_power c) k]"
  by (simp add: run_powers_def)

lemma run_powers_snoc:
  "a \<le> k \<Longrightarrow> run_powers c a (k + 1) = run_powers c a k @ [bin_at (sp_power c) (k + 1)]"
  using upto_snoc [of a "k + 1"] by (simp add: run_powers_def)

lemma run_sum_single: "run_sum_of c k k = f32 (bin_at (sp_power c) k)"
  by (simp add: run_sum_of_def)

lemma run_sum_snoc:
  "a \<le> k \<Longrightarrow> run_sum_of c a (k + 1) = f32 (run_sum_of c a k + bin_at (sp_power c) (k + 1))"
  by (simp add: run_sum_of_def run_powers_snoc)

lemma run_peak_single [simp]: "run_peak_of c k k = bin_at (sp_power c) k"
  by (simp add: run_peak_of_def)

lemma run_peak_snoc:
  assumes "a \<le> k"
  shows "run_peak_of c a (k + 1) = max (run_peak_of c a k) (bin_at (sp_power c) (k + 1))"
proof -
  have "set (run_powers c a k) \<noteq> {}"
    using assms by (simp add: run_powers_def)
  then show ?thesis
    by (simp add: run_peak_of_def run_powers_snoc [OF assms] Max_insert max.commute)
qed

lemma run_peak_ge: "k \<in> {a..b} \<Longrightarrow> bin_at (sp_power c) k \<le> run_peak_of c a b"
  by (auto simp: run_peak_of_def run_powers_def)

lemma run_peak_attained: "a \<le> b \<Longrightarrow> \<exists>k \<in> {a..b}. bin_at (sp_power c) k = run_peak_of c a b"
  using Max_in [of "bin_at (sp_power c) ` {a..b}"]
  by (auto simp: run_peak_of_def run_powers_def image_iff)

lemma peak_bin_single [simp]: "peak_bin_of c k k = k"
  by (simp add: peak_bin_of_def)

lemma peak_bin_snoc:
  assumes "a \<le> k"
  shows "peak_bin_of c a (k + 1) =
     (if run_peak_of c a k < bin_at (sp_power c) (k + 1) then k + 1 else peak_bin_of c a k)"
proof -
  have up: "[a..k + 1] = [a..k] @ [k + 1]"
    using upto_snoc [of a "k + 1"] assms by simp
  show ?thesis
  proof (cases "run_peak_of c a k < bin_at (sp_power c) (k + 1)")
    case True
    then have "filter (\<lambda>j. bin_at (sp_power c) j = run_peak_of c a (k + 1)) [a..k] = []"
      using run_peak_ge [of _ a k c] by (force simp: filter_empty_conv run_peak_snoc [OF assms])
    then show ?thesis
      using True by (simp add: peak_bin_of_def up) (simp add: run_peak_snoc [OF assms])
  next
    case False
    obtain j where "j \<in> {a..k}" "bin_at (sp_power c) j = run_peak_of c a k"
      using run_peak_attained [OF assms] by blast
    then have "filter (\<lambda>j. bin_at (sp_power c) j = run_peak_of c a k) [a..k] \<noteq> []"
      by (auto simp: filter_empty_conv)
    then show ?thesis
      using False by (simp add: peak_bin_of_def up run_peak_snoc [OF assms] max_def)
  qed
qed

lemma flush_closed [simp]: "flush_run c (closed_run c rs) k = closed_run c rs"
  by (simp add: flush_run_def closed_run_def init_run_def)

lemma flush_open:
  assumes "0 \<le> a"
  shows "flush_run c (open_run c rs a k) k = closed_run c (rs @ [(a, k)])"
  using assms
  by (simp add: flush_run_def open_run_def closed_run_def reset_run_def init_run_def reported_snoc
      reportable_def run_signal_def Let_def run_mean_of_def)

lemma scan_bin_out: "\<not> sp_above c k \<Longrightarrow> scan_bin c s k = flush_run c s (k - 1)"
  by (simp add: scan_bin_def)

lemma scan_bin_first:
  assumes "sp_above c k" and "no_peak < bin_at (sp_power c) k"
  shows "scan_bin c (closed_run c rs) k = open_run c rs k k"
  using assms
  by (simp add: scan_bin_def closed_run_def init_run_def open_run_def run_sum_single Let_def)

lemma scan_bin_grow:
  assumes "sp_above c (k + 1)" and "0 \<le> a" and "a \<le> k"
  shows "scan_bin c (open_run c rs a k) (k + 1) = open_run c rs a (k + 1)"
  using assms
  by (simp add: scan_bin_def open_run_def run_sum_snoc run_peak_snoc peak_bin_snoc Let_def max_def)

definition scan_prefix :: "scan_params \<Rightarrow> int \<Rightarrow> run_state" where
  "scan_prefix c k = foldl (scan_bin c) init_run [sp_start c..k]"

lemma scan_prefix_step: "sp_start c \<le> k + 1 \<Longrightarrow> scan_prefix c (k + 1) = scan_bin c (scan_prefix c k) (k + 1)"
  using upto_snoc [of "sp_start c" "k + 1"] by (simp add: scan_prefix_def)

definition scan_inv :: "scan_params \<Rightarrow> int \<Rightarrow> run_state \<Rightarrow> bool" where
  "scan_inv c k s \<longleftrightarrow>
     (if sp_start c \<le> k \<and> sp_above c k
      then \<exists>a rs. lists_runs (sp_above c) (sp_start c) k (rs @ [(a, k)]) \<and> s = open_run c rs a k
      else \<exists>rs. lists_runs (sp_above c) (sp_start c) k rs \<and> s = closed_run c rs)"

lemma lists_runs_last:
  "lists_runs P lo k (rs @ [(a, k')]) \<Longrightarrow> lo \<le> a \<and> a \<le> k'"
  by (auto simp: lists_runs_def maximal_run_def set_eq_iff)

lemma scan_inv_flush:
  assumes inv: "scan_inv c k s" and start: "0 \<le> sp_start c"
  shows "\<exists>rs. lists_runs (sp_above c) (sp_start c) k rs \<and> flush_run c s k = closed_run c rs"
proof (cases "sp_start c \<le> k \<and> sp_above c k")
  case True
  then obtain a rs where "lists_runs (sp_above c) (sp_start c) k (rs @ [(a, k)])"
    and "s = open_run c rs a k"
    using inv by (auto simp: scan_inv_def)
  moreover from this have "0 \<le> a" using lists_runs_last start by fastforce
  ultimately show ?thesis using flush_open by metis
next
  case False
  then obtain rs where "lists_runs (sp_above c) (sp_start c) k rs" and "s = closed_run c rs"
    using inv by (auto simp: scan_inv_def)
  then show ?thesis using flush_closed by blast
qed

lemma scan_inv_step:
  assumes inv: "scan_inv c k s" and start: "0 \<le> sp_start c" and k: "sp_start c \<le> k + 1"
    and pow: "no_peak < bin_at (sp_power c) (k + 1)"
  shows "scan_inv c (k + 1) (scan_bin c s (k + 1))"
proof (cases "sp_above c (k + 1)")
  case False
  obtain rs where "lists_runs (sp_above c) (sp_start c) k rs" "flush_run c s k = closed_run c rs"
    using scan_inv_flush [OF inv start] by blast
  then show ?thesis
    using False lists_runs_out by (fastforce simp: scan_inv_def scan_bin_out)
next
  case True
  show ?thesis
  proof (cases "sp_start c \<le> k \<and> sp_above c k")
    case opened: True
    then obtain a rs where rs: "lists_runs (sp_above c) (sp_start c) k (rs @ [(a, k)])"
      and s: "s = open_run c rs a k"
      using inv by (auto simp: scan_inv_def)
    have "0 \<le> a" "a \<le> k" using lists_runs_last [OF rs] start by auto
    then show ?thesis
      using lists_runs_grow [of _ _ k, OF rs True] True k
      by (auto simp: scan_inv_def s scan_bin_grow)
  next
    case shut: False
    then obtain rs where rs: "lists_runs (sp_above c) (sp_start c) k rs" and s: "s = closed_run c rs"
      using inv by (auto simp: scan_inv_def)
    have "lists_runs (sp_above c) (sp_start c) (k + 1) (rs @ [(k + 1, k + 1)])"
      using lists_runs_new [of _ _ k, OF rs k True] shut by (meson not_le)
    then show ?thesis
      using True k pow by (auto simp: scan_inv_def s scan_bin_first)
  qed
qed

lemma scan_prefix_inv:
  assumes start: "0 \<le> sp_start c" and lo: "sp_start c - 1 \<le> k"
    and pow: "\<And>j. sp_start c \<le> j \<Longrightarrow> j \<le> k \<Longrightarrow> no_peak < bin_at (sp_power c) j"
  shows "scan_inv c k (scan_prefix c k)"
  using lo pow
proof (induction k rule: int_ge_induct)
  case base
  have "scan_prefix c (sp_start c - 1) = closed_run c []"
    by (simp add: scan_prefix_def closed_run_def init_run_def)
  then show ?case
    using lists_runs_empty [of "sp_start c - 1" "sp_start c"] by (auto simp: scan_inv_def)
next
  case (step k)
  then have "scan_inv c k (scan_prefix c k)" by simp
  then show ?case
    using scan_inv_step [of c k "scan_prefix c k"] scan_prefix_step [of c k] start step by simp
qed

text \<open>The whole loop: its signals are those of the maximal runs, from left to right.\<close>

lemma scan_bins_reported:
  assumes "0 \<le> sp_start c" and "sp_start c \<le> sp_end c + 1"
    and "\<And>k. sp_start c \<le> k \<Longrightarrow> k \<le> sp_end c \<Longrightarrow> no_peak < bin_at (sp_power c) k"
  shows "\<exists>rs. lists_runs (sp_above c) (sp_start c) (sp_end c) rs \<and>
     signals (scan_bins c) = reported c rs"
proof -
  have "scan_inv c (sp_end c) (scan_prefix c (sp_end c))"
    using scan_prefix_inv [of c "sp_end c"] assms by simp
  then obtain rs where "lists_runs (sp_above c) (sp_start c) (sp_end c) rs"
    and "scan_bins c = closed_run c rs"
    using scan_inv_flush assms(1) by (metis scan_bins_def scan_prefix_def)
  then show ?thesis by (auto simp: closed_run_def)
qed

end
