(* ===== verification/Detector.thy ===== *)
theory Detector
  imports CfarRuns
begin

section \<open>The detector as a whole\<close>

text \<open>The invariant of the processor and that every operation is defined within the stated bounds, the spectrum of a
  dwell, one detection pass from start to end, and the properties of the detector.\<close>

subsection \<open>The processor's shape\<close>

text \<open>
  Buffers keep the length the constructor gave them, and the size stays the same; every operation
  that returns keeps it.
\<close>

definition processor_ok :: "fft_processor \<Rightarrow> bool" where
  "processor_ok p \<longleftrightarrow> 64 \<le> fp_size p \<and> length (fp_window p) = nat (fp_size p) \<and>
     length (fp_acc p) = nat (fp_size p) \<and> length (fp_power p) = nat (fp_size p) \<and>
     length (fp_scratch p) = nat (fp_size p)"

definition same_setup :: "fft_processor \<Rightarrow> fft_processor \<Rightarrow> bool" where
  "same_setup p q \<longleftrightarrow> fp_size q = fp_size p \<and> fp_guard q = fp_guard p \<and> fp_ref q = fp_ref p \<and>
     fp_window q = fp_window p"

lemma same_setup_refl [simp]: "same_setup p p"
  by (simp add: same_setup_def)

lemma same_setup_trans: "same_setup p q \<Longrightarrow> same_setup q r \<Longrightarrow> same_setup p r"
  by (simp add: same_setup_def)

lemma new_processor_ok:
  "new_processor n g r = Inr p \<Longrightarrow> processor_ok p \<and> fp_size p = n \<and> fp_guard p = g \<and> fp_ref p = r"
  by (auto simp: new_processor_def processor_ok_def split: if_splits)

lemma new_processor_Inr:
  "(\<exists>p. new_processor n g r = Inr p) \<longleftrightarrow> 64 \<le> n \<and> (\<exists>k. n = 2 ^ k)"
  using pow2_test [of n] by (auto simp: new_processor_def)

lemma power_of_nonneg: "0 \<le> nrm \<Longrightarrow> 0 \<le> power_of nrm z"
  by (simp add: power_of_def r32.fl_nonneg)

lemma accum_frame_Some:
  assumes "accum_frame fft p src = Some q"
  shows "same_setup p q" and "fp_power q = fp_power p" and "fp_scratch q = fp_scratch p"
    and "length (fp_acc q) = nat (fp_size p)"
  using assms by (auto simp: accum_frame_def Let_def same_setup_def split: option.splits)

lemma accum_frame_nonneg:
  assumes "accum_frame fft p src = Some q" and "\<forall>x\<in>set (fp_acc p). 0 \<le> x"
    and "length (fp_acc p) = nat (fp_size p)"
  shows "\<forall>x\<in>set (fp_acc q). 0 \<le> x"
proof -
  have nrm: "0 \<le> f32 (1 / f32 (real_of_int nn))" if "0 \<le> nn" for nn :: int
    using that by (simp add: r32.fl_nonneg)
  have step: "0 \<le> f32 (fp_acc p ! k + power_of (f32 (1 / f32 (of_int nn))) z)"
    if "k < nat (fp_size p)" "0 \<le> nn" for k nn z
    using that assms(2,3) by (intro r32.fl_nonneg add_nonneg_nonneg power_of_nonneg nrm) auto
  show ?thesis
    using assms(1)
    by (auto simp: accum_frame_def Let_def int_mul_def simp del: of_int_mult
        split: option.splits if_splits intro!: step)
qed

lemma int_mul_square: "0 \<le> n \<Longrightarrow> n \<le> 32768 \<Longrightarrow> int_mul n n = Some (n * n)"
  using mult_mono [of n 32768 n 32768] order_trans [of "- 2147483648" 0 "n * n"]
  by (simp add: int_mul_def)

lemma accum_frame_total:
  "0 \<le> fp_size p \<Longrightarrow> fp_size p \<le> 32768 \<Longrightarrow> \<exists>q. accum_frame fft p src = Some q"
  by (simp add: accum_frame_def Let_def int_mul_square)

lemma accum_frame_overflow: "46341 \<le> fp_size p \<Longrightarrow> accum_frame fft p src = None"
  using mult_mono [of 46341 "fp_size p" 46341 "fp_size p"]
  by (auto simp: accum_frame_def Let_def int_mul_def)

lemma accum_frames_Some:
  assumes "accum_frames fft p ss = Some q" and "length (fp_acc p) = nat (fp_size p)"
    and "\<forall>x\<in>set (fp_acc p). 0 \<le> x"
  shows "same_setup p q \<and> fp_power q = fp_power p \<and> fp_scratch q = fp_scratch p \<and>
    length (fp_acc q) = nat (fp_size p) \<and> (\<forall>x\<in>set (fp_acc q). 0 \<le> x)"
  using assms
proof (induction ss arbitrary: p)
  case (Cons s ss)
  then obtain p' where p': "accum_frame fft p s = Some p'" and q: "accum_frames fft p' ss = Some q"
    by (auto split: option.splits)
  note facts = accum_frame_Some [OF p'] accum_frame_nonneg [OF p' Cons.prems(3,2)]
  then have "fp_size p' = fp_size p" by (simp add: same_setup_def)
  then show ?case using Cons.IH [OF q] facts by (auto intro: same_setup_trans)
qed auto

lemma accum_frames_total:
  "0 \<le> fp_size p \<Longrightarrow> fp_size p \<le> 32768 \<Longrightarrow> \<exists>q. accum_frames fft p ss = Some q"
proof (induction ss arbitrary: p)
  case (Cons s ss)
  obtain p' where p': "accum_frame fft p s = Some p'"
    using accum_frame_total Cons.prems by blast
  then have "fp_size p' = fp_size p" using accum_frame_Some(1) by (simp add: same_setup_def)
  then show ?case using Cons p' by auto
qed simp

subsection \<open>The spectrum\<close>

text \<open>The smallest power that \<open>computeSpectrum\<close> writes stays above the detector's \<open>-1e30f\<close>.\<close>

lemma no_peak_low: "no_peak < - 310"
  unfolding no_peak_def using r32.fl_mono [of "- (10 ^ 30)" "- 311"]
  by (simp add: float_simps)

lemma tiny_f32: "1 / 10 ^ 31 \<le> f32 (1 / 10 ^ 30)"
  by (simp add: round_eval)

lemma to_dbfs_ge:
  assumes "0 \<le> a" and "0 \<le> c"
  shows "- 310 \<le> to_dbfs c a"
proof -
  let ?x = "f32 (f32 (a * c) + f32 (1 / 10 ^ 30))"
  have "f32 (f32 (1 / 10 ^ 30)) \<le> ?x"
    using assms by (intro r32.fl_mono) (simp add: r32.fl_nonneg)
  then have x: "1 / 10 ^ 31 \<le> ?x" using tiny_f32 by simp
  have "log 10 (1 / 10 ^ 31) \<le> log 10 ?x"
    using x by (subst log_le_cancel_iff) (auto intro: less_le_trans [of _ "1 / 10 ^ 31"])
  moreover have "log 10 (1 / 10 ^ 31) = - 31"
    using log_pow_cancel [of 10 31] by (simp add: log_divide del: log_pow_cancel)
  ultimately have "- 31 \<le> log 10 ?x" by simp
  then have "- 31 \<le> std_log10f ?x"
    unfolding std_log10f_def by (intro r32.fl_ge_fixed) (simp_all add: float_simps)
  then show ?thesis
    unfolding to_dbfs_def by (intro r32.fl_ge_fixed) (simp_all add: float_simps)
qed

lemma compute_spectrum_short:
  "int (length samples) < fp_size p \<Longrightarrow> compute_spectrum fft p samples = Some p"
  by (simp add: compute_spectrum_def Let_def)

lemma compute_spectrum_Some:
  assumes ok: "processor_ok p" and q: "compute_spectrum fft p samples = Some q"
    and long: "fp_size p \<le> int (length samples)"
  shows "same_setup p q" and "processor_ok q" and "\<forall>x\<in>set (fp_power q). - 310 \<le> x"
proof -
  let ?n = "fp_size p"
  let ?p0 = "p\<lparr>fp_acc := replicate (nat ?n) 0\<rparr>"
  let ?nf = "n_frames ?n (int (length samples))"
  obtain r where r: "accum_frames fft ?p0 (map (frame ?n samples) [0..?nf - 1]) = Some r"
    and qr: "q = r\<lparr>fp_power := map (to_dbfs (f32 (1 / f32 (of_int ?nf)))) (fp_acc r)\<rparr>"
    using q long by (auto simp: compute_spectrum_def Let_def split: option.splits)
  have facts: "same_setup ?p0 r \<and> fp_power r = fp_power ?p0 \<and> fp_scratch r = fp_scratch ?p0 \<and>
    length (fp_acc r) = nat (fp_size ?p0) \<and> (\<forall>x\<in>set (fp_acc r). 0 \<le> x)"
    by (rule accum_frames_Some [OF r]) auto
  have "0 \<le> ?nf"
    using long ok pos_imp_zdiv_nonneg_iff [of "?n div 2" "int (length samples) - ?n"]
    by (auto simp: n_frames_def processor_ok_def)
  then have scale: "0 \<le> f32 (1 / f32 (real_of_int ?nf))"
    by (simp add: r32.fl_nonneg)
  show "same_setup p q" using facts qr by (simp add: same_setup_def)
  show "processor_ok q" using facts qr ok by (simp add: processor_ok_def same_setup_def)
  show "\<forall>x\<in>set (fp_power q). - 310 \<le> x"
    using facts scale by (auto simp: qr intro: to_dbfs_ge)
qed

lemma compute_spectrum_total_lemma:
  assumes "processor_ok p" and "fp_size p \<le> 32768"
  shows "\<exists>q. compute_spectrum fft p samples = Some q"
proof (cases "int (length samples) < fp_size p")
  case False
  have "\<exists>q. accum_frames fft (p\<lparr>fp_acc := replicate (nat (fp_size p)) 0\<rparr>)
      (map (frame (fp_size p) samples) [0..n_frames (fp_size p) (int (length samples)) - 1]) = Some q"
    by (rule accum_frames_total) (use assms in \<open>auto simp: processor_ok_def\<close>)
  then show ?thesis using False by (auto simp: compute_spectrum_def Let_def)
qed (use compute_spectrum_short in blast)

subsection \<open>One detection pass\<close>

lemma f64_of_int_small: "\<bar>n\<bar> \<le> 2 ^ 53 \<Longrightarrow> f64 (real_of_int n) = real_of_int n"
  by (simp add: r64.fl_int)

lemma f64_of_half: "\<bar>n\<bar> \<le> 2 ^ 53 \<Longrightarrow> f64 (real_of_int n / 2) = real_of_int n / 2"
  using rnd_representable [of 53 n "- 1074" "- 1"] by (simp add: f64_def power_int_minus)

lemma margin_bins_range:
  assumes "0 \<le> n" and "n < 2 ^ 31" and "0 \<le> u" and "u \<le> 1"
  shows "\<exists>m. margin_bins n u = Some m \<and> 0 \<le> m \<and> 2 * m \<le> n"
proof -
  have u: "0 \<le> f64 (1 - u)" "f64 (1 - u) \<le> 1"
    using assms by (simp_all add: r64.fl_nonneg r64.fl_le_fixed)
  then have prod: "0 \<le> of_int n * f64 (1 - u)" "of_int n * f64 (1 - u) \<le> of_int n"
    using assms by (simp_all add: mult_left_le)
  have n: "f64 (of_int n) = of_int n"
    using assms by (intro f64_of_int_small) simp
  let ?y = "f64 (of_int n * f64 (1 - u))"
  have y: "0 \<le> ?y" "?y \<le> of_int n"
    using prod n by (simp_all add: r64.fl_nonneg r64.fl_le_fixed)
  have half: "f64 (of_int n / 2) \<le> of_int n / 2 + 1/4"
    using f64_of_half [of n] assms by simp
  have "f64 (?y / 2) \<le> f64 (of_int n / 2)"
    using y by (intro r64.fl_mono) simp
  then have z: "0 \<le> f64 (?y / 2)" "f64 (?y / 2) \<le> of_int n / 2 + 1/4"
    using half y by (simp_all add: r64.fl_nonneg)
  then have "f64 (?y / 2) < 2 ^ 31"
    using assms by simp
  then have "margin_bins n u = Some \<lfloor>f64 (?y / 2)\<rfloor>"
    using z by (simp add: margin_bins_def int_cast_Some)
  moreover have "0 \<le> \<lfloor>f64 (?y / 2)\<rfloor>" using z by simp
  moreover have "2 * \<lfloor>f64 (?y / 2)\<rfloor> \<le> n"
  proof -
    have "of_int (2 * \<lfloor>f64 (?y / 2)\<rfloor>) \<le> of_int n + (1/2 :: real)"
      using z(2) of_int_floor_le [of "f64 (?y / 2)"] unfolding of_int_mult by linarith
    then show ?thesis by linarith
  qed
  ultimately show ?thesis by blast
qed

lemma estimate_noise_state:
  assumes "estimate_noise p s e = (v, q)"
  shows "same_setup p q" and "fp_power q = fp_power p" and "fp_acc q = fp_acc p"
    and "\<exists>scratch. q = p\<lparr>fp_scratch := scratch\<rparr>"
proof -
  show q: "\<exists>scratch. q = p\<lparr>fp_scratch := scratch\<rparr>"
    using assms unfolding estimate_noise_def Let_def prod.inject by blast
  show "same_setup p q" "fp_power q = fp_power p" "fp_acc q = fp_acc p"
    using q by (auto simp: same_setup_def)
qed

lemma length_segment:
  "0 \<le> s \<Longrightarrow> s \<le> e + 1 \<Longrightarrow> e < int (length xs) \<Longrightarrow>
     length (take (nat (e - s + 1)) (drop (nat s) xs)) = nat (e - s + 1)"
  by simp

lemma estimate_noise_ok:
  assumes "estimate_noise p s e = (v, q)" and "processor_ok p"
    and "0 \<le> s" and "s \<le> e + 1" and "e < fp_size p"
  shows "processor_ok q"
proof -
  let ?seg = "take (nat (e - s + 1)) (drop (nat s) (fp_power p))"
  have "length ?seg \<le> length (fp_scratch p)"
    using assms by (simp add: processor_ok_def)
  then have "length (sort ?seg @ drop (length ?seg) (fp_scratch p)) = length (fp_scratch p)"
    by (simp only: length_append length_sort length_drop)
  then have "length (fp_scratch q) = length (fp_scratch p)"
    using assms(1) unfolding estimate_noise_def Let_def prod.inject by auto
  then show ?thesis
    using estimate_noise_state(4) [OF assms(1)] assms(2) by (auto simp: processor_ok_def)
qed

lemma estimate_noise_value:
  assumes "processor_ok p" and "0 \<le> s" and "s \<le> e" and "e < fp_size p"
    and "estimate_noise p s e = (v, q)"
  shows "v = sort (take (nat (e - s + 1)) (drop (nat s) (fp_power p))) ! nat ((e - s + 1) div 2)"
    and "v \<in> set (fp_power p)"
proof -
  let ?seg = "take (nat (e - s + 1)) (drop (nat s) (fp_power p))"
  have len: "length ?seg = nat (e - s + 1)"
    using assms by (intro length_segment) (auto simp: processor_ok_def)
  have half: "nat ((e - s + 1) div 2) < length ?seg"
    using assms(3) unfolding len by linarith
  show v: "v = sort ?seg ! nat ((e - s + 1) div 2)"
    using assms(5) half unfolding estimate_noise_def Let_def prod.inject
    by (simp add: bin_at_def nth_append del: length_take)
  then have "v \<in> set ?seg"
    using half by (metis length_sort nth_mem set_sort)
  then show "v \<in> set (fp_power p)"
    by (meson in_set_dropD in_set_takeD)
qed

lemma length_fold_update [simp]: "length (foldl (\<lambda>p k. p[nat k := v]) xs ks) = length xs"
  by (induction ks arbitrary: xs) auto

lemma set_fold_update: "set (foldl (\<lambda>p k. p[nat k := v]) xs ks) \<subseteq> insert v (set xs)"
proof (induction ks arbitrary: xs)
  case (Cons k ks)
  then show ?case using set_update_subset_insert [of xs "nat k" v] by fastforce
qed auto

lemma length_blank [simp]: "length (blank_dc pdb lo hi v) = length pdb"
  by (simp add: blank_dc_def)

lemma set_blank: "set (blank_dc pdb lo hi v) \<subseteq> insert v (set pdb)"
  unfolding blank_dc_def by (rule set_fold_update)

lemma blank_none: "hi < lo \<Longrightarrow> blank_dc pdb lo hi v = pdb"
  by (simp add: blank_dc_def)

lemma dc_guard_Some:
  assumes "dc_guard p a s e = Some q" and ok: "processor_ok p"
    and "0 \<le> s" and "s \<le> e + 1" and "e < fp_size p" and low: "\<forall>x\<in>set (fp_power p). l \<le> x"
  shows "same_setup p q" and "processor_ok q" and "\<forall>x\<in>set (fp_power q). l \<le> x"
proof -
  have "same_setup p q \<and> processor_ok q \<and> (\<forall>x\<in>set (fp_power q). l \<le> x)"
  proof (cases "0 < da_dc_guard a")
    case True
    obtain v r where vr: "estimate_noise p s e = (v, r)" by fastforce
    then obtain lo hi where q: "q = r\<lparr>fp_power := blank_dc (fp_power r) lo hi v\<rparr>"
      and range: "s \<le> lo" "hi \<le> e"
      using assms(1) True by (auto simp: dc_guard_def Let_def split: option.splits)
    have r: "same_setup p r" "fp_power r = fp_power p" "processor_ok r"
      using estimate_noise_state [OF vr] estimate_noise_ok [OF vr ok] assms by auto
    have "\<forall>x\<in>set (blank_dc (fp_power p) lo hi v). l \<le> x"
    proof (cases "s \<le> e")
      case True
      then have "v \<in> set (fp_power p)"
        using estimate_noise_value(2) [OF ok _ _ _ vr] assms by blast
      then show ?thesis using set_blank [of "fp_power p" lo hi v] low by blast
    next
      case False
      then show ?thesis using blank_none [of hi lo] range low by simp
    qed
    then show ?thesis using r by (auto simp: q same_setup_def processor_ok_def)
  next
    case False
    then show ?thesis using assms by (simp add: dc_guard_def)
  qed
  then show "same_setup p q" and "processor_ok q" and "\<forall>x\<in>set (fp_power q). l \<le> x" by auto
qed

lemma detect_setup_at:
  assumes det: "detect_setup p a = Some (c, q)"
    and m: "margin_bins (fp_size p) (da_usable a) = Some m"
    and r: "dc_guard p a m (fp_size p - 1 - m) = Some r"
    and vt: "estimate_noise r m (fp_size p - 1 - m) = (v, t)"
  shows "\<exists>n. bins_for (da_min_bw a) (f64 (da_rate a / of_int (fp_size t))) = Some n \<and>
    c = scan_params_of t a m (fp_size p - 1 - m) v n \<and> q = t"
proof (cases "bins_for (da_min_bw a) (f64 (da_rate a / of_int (fp_size t)))")
  case None
  have False using det unfolding detect_setup_def Let_def m option.case r vt prod.case None by simp
  then show ?thesis ..
next
  case (Some n)
  show ?thesis using det unfolding detect_setup_def Let_def m option.case r vt prod.case Some
    by (simp split: if_split_asm) blast
qed

lemma detect_setup_Some:
  assumes det: "detect_setup p a = Some (c, q)" and ok: "processor_ok p" and "fp_size p < 2 ^ 31"
    and "0 \<le> da_usable a" and "da_usable a \<le> 1" and low: "\<forall>x\<in>set (fp_power p). l \<le> x"
  shows "\<exists>margin. margin_bins (fp_size p) (da_usable a) = Some margin \<and> 0 \<le> margin \<and>
      2 * margin \<le> fp_size p \<and> sp_start c = margin \<and> sp_end c = fp_size p - 1 - margin"
    and "same_setup p q" and "processor_ok q" and "sp_power c = fp_power q"
    and "\<forall>x\<in>set (sp_power c). l \<le> x"
proof -
  have "0 \<le> fp_size p" using ok by (simp add: processor_ok_def)
  then obtain m where m: "margin_bins (fp_size p) (da_usable a) = Some m" "0 \<le> m" "2 * m \<le> fp_size p"
    using margin_bins_range assms by blast
  let ?e = "fp_size p - 1 - m"
  obtain r where r: "dc_guard p a m ?e = Some r"
    using det m(1) by (cases "dc_guard p a m ?e") (simp_all add: detect_setup_def Let_def)
  obtain v t where vt: "estimate_noise r m ?e = (v, t)" by fastforce
  obtain n where c: "c = scan_params_of t a m ?e v n" and q: "q = t"
    using detect_setup_at [OF det m(1) r vt] by blast
  have rng: "0 \<le> m" "m \<le> ?e + 1" "?e < fp_size p" using m by auto
  note r' = dc_guard_Some [OF r ok rng low]
  have size: "fp_size r = fp_size p" using r'(1) by (simp add: same_setup_def)
  have t: "same_setup r t" "fp_power t = fp_power r" "processor_ok t"
    using estimate_noise_state [OF vt] estimate_noise_ok [OF vt r'(2)] rng size by auto
  show "\<exists>margin. margin_bins (fp_size p) (da_usable a) = Some margin \<and> 0 \<le> margin \<and>
      2 * margin \<le> fp_size p \<and> sp_start c = margin \<and> sp_end c = fp_size p - 1 - margin"
    using m by (simp add: c scan_params_of_def)
  show "same_setup p q" using t(1) r'(1) q by (auto intro: same_setup_trans)
  show "processor_ok q" "sp_power c = fp_power q" "\<forall>x\<in>set (sp_power c). l \<le> x"
    using t r' q by (simp_all add: c scan_params_of_def)
qed

lemma sorted_by_peak: "sorted_wrt (\<lambda>s t. peak_db t \<le> peak_db s) (sort_key (\<lambda>s. - peak_db s) xs)"
  using sorted_sort_key [of "\<lambda>s. - peak_db s" xs] by (simp add: sorted_map)

lemma detect_reports:
  assumes det: "detect_setup p a = Some (c, q)" and ok: "processor_ok p" and "fp_size p < 2 ^ 31"
    and "0 \<le> da_usable a" and "da_usable a \<le> 1" and low: "\<forall>x\<in>set (fp_power p). - 310 \<le> x"
  shows "\<exists>rs. lists_runs (sp_above c) (sp_start c) (sp_end c) rs \<and>
     detect_from_spectrum p a = Some (sort_key (\<lambda>s. - peak_db s) (reported c rs), q)"
proof -
  note facts = detect_setup_Some [OF assms]
  obtain m where m: "0 \<le> m" "2 * m \<le> fp_size p" "sp_start c = m" "sp_end c = fp_size p - 1 - m"
    using facts(1) by blast
  have len: "length (sp_power c) = nat (fp_size p)"
    using facts(2,3,4) by (simp add: processor_ok_def same_setup_def)
  have "no_peak < bin_at (sp_power c) k" if "sp_start c \<le> k" "k \<le> sp_end c" for k
  proof -
    have "bin_at (sp_power c) k \<in> set (sp_power c)"
      using that m len unfolding bin_at_def by (intro nth_mem) simp
    then show ?thesis using facts(5) no_peak_low by fastforce
  qed
  then obtain rs where "lists_runs (sp_above c) (sp_start c) (sp_end c) rs"
    and "signals (scan_bins c) = reported c rs"
    using scan_bins_reported [of c] m by fastforce
  then show ?thesis using det by (auto simp: detect_from_spectrum_def)
qed

subsection \<open>The conversions to \<open>int\<close> are defined\<close>

lemma near_half: "\<lbrakk>\<bar>b - x\<bar> \<le> y + z; y \<le> x / 4; z \<le> x / 4\<rbrakk> \<Longrightarrow> x / 2 \<le> b" for b :: real
  by linarith

lemma bins_for_total:
  assumes n: "64 \<le> n" "n \<le> 2 ^ 24" and rate: "1 \<le> rate" "rate \<le> 2 ^ 40" and hz: "hz \<le> rate"
  shows "\<exists>k. bins_for (max 0 hz) (f64 (rate / of_int n)) = Some k \<and> 1 \<le> k"
proof -
  let ?b = "f64 (rate / of_int n)"
  have n0: "(0::real) < of_int n" "of_int n \<le> (2 ^ 24 :: real)" using n by simp_all
  have small: "1 / 2 ^ 1000 \<le> rate / of_int n / (4 :: real)"
  proof -
    have "1 / 2 ^ 24 \<le> rate / of_int n"
      using n0 rate by (intro frac_le) simp_all
    then show ?thesis by simp
  qed
  have "\<bar>rate / of_int n\<bar> / 2 ^ 53 \<le> rate / of_int n / (4 :: real)"
    using n0 rate by (simp add: divide_left_mono)
  then have b: "rate / of_int n / 2 \<le> ?b"
    using near_half [OF f64_error _ small] by blast
  have b0: "0 < rate / of_int n / 2" using n0 rate by simp
  have "max 0 hz / ?b \<le> rate / (rate / of_int n / 2)"
    using hz rate b b0 by (intro frac_le) simp_all
  also have "\<dots> = 2 * of_int n" using rate n0 by simp
  also have "\<dots> \<le> of_int (2 ^ 25)" using n0 by simp
  finally have q: "max 0 hz / ?b \<le> of_int (2 ^ 25)" .
  have "f64 (max 0 hz / ?b) \<le> of_int (2 ^ 25)"
    using q by (rule r64.fl_le_fixed) (simp add: float_simps)
  then have "\<lceil>f64 (max 0 hz / ?b)\<rceil> \<le> 2 ^ 25" by (simp add: ceiling_le_iff)
  moreover have "0 \<le> f64 (max 0 hz / ?b)" using b b0 by (intro r64.fl_nonneg) simp
  ultimately have "int_cast (of_int \<lceil>f64 (max 0 hz / ?b)\<rceil>) = Some \<lceil>f64 (max 0 hz / ?b)\<rceil>"
    by (subst int_cast_Some) (auto simp: ceiling_le_iff)
  then show ?thesis using b b0 by (auto simp: bins_for_def)
qed

definition detect_args_ok :: "detect_args \<Rightarrow> bool" where
  "detect_args_ok a \<longleftrightarrow> 0 \<le> da_usable a \<and> da_usable a \<le> 1 \<and> 1 \<le> da_rate a \<and> da_rate a \<le> 2 ^ 40 \<and>
     0 \<le> da_min_bw a \<and> da_min_bw a \<le> da_rate a \<and> da_dc_guard a \<le> da_rate a"

lemma dc_guard_total:
  assumes "processor_ok p" and "fp_size p \<le> 2 ^ 24" and "detect_args_ok a"
  shows "\<exists>q. dc_guard p a s e = Some q"
proof (cases "0 < da_dc_guard a")
  case True
  obtain k where "bins_for (da_dc_guard a) (f64 (da_rate a / of_int (fp_size p))) = Some k"
    using bins_for_total [of "fp_size p" "da_rate a" "da_dc_guard a"] assms True
    by (auto simp: processor_ok_def detect_args_ok_def max_def)
  moreover obtain v r where "estimate_noise p s e = (v, r)" by fastforce
  ultimately show ?thesis using True by (simp add: dc_guard_def Let_def)
qed (simp add: dc_guard_def)

lemma detect_setup_total:
  assumes ok: "processor_ok p" and size: "fp_size p \<le> 2 ^ 24" and args: "detect_args_ok a"
    and cfar: "fp_size p + fp_guard p + max 1 (fp_ref p) < 2 ^ 31"
  shows "\<exists>c q. detect_setup p a = Some (c, q)"
proof -
  have n: "0 \<le> fp_size p" "fp_size p < 2 ^ 31" using ok size by (auto simp: processor_ok_def)
  have u: "0 \<le> da_usable a" "da_usable a \<le> 1" using args by (auto simp: detect_args_ok_def)
  obtain m where m: "margin_bins (fp_size p) (da_usable a) = Some m" "0 \<le> m" "2 * m \<le> fp_size p"
    using margin_bins_range [OF n u] by blast
  let ?e = "fp_size p - 1 - m"
  obtain r where r: "dc_guard p a m ?e = Some r"
    using dc_guard_total [OF ok size args] by blast
  have rng: "0 \<le> m" "m \<le> ?e + 1" "?e < fp_size p" using m by auto
  obtain v t where vt: "estimate_noise r m ?e = (v, t)" by fastforce
  have low: "\<forall>x\<in>set (fp_power p). Min (set (fp_power p)) \<le> x" by simp
  have "same_setup p t"
    using dc_guard_Some(1) [OF r ok rng low] estimate_noise_state(1) [OF vt] same_setup_trans by blast
  then have t: "fp_size t = fp_size p" "fp_guard t = fp_guard p" "fp_ref t = fp_ref p"
    by (auto simp: same_setup_def)
  obtain k where k: "bins_for (da_min_bw a) (f64 (da_rate a / of_int (fp_size t))) = Some k"
    using bins_for_total [of "fp_size p" "da_rate a" "da_min_bw a"] ok size args
    by (auto simp: processor_ok_def detect_args_ok_def max_def t)
  have "\<not> (m \<le> ?e \<and> 2 ^ 31 \<le> ?e - m + fp_guard t + max 1 (fp_ref t))"
    using cfar m unfolding t by linarith
  then show ?thesis
    unfolding detect_setup_def Let_def m(1) option.case r vt prod.case k by simp
qed

subsection \<open>Welch frames\<close>

lemma n_frames_bounds:
  assumes "64 \<le> n" and "n \<le> len"
  shows "1 \<le> n_frames n len" and "(n_frames n len - 1) * (n div 2) + n \<le> len"
    and "len < n_frames n len * (n div 2) + n"
proof -
  have h: "0 < n div 2" using assms by simp
  then show "1 \<le> n_frames n len"
    using assms pos_imp_zdiv_nonneg_iff [of "n div 2" "len - n"] by (simp add: n_frames_def)
  have "(len - n) div (n div 2) * (n div 2) \<le> len - n"
    using pos_mod_sign [OF h, of "len - n"] div_mult_mod_eq [of "len - n" "n div 2"] by linarith
  then show "(n_frames n len - 1) * (n div 2) + n \<le> len"
    by (simp add: n_frames_def)
  have "len - n < ((len - n) div (n div 2) + 1) * (n div 2)"
    using pos_mod_bound [OF h, of "len - n"] div_mult_mod_eq [of "len - n" "n div 2"]
    by (simp add: distrib_right)
  then show "len < n_frames n len * (n div 2) + n"
    by (simp add: n_frames_def)
qed

lemma length_frame:
  assumes "64 \<le> n" and "n \<le> int (length xs)" and "0 \<le> f" and "f < n_frames n (int (length xs))"
  shows "length (frame n xs f) = nat n"
proof -
  have "f * (n div 2) \<le> (n_frames n (int (length xs)) - 1) * (n div 2)"
    using assms by (intro mult_right_mono) simp_all
  then have "f * (n div 2) + n \<le> int (length xs)"
    using n_frames_bounds(2) [OF assms(1,2)] by linarith
  moreover have "0 \<le> f * (n div 2)" using assms by simp
  ultimately show ?thesis using assms(1) by (simp add: frame_def)
qed

lemma frame_nth:
  assumes "64 \<le> n" and "n \<le> int (length xs)" and "0 \<le> f" and "f < n_frames n (int (length xs))"
    and "i < nat n"
  shows "frame n xs f ! i = xs ! (nat (f * (n div 2)) + i)"
proof -
  have "length (frame n xs f) = nat n" by (rule length_frame [OF assms(1-4)])
  then show ?thesis using assms(5) by (simp add: frame_def)
qed

subsection \<open>Properties of the detector\<close>

lemma compute_then_detect:
  assumes ok: "processor_ok p" and size: "fp_size p \<le> 32768" and args: "detect_args_ok a"
    and cfar: "fp_size p + fp_guard p + max 1 (fp_ref p) < 2 ^ 31"
    and long: "fp_size p \<le> int (length samples)"
  shows "\<exists>q c r rs. compute_spectrum fft p samples = Some q \<and> detect_setup q a = Some (c, r) \<and>
     lists_runs (sp_above c) (sp_start c) (sp_end c) rs \<and>
     detect_from_spectrum q a = Some (sort_key (\<lambda>s. - peak_db s) (reported c rs), r)"
proof -
  obtain q where q: "compute_spectrum fft p samples = Some q"
    using compute_spectrum_total_lemma [OF ok size] by blast
  note qf = compute_spectrum_Some [OF ok q long]
  have qs: "fp_size q = fp_size p" "fp_guard q = fp_guard p" "fp_ref q = fp_ref p"
    using qf(1) by (auto simp: same_setup_def)
  obtain c r where cr: "detect_setup q a = Some (c, r)"
    using detect_setup_total [OF qf(2) _ args] size cfar by (auto simp: qs)
  have "fp_size q < 2 ^ 31" using size qs by simp
  then show ?thesis
    using detect_reports [OF cr qf(2)] args qf(3) q cr by (auto simp: detect_args_ok_def)
qed

text \<open>A 64-bin processor and the default detection arguments, for the instances.\<close>

definition processor64 :: fft_processor where
  "processor64 = \<lparr>fp_size = 64, fp_guard = 8, fp_ref = 32, fp_window = replicate 64 1,
     fp_acc = replicate 64 0, fp_power = replicate 64 0, fp_scratch = replicate 64 0\<rparr>"

definition args64 :: detect_args where
  "args64 = \<lparr>da_threshold = 10, da_usable = 1, da_rate = 64000, da_min_bw = 1000,
     da_dc_guard = 0, da_papr = 3, da_hist = None\<rparr>"

lemma processor64_ok: "processor_ok processor64" "fp_size processor64 = 64"
    "fp_guard processor64 = 8" "fp_ref processor64 = 32"
  by (simp_all add: processor_ok_def processor64_def)

lemma args64_ok: "detect_args_ok args64"
  by (simp add: detect_args_ok_def args64_def)

text \<open>C1. For every transform and every dwell of at least one frame, the spectrum and the
  detection are computed, and the signals reported are exactly those of the maximal runs of bins at
  or above their CFAR threshold inside the usable band that are wide and peaky enough, each with
  its maximum as peak and the float mean of its bins, in descending order of peak.\<close>

theorem detection_reports_maximal_runs:
  assumes "processor_ok p" and "fp_size p \<le> 32768" and "detect_args_ok a"
    and "fp_size p + fp_guard p + max 1 (fp_ref p) < 2 ^ 31"
    and "fp_size p \<le> int (length samples)"
  shows "\<exists>q c r rs. compute_spectrum fft p samples = Some q \<and> detect_setup q a = Some (c, r) \<and>
     lists_runs (sp_above c) (sp_start c) (sp_end c) rs \<and>
     detect_from_spectrum q a = Some (sort_key (\<lambda>s. - peak_db s) (reported c rs), r)"
  by (rule compute_then_detect [OF assms])

theorem detection_reports_maximal_runs_witness:
  "\<exists>q c r rs. compute_spectrum id processor64 (replicate 64 (1, 0)) = Some q \<and>
     detect_setup q args64 = Some (c, r) \<and>
     lists_runs (sp_above c) (sp_start c) (sp_end c) rs \<and>
     detect_from_spectrum q args64 = Some (sort_key (\<lambda>s. - peak_db s) (reported c rs), r)"
  by (rule detection_reports_maximal_runs) (simp_all add: processor64_ok args64_ok)

text \<open>The signals of one pass are distinct, lie inside the usable band and do not overlap.\<close>

theorem detected_signals_disjoint:
  assumes "detect_setup p a = Some (c, q)" and "processor_ok p" and "fp_size p < 2 ^ 31"
    and "0 \<le> da_usable a" and "da_usable a \<le> 1" and "\<forall>x\<in>set (fp_power p). - 310 \<le> x"
    and "detect_from_spectrum p a = Some (sigs, r)"
  shows "distinct sigs \<and>
     (\<forall>s\<in>set sigs. sp_start c \<le> start_bin s \<and> start_bin s \<le> end_bin s \<and> end_bin s \<le> sp_end c \<and>
        (\<forall>t\<in>set sigs. s = t \<or> end_bin s < start_bin t \<or> end_bin t < start_bin s))"
proof -
  obtain rs where rs: "lists_runs (sp_above c) (sp_start c) (sp_end c) rs"
    and sigs: "sigs = sort_key (\<lambda>s. - peak_db s) (reported c rs)"
    using detect_reports [OF assms(1-6)] assms(7) by auto
  have "inj_on (run_signal c) X" for X
    by (auto simp: inj_on_def run_signal_def)
  then have "distinct (reported c rs)"
    using lists_runs_distinct [OF rs] by (simp add: reported_def distinct_map)
  moreover have run: "\<exists>a b. s = run_signal c (a, b) \<and>
      maximal_run (sp_above c) (sp_start c) (sp_end c) a b" if "s \<in> set (reported c rs)" for s
    using that lists_runsD [OF rs] by (auto simp: reported_def)
  moreover have "sp_start c \<le> start_bin s \<and> start_bin s \<le> end_bin s \<and> end_bin s \<le> sp_end c"
    if "s \<in> set (reported c rs)" for s
    using run [OF that] maximal_runD by (fastforce simp: run_signal_def)
  moreover have "s = t \<or> end_bin s < start_bin t \<or> end_bin t < start_bin s"
    if st: "s \<in> set (reported c rs)" "t \<in> set (reported c rs)" for s t
    using run [OF st(1)] run [OF st(2)] maximal_runs_disjoint by (fastforce simp: run_signal_def)
  ultimately show ?thesis by (simp add: sigs)
qed

theorem detected_signals_disjoint_witness:
  "\<exists>c q sigs r. detect_setup processor64 args64 = Some (c, q) \<and>
     detect_from_spectrum processor64 args64 = Some (sigs, r) \<and> distinct sigs \<and>
     list_all (\<lambda>s. sp_start c \<le> start_bin s \<and> start_bin s \<le> end_bin s \<and> end_bin s \<le> sp_end c) sigs"
proof -
  obtain c q where cq: "detect_setup processor64 args64 = Some (c, q)"
    using detect_setup_total [of processor64 args64] processor64_ok args64_ok by auto
  obtain sigs r where sigs: "detect_from_spectrum processor64 args64 = Some (sigs, r)"
    using cq by (auto simp: detect_from_spectrum_def)
  have "distinct sigs \<and>
     (\<forall>s\<in>set sigs. sp_start c \<le> start_bin s \<and> start_bin s \<le> end_bin s \<and> end_bin s \<le> sp_end c \<and>
        (\<forall>t\<in>set sigs. s = t \<or> end_bin s < start_bin t \<or> end_bin t < start_bin s))"
    by (intro detected_signals_disjoint [OF cq _ _ _ _ _ sigs])
      (simp_all add: processor64_ok, simp_all add: args64_def processor64_def)
  then show ?thesis using cq sigs by (auto simp: list_all_iff)
qed

text \<open>Welch averaging never reads outside the dwell: there is at least one frame, every frame
  has exactly \<open>fft_size\<close> samples, frame \<open>f\<close> starts \<open>f\<close> half-frames in, and what is left over at
  the end is shorter than half a frame.\<close>

theorem welch_frames_in_bounds:
  assumes "processor_ok p" and "fp_size p \<le> int (length xs)"
  shows "let n = fp_size p; nf = n_frames n (int (length xs)); hop = n div 2
     in 1 \<le> nf \<and>
        (\<forall>f\<in>{0..<nf}. length (frame n xs f) = nat n \<and>
           (\<forall>i\<in>{0..<nat n}. frame n xs f ! i = xs ! (nat (f * hop) + i))) \<and>
        (let used = (nf - 1) * hop + n in used \<le> int (length xs) \<and> int (length xs) < used + hop)"
  using assms n_frames_bounds [of "fp_size p" "int (length xs)"]
  by (auto simp: Let_def processor_ok_def left_diff_distrib intro!: length_frame frame_nth)

theorem welch_frames_in_bounds_witness:
  "let xs = map (\<lambda>i. (real i, 0)) [0..<200]
   in n_frames 64 (int (length xs)) = 5 \<and> length (frame 64 xs 4) = 64 \<and> frame 64 xs 4 ! 63 = (191, 0)"
proof -
  have "n_frames 64 200 = 5" by (simp add: n_frames_def)
  then show ?thesis
    using welch_frames_in_bounds [of processor64 "map (\<lambda>i. (real i, 0)) [0..<200]"]
    by (simp add: processor64_ok Let_def del: upt_Suc)
qed

text \<open>A configuration with \<open>fft_size\<close> 65536 loads and its processor is built, but the first
  dwell it processes overflows \<open>fft_size_ * fft_size_\<close>, whatever the samples.\<close>

theorem accepted_size_overflows:
  "\<exists>s p. check_sweep (default_sweep\<lparr>fft_size := 65536\<rparr>) = Inr s \<and>
     new_processor (fft_size s) (cfar_guard_bins s) (cfar_ref_bins s) = Inr p \<and>
     (\<forall>fft x. compute_spectrum fft p (map x [0..<nat (dwell_samples s)]) = None)"
proof -
  let ?s = "default_sweep\<lparr>fft_size := 65536\<rparr>"
  have accepted: "check_sweep ?s = Inr (?s\<lparr>dwell_samples := 65536\<rparr>)"
    by (simp add: check_sweep_def default_sweep_def Let_def round_eval)
  obtain p where p: "new_processor 65536 8 32 = Inr p"
    using new_processor_Inr [of 65536 8 32] by (auto intro: exI [of _ 16])
  note size = new_processor_ok [OF p]
  have "compute_spectrum fft p (map x [0..<65536]) = None" for fft x
  proof -
    have "[0..n_frames 65536 65536 - 1] = [0]" by (simp add: n_frames_def)
    then show ?thesis
      using size by (simp add: compute_spectrum_def Let_def accum_frame_overflow del: upt_Suc)
  qed
  then show ?thesis
    using accepted p by (auto simp: default_sweep_def)
qed

end
