(* ===== verification/Scanner.thy ===== *)
theory Scanner
  imports Detector
begin

section \<open>One dwell of the scanner (\<open>SpectrumScanner.cpp\<close>, \<open>processDwell\<close>)\<close>

text \<open>
  The state a scanner keeps per channel (processor, noise-floor maps, persistence maps), the
  operation that turns one dwell into detections, and the loop over the channels of a dwell. The
  maps of the source are maps, indexed by frequencies held in 64-bit words; the wall clock is the
  argument \<open>now\<close> (per channel where several read it). The hit and miss counters are \<open>int\<close> in the source; they are unbounded here,
  which excludes more than \<open>2 ^ 31\<close> hits of one bucket. The sweep loop that calls this is in
  \<open>SweepLoop\<close>.
\<close>

record persist_entry =
  hits :: int
  misses :: int
  entry_peak_db :: real

record scanner =
  sc_cfg :: sweep_config
  processors :: "fft_processor list"
  ch_noise_floor :: "(64 word \<rightharpoonup> real list) list"
  ch_persist :: "(64 word \<rightharpoonup> (64 word \<rightharpoonup> persist_entry)) list"

definition persist_freq_quant_hz :: "64 word" where "persist_freq_quant_hz = 10000"
definition persist_min_hits :: int where "persist_min_hits = 2"
definition persist_max_misses :: int where "persist_max_misses = 4"
definition persist_bypass_papr_db :: real where "persist_bypass_papr_db = 15"
definition snap_samples :: nat where "snap_samples = 1024"

definition new_entry :: persist_entry where
  "new_entry = \<lparr>hits = 0, misses = 0, entry_peak_db = - 300\<rparr>"

definition new_scanner :: "sweep_config \<Rightarrow> (fft_error, scanner) result" where
  "new_scanner cfg =
     (let n_ch = nat (rx_channels (device cfg)); s = sweep cfg
      in bind_result (if n_ch = 0 then Inr []
           else bind_result (new_processor (fft_size s) (cfar_guard_bins s) (cfar_ref_bins s))
                  (\<lambda>p. Inr (replicate n_ch p)))
         (\<lambda>ps. Inr \<lparr>sc_cfg = cfg, processors = ps, ch_noise_floor = replicate n_ch Map.empty,
                   ch_persist = replicate n_ch Map.empty\<rparr>))"

subsection \<open>Noise floor\<close>

definition ema_bin :: "real \<Rightarrow> real \<Rightarrow> real \<Rightarrow> real \<Rightarrow> real" where
  "ema_bin alpha_rise alpha_fall pdb fl =
     (let a = (if fl < pdb then alpha_rise else alpha_fall)
      in f32 (f32 (a * pdb) + f32 (f32 (1 - a) * fl)))"

definition ema_floor :: "real \<Rightarrow> real list \<Rightarrow> real list \<Rightarrow> real list" where
  "ema_floor alpha_fall pdb fl =
     (let alpha_rise = min (f32 (4 * alpha_fall)) (f32 (4 / 10))
      in map (\<lambda>k. ema_bin alpha_rise alpha_fall (pdb ! k) (fl ! k)) [0..<length fl])"

definition update_floor ::
  "real \<Rightarrow> 64 word \<Rightarrow> real list \<Rightarrow> (64 word \<rightharpoonup> real list) \<Rightarrow> (64 word \<rightharpoonup> real list)" where
  "update_floor alpha_fall center pdb floor_map =
     (case floor_map center of None \<Rightarrow> floor_map(center \<mapsto> pdb)
      | Some fl \<Rightarrow> floor_map(center \<mapsto> ema_floor alpha_fall pdb fl))"

subsection \<open>Snapshot\<close>

definition snapshot :: "sample list \<Rightarrow> real list" where
  "snapshot samples = concat (map (\<lambda>z. [fst z, snd z]) (take snap_samples samples))"

subsection \<open>Persistence filter\<close>

text \<open>What a signal contributes: its edges and centre in hertz, and its bucket.\<close>

record candidate =
  cand_f_lo :: "64 word"
  cand_f_hi :: "64 word"
  cand_fc :: real
  cand_bucket :: "64 word"
  cand_peak :: real
  cand_mean :: real

definition quantise :: "64 word \<Rightarrow> 64 word" where
  "quantise fc = fc div persist_freq_quant_hz * persist_freq_quant_hz"

definition candidate_of :: "fft_processor \<Rightarrow> real \<Rightarrow> real \<Rightarrow> signal \<Rightarrow> candidate" where
  "candidate_of proc rate center s =
     (let fc_q = bin_to_hz proc (center_bin s) rate center
      in \<lparr>cand_f_lo = u64_of_real (int_bin_to_hz proc (start_bin s) rate center),
          cand_f_hi = u64_of_real (int_bin_to_hz proc (end_bin s) rate center),
          cand_fc = fc_q, cand_bucket = quantise (u64_of_real fc_q),
          cand_peak = peak_db s, cand_mean = mean_db s\<rparr>)"

definition papr :: "candidate \<Rightarrow> real" where
  "papr c = f32 (cand_peak c - cand_mean c)"

definition strong :: "candidate \<Rightarrow> bool" where
  "strong c \<longleftrightarrow> persist_bypass_papr_db \<le> papr c"

definition hit :: "candidate \<Rightarrow> persist_entry \<Rightarrow> persist_entry" where
  "hit c pe = pe\<lparr>hits := hits pe + 1, misses := 0, entry_peak_db := max (entry_peak_db pe) (cand_peak c)\<rparr>"

record filter_state =
  fs_pmap :: "64 word \<rightharpoonup> persist_entry"
  fs_seen :: "64 word set"
  fs_out :: "candidate list"

definition filter_signal :: "filter_state \<Rightarrow> candidate \<Rightarrow> filter_state" where
  "filter_signal st c =
     (let q = cand_bucket c;
          pe = hit c (case fs_pmap st q of None \<Rightarrow> new_entry | Some e \<Rightarrow> e);
          st = st\<lparr>fs_seen := insert q (fs_seen st), fs_pmap := (fs_pmap st)(q \<mapsto> pe)\<rparr>
      in if \<not> strong c \<and> \<not> persist_min_hits \<le> hits pe then st
         else st\<lparr>fs_out := fs_out st @ [c]\<rparr>)"

definition decay_entry :: "persist_entry \<Rightarrow> persist_entry option" where
  "decay_entry pe = (if persist_max_misses < misses pe + 1 then None
     else Some (pe\<lparr>misses := misses pe + 1\<rparr>))"

definition decay :: "64 word set \<Rightarrow> (64 word \<rightharpoonup> persist_entry) \<Rightarrow> (64 word \<rightharpoonup> persist_entry)" where
  "decay seen pmap = (\<lambda>q. case pmap q of None \<Rightarrow> None
     | Some pe \<Rightarrow> if q \<in> seen then Some pe else decay_entry pe)"

definition persistence_filter ::
  "(64 word \<rightharpoonup> persist_entry) \<Rightarrow> candidate list \<Rightarrow> candidate list \<times> (64 word \<rightharpoonup> persist_entry)" where
  "persistence_filter pmap cs =
     (let st = foldl filter_signal \<lparr>fs_pmap = pmap, fs_seen = {}, fs_out = []\<rparr> cs
      in (fs_out st, decay (fs_seen st) (fs_pmap st)))"

definition detection_of ::
  "sweep_config \<Rightarrow> timestamp \<Rightarrow> nat \<Rightarrow> real list \<Rightarrow> candidate \<Rightarrow> detection" where
  "detection_of cfg now ch snap c = default_detection\<lparr>
     det_timestamp := now, center_freq_hz := cand_fc c,
     det_bandwidth_hz := (if cand_f_lo c < cand_f_hi c then f64 (real (unat (cand_f_hi c - cand_f_lo c))) else 1),
     power_db := cand_peak c, det_scanner_id := scanner_id cfg, channel := int ch,
     snr_db := papr c, iq_snapshot := Some snap,
     snapshot_sample_rate_sps := sample_rate (device cfg)\<rparr>"

subsection \<open>A dwell\<close>

definition dwell_args :: "sweep_config \<Rightarrow> detect_args" where
  "dwell_args cfg = \<lparr>da_threshold = f32 (threshold_db (sweep cfg)),
     da_usable = f32 (usable_bw_fraction (sweep cfg)), da_rate = sample_rate (device cfg),
     da_min_bw = min_signal_bw_hz (sweep cfg), da_dc_guard = dc_guard_hz (sweep cfg),
     da_papr = min_papr_db (sweep cfg), da_hist = None\<rparr>"

definition process_dwell ::
  "(sample list \<Rightarrow> sample list) \<Rightarrow> timestamp \<Rightarrow> nat \<Rightarrow> real \<Rightarrow> sample list \<Rightarrow> scanner \<Rightarrow>
   (detection list \<times> scanner) option" where
  "process_dwell fft now ch center samples sc =
     (let cfg = sc_cfg sc; center_raw = u64_of_real center
      in case compute_spectrum fft (processors sc ! ch) samples of None \<Rightarrow> None
       | Some proc \<Rightarrow>
      (case detect_from_spectrum proc (dwell_args cfg) of None \<Rightarrow> None
       | Some (sigs, proc) \<Rightarrow>
         (let floor_map = update_floor (noise_floor_alpha (sweep cfg)) center_raw (fp_power proc)
                (ch_noise_floor sc ! ch);
              pmap = (case (ch_persist sc ! ch) center_raw of None \<Rightarrow> Map.empty | Some m \<Rightarrow> m);
              (out, pmap) = persistence_filter pmap
                (map (candidate_of proc (sample_rate (device cfg)) center) sigs)
          in Some (map (detection_of cfg now ch (snapshot samples)) out,
                sc\<lparr>processors := (processors sc)[ch := proc],
                   ch_noise_floor := (ch_noise_floor sc)[ch := floor_map],
                   ch_persist := (ch_persist sc)[ch := (ch_persist sc ! ch)(center_raw \<mapsto> pmap)]\<rparr>))))"

text \<open>
  The channels of one dwell (the body of the inner loop of \<open>sweepLoop\<close>). With several channels
  the source runs them concurrently and collects the results in channel order; each touches its
  own index of the vectors only, so the order of the runs does not matter
  (\<open>process_dwell_commute\<close>) and the model runs them one after the other.
\<close>

fun process_channels ::
  "(sample list \<Rightarrow> sample list) \<Rightarrow> (nat \<Rightarrow> timestamp) \<Rightarrow> dwell \<Rightarrow> nat list \<Rightarrow> scanner \<Rightarrow>
   (detection list \<times> scanner) option" where
  "process_channels fft now d [] sc = Some ([], sc)"
| "process_channels fft now d (ch # chs) sc =
     (if int (length (ch_samples d ! ch)) < fft_size (sweep (sc_cfg sc))
      then process_channels fft now d chs sc
      else case process_dwell fft (now ch) ch (dwell_center_hz d) (ch_samples d ! ch) sc of None \<Rightarrow> None
       | Some (dets, sc) \<Rightarrow>
          (case process_channels fft now d chs sc of None \<Rightarrow> None
           | Some (dets', sc) \<Rightarrow> Some (dets @ dets', sc)))"

definition process_dwell_all ::
  "(sample list \<Rightarrow> sample list) \<Rightarrow> (nat \<Rightarrow> timestamp) \<Rightarrow> dwell \<Rightarrow> scanner \<Rightarrow>
   (detection list \<times> scanner) option" where
  "process_dwell_all fft now d sc =
     (let n_ch = min (length (ch_samples d)) (length (processors sc))
      in process_channels fft now d [0..<n_ch] sc)"

subsection \<open>The persistence filter, bucket by bucket\<close>

text \<open>
  What the filter does to one bucket, on its own: a dwell with candidates in the bucket adds one
  hit per candidate and clears the misses, a dwell without ages the entry.
\<close>

definition in_bucket :: "64 word \<Rightarrow> candidate list \<Rightarrow> candidate list" where
  "in_bucket q cs = filter (\<lambda>c. cand_bucket c = q) cs"

definition entry_or_new :: "persist_entry option \<Rightarrow> persist_entry" where
  "entry_or_new e = (case e of None \<Rightarrow> new_entry | Some e \<Rightarrow> e)"

definition bucket_step :: "candidate list \<Rightarrow> persist_entry option \<Rightarrow> persist_entry option" where
  "bucket_step hs e = (if hs = [] then Option.bind e decay_entry
     else Some (foldl (\<lambda>e c. hit c e) (entry_or_new e) hs))"

definition confirmed :: "(64 word \<rightharpoonup> persist_entry) \<Rightarrow> candidate list \<Rightarrow> nat \<Rightarrow> bool" where
  "confirmed pmap cs i \<longleftrightarrow>
     (let q = cand_bucket (cs ! i)
      in 2 \<le> hits (entry_or_new (pmap q)) + int (length (in_bucket q (take (Suc i) cs))))"

definition emitted :: "(64 word \<rightharpoonup> persist_entry) \<Rightarrow> candidate list \<Rightarrow> candidate list" where
  "emitted pmap cs = map ((!) cs) (filter (\<lambda>i. strong (cs ! i) \<or> confirmed pmap cs i) [0..<length cs])"

lemma in_bucket_simps [simp]:
  "in_bucket q [] = []"
  "in_bucket q (cs @ [c]) = in_bucket q cs @ (if cand_bucket c = q then [c] else [])"
  by (simp_all add: in_bucket_def)

lemma hits_foldl_hit: "hits (foldl (\<lambda>e c. hit c e) e hs) = hits e + int (length hs)"
  by (induction hs arbitrary: e) (simp_all add: hit_def)

lemma misses_foldl_hit: "hs \<noteq> [] \<Longrightarrow> misses (foldl (\<lambda>e c. hit c e) e hs) = 0"
  by (induction hs rule: rev_induct) (simp_all add: hit_def)

lemma emitted_snoc:
  "emitted pmap (cs @ [c]) = emitted pmap cs @
     (if strong c \<or> 2 \<le> hits (entry_or_new (pmap (cand_bucket c))) +
           int (length (in_bucket (cand_bucket c) cs)) + 1 then [c] else [])"
proof -
  have old: "map ((!) (cs @ [c])) (filter (\<lambda>i. strong ((cs @ [c]) ! i) \<or> confirmed pmap (cs @ [c]) i)
      [0..<length cs]) = emitted pmap cs"
    unfolding emitted_def
    by (intro map_cong filter_cong) (auto simp: nth_append confirmed_def Let_def)
  have new: "confirmed pmap (cs @ [c]) (length cs) \<longleftrightarrow>
      2 \<le> hits (entry_or_new (pmap (cand_bucket c))) + int (length (in_bucket (cand_bucket c) cs)) + 1"
    by (simp add: confirmed_def Let_def)
  have "emitted pmap (cs @ [c]) = map ((!) (cs @ [c])) (filter (\<lambda>i. strong ((cs @ [c]) ! i) \<or>
      confirmed pmap (cs @ [c]) i) ([0..<length cs] @ [length cs]))"
    by (simp add: emitted_def)
  also have "\<dots> = emitted pmap cs @ (if strong c \<or> confirmed pmap (cs @ [c]) (length cs) then [c] else [])"
    using old by simp
  finally show ?thesis using new by simp
qed

definition filter_run :: "(64 word \<rightharpoonup> persist_entry) \<Rightarrow> candidate list \<Rightarrow> filter_state" where
  "filter_run pmap cs = foldl filter_signal \<lparr>fs_pmap = pmap, fs_seen = {}, fs_out = []\<rparr> cs"

lemma filter_run_snoc: "filter_run pmap (cs @ [c]) = filter_signal (filter_run pmap cs) c"
  by (simp add: filter_run_def)

lemma entry_or_new_simps [simp]: "entry_or_new None = new_entry" "entry_or_new (Some e) = e"
  by (simp_all add: entry_or_new_def)

lemma filter_signal_fields:
  "fs_pmap (filter_signal st c) =
     (fs_pmap st)(cand_bucket c \<mapsto> hit c (entry_or_new (fs_pmap st (cand_bucket c))))"
  "fs_seen (filter_signal st c) = insert (cand_bucket c) (fs_seen st)"
  "fs_out (filter_signal st c) = fs_out st @
     (if strong c \<or> 2 \<le> hits (entry_or_new (fs_pmap st (cand_bucket c))) + 1 then [c] else [])"
  by (auto simp: filter_signal_def Let_def entry_or_new_def hit_def persist_min_hits_def)

lemma filter_run_pmap:
  "fs_pmap (filter_run pmap cs) q = (if in_bucket q cs = [] then pmap q
     else Some (foldl (\<lambda>e c. hit c e) (entry_or_new (pmap q)) (in_bucket q cs)))"
proof (induction cs rule: rev_induct)
  case Nil
  then show ?case by (simp add: filter_run_def)
next
  case (snoc c cs)
  show ?case
  proof (cases "cand_bucket c = q")
    case True
    then show ?thesis
      using snoc by (cases "in_bucket q cs = []") (simp_all add: filter_run_snoc filter_signal_fields)
  next
    case False
    then show ?thesis using snoc by (simp add: filter_run_snoc filter_signal_fields)
  qed
qed

lemma filter_run_seen: "q \<in> fs_seen (filter_run pmap cs) \<longleftrightarrow> in_bucket q cs \<noteq> []"
  by (induction cs rule: rev_induct)
    (auto simp: filter_run_snoc filter_signal_fields, simp add: filter_run_def)

lemma filter_run_hits:
  "hits (entry_or_new (fs_pmap (filter_run pmap cs) q)) =
     hits (entry_or_new (pmap q)) + int (length (in_bucket q cs))"
  by (simp add: filter_run_pmap hits_foldl_hit)

lemma filter_run_out: "fs_out (filter_run pmap cs) = emitted pmap cs"
proof (induction cs rule: rev_induct)
  case Nil
  then show ?case by (simp add: filter_run_def emitted_def)
next
  case (snoc c cs)
  then show ?case
    by (simp add: filter_run_snoc filter_signal_fields emitted_snoc filter_run_hits)
qed

lemma persistence_filter_out: "fst (persistence_filter pmap cs) = emitted pmap cs"
  using filter_run_out [of pmap cs] by (simp add: persistence_filter_def Let_def filter_run_def)

lemma persistence_filter_bucket:
  "snd (persistence_filter pmap cs) q = bucket_step (in_bucket q cs) (pmap q)"
proof -
  have "snd (persistence_filter pmap cs) q =
      decay (fs_seen (filter_run pmap cs)) (fs_pmap (filter_run pmap cs)) q"
    by (simp add: persistence_filter_def Let_def filter_run_def)
  then show ?thesis
    by (cases "pmap q") (auto simp: decay_def filter_run_pmap filter_run_seen bucket_step_def)
qed

subsection \<open>The entries\<close>

definition entry_ok :: "persist_entry \<Rightarrow> bool" where
  "entry_ok e \<longleftrightarrow> 1 \<le> hits e \<and> 0 \<le> misses e \<and> misses e \<le> 4"

lemma decay_entry_ok: "entry_ok e \<Longrightarrow> decay_entry e = Some e' \<Longrightarrow> entry_ok e'"
  by (auto simp: decay_entry_def entry_ok_def persist_max_misses_def split: if_splits)

lemma bucket_step_ok:
  assumes "\<And>e. eo = Some e \<Longrightarrow> entry_ok e" and "bucket_step hs eo = Some e'"
  shows "entry_ok e'"
proof (cases "hs = []")
  case True
  then show ?thesis using assms decay_entry_ok by (auto simp: bucket_step_def bind_eq_Some_conv)
next
  case False
  have "0 \<le> hits (entry_or_new eo)"
    using assms(1) by (cases eo) (auto simp: entry_or_new_def new_entry_def entry_ok_def)
  moreover have "1 \<le> length hs" using False by (cases hs) auto
  ultimately show ?thesis
    using False assms(2)
    by (auto simp: bucket_step_def entry_ok_def hits_foldl_hit misses_foldl_hit)
qed

text \<open>The life of one bucket over a sequence of dwells.\<close>

definition bucket_run :: "candidate list list \<Rightarrow> persist_entry option \<Rightarrow> persist_entry option" where
  "bucket_run dwells e = foldl (\<lambda>e hs. bucket_step hs e) e dwells"

lemma bucket_run_absent:
  assumes "entry_ok e" and "misses e = 0" and "n \<le> 4"
  shows "bucket_run (replicate n []) (Some e) = Some (e\<lparr>misses := int n\<rparr>)"
  using assms(3)
proof (induction n)
  case 0
  then show ?case using assms by (simp add: bucket_run_def)
next
  case (Suc n)
  have "replicate (Suc n) ([] :: candidate list) = replicate n [] @ [[]]"
    by (simp add: replicate_append_same)
  then show ?case
    using Suc by (simp add: bucket_run_def bucket_step_def decay_entry_def persist_max_misses_def
        del: replicate_Suc)
qed

lemma bucket_run_gone: "bucket_run (replicate n []) None = None"
  by (induction n) (simp_all add: bucket_run_def bucket_step_def)

lemma bucket_run_append: "bucket_run (ds @ ds') e = bucket_run ds' (bucket_run ds e)"
  by (simp add: bucket_run_def)

lemma bucket_run_evicted:
  assumes "entry_ok e" and "misses e = 0" and "5 \<le> n"
  shows "bucket_run (replicate n []) (Some e) = None"
proof -
  have n: "replicate n ([] :: candidate list) = replicate 4 [] @ [[]] @ replicate (n - 5) []"
    using assms(3) by (simp add: replicate_add [symmetric] flip: replicate_Suc)
  have "bucket_step [] (Some (e\<lparr>misses := 4\<rparr>)) = None"
    by (simp add: bucket_step_def decay_entry_def persist_max_misses_def)
  then have "bucket_run [[]] (bucket_run (replicate 4 []) (Some e)) = None"
    using bucket_run_absent [OF assms(1,2), of 4] by (simp add: bucket_run_def)
  then show ?thesis unfolding n bucket_run_append by (simp add: bucket_run_gone)
qed

subsection \<open>A channel works on its own slot\<close>

type_synonym channel_state =
  "fft_processor \<times> (64 word \<rightharpoonup> real list) \<times> (64 word \<rightharpoonup> (64 word \<rightharpoonup> persist_entry))"

definition get_channel :: "nat \<Rightarrow> scanner \<Rightarrow> channel_state" where
  "get_channel ch sc = (processors sc ! ch, ch_noise_floor sc ! ch, ch_persist sc ! ch)"

definition put_channel :: "nat \<Rightarrow> channel_state \<Rightarrow> scanner \<Rightarrow> scanner" where
  "put_channel ch s sc = sc\<lparr>processors := (processors sc)[ch := fst s],
     ch_noise_floor := (ch_noise_floor sc)[ch := fst (snd s)],
     ch_persist := (ch_persist sc)[ch := snd (snd s)]\<rparr>"

definition channel_step ::
  "(sample list \<Rightarrow> sample list) \<Rightarrow> timestamp \<Rightarrow> nat \<Rightarrow> real \<Rightarrow> sample list \<Rightarrow> sweep_config \<Rightarrow>
   channel_state \<Rightarrow> (detection list \<times> channel_state) option" where
  "channel_step fft now ch center samples cfg s =
     (case Option.bind (compute_spectrum fft (fst s) samples)
             (\<lambda>proc. detect_from_spectrum proc (dwell_args cfg)) of None \<Rightarrow> None
      | Some (sigs, proc) \<Rightarrow>
          (let raw = u64_of_real center; cs = map (candidate_of proc (sample_rate (device cfg)) center) sigs;
               pmap = (case snd (snd s) raw of None \<Rightarrow> Map.empty | Some m \<Rightarrow> m);
               r = persistence_filter pmap cs
           in Some (map (detection_of cfg now ch (snapshot samples)) (fst r),
                (proc, update_floor (noise_floor_alpha (sweep cfg)) raw (fp_power proc) (fst (snd s)),
                 (snd (snd s))(raw \<mapsto> snd r)))))"

lemma process_dwell_local:
  "process_dwell fft now ch center samples sc =
     map_option (\<lambda>(out, s). (out, put_channel ch s sc))
       (channel_step fft now ch center samples (sc_cfg sc) (get_channel ch sc))"
  by (simp add: process_dwell_def channel_step_def get_channel_def put_channel_def Let_def case_prod_beta
      split: option.splits)

lemma get_put_other [simp]: "i \<noteq> j \<Longrightarrow> get_channel j (put_channel i s sc) = get_channel j sc"
  by (simp add: get_channel_def put_channel_def)

lemma put_put_commute: "i \<noteq> j \<Longrightarrow> put_channel i s (put_channel j t sc) = put_channel j t (put_channel i s sc)"
  by (simp add: put_channel_def list_update_swap)

lemma put_channel_cfg [simp]: "sc_cfg (put_channel i s sc) = sc_cfg sc"
  by (simp add: put_channel_def)

definition both_channels where
  "both_channels fft nowi nowj i j center xi xj sc =
     Option.bind (process_dwell fft nowi i center xi sc)
       (\<lambda>(out, sc). map_option (\<lambda>(out', sc). (out, out', sc)) (process_dwell fft nowj j center xj sc))"

lemma both_channels_commute:
  assumes "i \<noteq> j"
  shows "both_channels fft ni nj i j center xi xj sc =
     map_option (\<lambda>(b, a, s). (a, b, s)) (both_channels fft nj ni j i center xj xi sc)"
  using assms
  by (cases "channel_step fft ni i center xi (sc_cfg sc) (get_channel i sc)";
      cases "channel_step fft nj j center xj (sc_cfg sc) (get_channel j sc)")
    (auto simp: both_channels_def process_dwell_local put_put_commute)

subsection \<open>The scanner's invariant\<close>

definition scannable :: "sweep_config \<Rightarrow> bool" where
  "scannable cfg \<longleftrightarrow> valid_sweep (sweep cfg) \<and> fft_size (sweep cfg) \<le> 32768 \<and>
     1 \<le> sample_rate (device cfg) \<and> sample_rate (device cfg) \<le> 2 ^ 40 \<and>
     0 \<le> min_signal_bw_hz (sweep cfg) \<and> min_signal_bw_hz (sweep cfg) \<le> sample_rate (device cfg) \<and>
     dc_guard_hz (sweep cfg) \<le> sample_rate (device cfg) \<and>
     cfar_guard_bins (sweep cfg) \<le> 2 ^ 20 \<and> cfar_ref_bins (sweep cfg) \<le> 2 ^ 20"

definition floors_ok :: "int \<Rightarrow> (64 word \<rightharpoonup> real list) \<Rightarrow> bool" where
  "floors_ok n m \<longleftrightarrow> (\<forall>f\<in>ran m. length f = nat n)"

definition persist_ok :: "(64 word \<rightharpoonup> (64 word \<rightharpoonup> persist_entry)) \<Rightarrow> bool" where
  "persist_ok m \<longleftrightarrow> (\<forall>pm\<in>ran m. \<forall>e\<in>ran pm. entry_ok e)"

definition channel_ok :: "sweep_config \<Rightarrow> channel_state \<Rightarrow> bool" where
  "channel_ok cfg s \<longleftrightarrow> processor_ok (fst s) \<and> fp_size (fst s) = fft_size (sweep cfg) \<and>
     fp_guard (fst s) = cfar_guard_bins (sweep cfg) \<and> fp_ref (fst s) = cfar_ref_bins (sweep cfg) \<and>
     floors_ok (fft_size (sweep cfg)) (fst (snd s)) \<and> persist_ok (snd (snd s))"

definition scanner_ok :: "scanner \<Rightarrow> bool" where
  "scanner_ok sc \<longleftrightarrow> length (ch_noise_floor sc) = length (processors sc) \<and>
     length (ch_persist sc) = length (processors sc) \<and>
     (\<forall>ch < length (processors sc). channel_ok (sc_cfg sc) (get_channel ch sc))"

lemma dwell_args_ok: "scannable cfg \<Longrightarrow> detect_args_ok (dwell_args cfg)"
  by (auto simp: scannable_def valid_sweep_def detect_args_ok_def dwell_args_def
      intro: r32.fl_nonneg r32.fl_le_fixed)

lemma persistence_filter_ok:
  assumes "\<forall>e\<in>ran pm. entry_ok e" and "e \<in> ran (snd (persistence_filter pm cs))"
  shows "entry_ok e"
proof -
  obtain q where "snd (persistence_filter pm cs) q = Some e"
    using assms(2) by (auto simp: ran_def)
  then have "bucket_step (in_bucket q cs) (pm q) = Some e"
    by (simp add: persistence_filter_bucket)
  then show ?thesis
    using bucket_step_ok [of "pm q" "in_bucket q cs" e] assms(1) by (auto simp: ran_def)
qed

lemma update_floor_ok:
  "floors_ok n m \<Longrightarrow> length pdb = nat n \<Longrightarrow> floors_ok n (update_floor al c pdb m)"
  by (auto simp: floors_ok_def update_floor_def ema_floor_def Let_def ran_def split: option.splits if_splits)

lemma detect_setup_keeps:
  assumes "detect_setup p a = Some (c, q)" and "processor_ok p" and "fp_size p < 2 ^ 31"
    and "0 \<le> da_usable a" and "da_usable a \<le> 1"
  shows "same_setup p q" and "processor_ok q"
  using detect_setup_Some(2,3) [OF assms, of "Min (set (fp_power p))"] by auto

lemma channel_step_ok:
  assumes cfg: "scannable cfg" and ok: "channel_ok cfg s"
  shows "\<exists>out s'. channel_step fft now ch center samples cfg s = Some (out, s') \<and> channel_ok cfg s'"
proof -
  have p: "processor_ok (fst s)" and size: "fp_size (fst s) = fft_size (sweep cfg)"
    "fp_guard (fst s) = cfar_guard_bins (sweep cfg)" "fp_ref (fst s) = cfar_ref_bins (sweep cfg)"
    using ok by (auto simp: channel_ok_def)
  have small: "fft_size (sweep cfg) \<le> 32768" using cfg by (simp add: scannable_def)
  obtain q where q: "compute_spectrum fft (fst s) samples = Some q"
    using compute_spectrum_total_lemma [OF p] small size by auto
  have q_ok: "same_setup (fst s) q" "processor_ok q"
    using compute_spectrum_Some(1,2) [OF p q] compute_spectrum_short [of samples "fst s" fft] q p
    by (cases "int (length samples) < fp_size (fst s)"; force)+
  have "fp_size q + fp_guard q + max 1 (fp_ref q) < 2 ^ 31"
    using cfg q_ok(1) small by (auto simp: size same_setup_def scannable_def)
  then obtain c r where cr: "detect_setup q (dwell_args cfg) = Some (c, r)"
    using detect_setup_total [OF q_ok(2) _ dwell_args_ok [OF cfg]] q_ok(1) small
    by (auto simp: same_setup_def size)
  have "same_setup q r" and r_ok: "processor_ok r"
    using detect_setup_keeps [OF cr q_ok(2)] dwell_args_ok [OF cfg] q_ok(1) small
    by (auto simp: same_setup_def size detect_args_ok_def)
  then have r: "same_setup (fst s) r" using q_ok(1) same_setup_trans by blast
  let ?raw = "u64_of_real center"
  let ?pm = "case snd (snd s) ?raw of None \<Rightarrow> Map.empty | Some m \<Rightarrow> m"
  have pm: "\<forall>e\<in>ran ?pm. entry_ok e"
    using ok by (auto simp: channel_ok_def persist_ok_def ran_def split: option.splits)
  have persist: "persist_ok ((snd (snd s))(?raw \<mapsto> snd (persistence_filter ?pm cs)))" for cs
    using ok persistence_filter_ok [OF pm, of _ cs]
    by (simp add: channel_ok_def persist_ok_def ran_def) blast
  have "floors_ok (fft_size (sweep cfg))
      (update_floor al ?raw (fp_power r) (fst (snd s)))" for al
    using ok r r_ok by (intro update_floor_ok) (auto simp: channel_ok_def processor_ok_def same_setup_def)
  then show ?thesis
    using q cr r r_ok persist size
    by (auto simp: channel_step_def detect_from_spectrum_def Let_def channel_ok_def same_setup_def)
qed

lemma put_channel_ok:
  assumes "scanner_ok sc" and "channel_ok (sc_cfg sc) s"
  shows "scanner_ok (put_channel ch s sc)"
proof -
  have "get_channel i (put_channel ch s sc) = s \<or> get_channel i (put_channel ch s sc) = get_channel i sc"
    if "i < length (processors sc)" for i
    using assms(1) that by (cases "i = ch") (auto simp: put_channel_def get_channel_def scanner_ok_def)
  moreover have "length (processors (put_channel ch s sc)) = length (processors sc)"
    "length (ch_noise_floor (put_channel ch s sc)) = length (ch_noise_floor sc)"
    "length (ch_persist (put_channel ch s sc)) = length (ch_persist sc)"
    by (simp_all add: put_channel_def)
  ultimately show ?thesis using assms unfolding scanner_ok_def by (metis put_channel_cfg)
qed

lemma process_dwell_ok:
  assumes "scannable (sc_cfg sc)" and "scanner_ok sc" and "ch < length (processors sc)"
  shows "\<exists>out s. process_dwell fft now ch center samples sc = Some (out, put_channel ch s sc) \<and>
     scanner_ok (put_channel ch s sc)"
proof -
  have "channel_ok (sc_cfg sc) (get_channel ch sc)" using assms by (simp add: scanner_ok_def)
  then obtain out s where "channel_step fft now ch center samples (sc_cfg sc) (get_channel ch sc) =
      Some (out, s)" and "channel_ok (sc_cfg sc) s"
    using channel_step_ok [OF assms(1)] by blast
  then have "process_dwell fft now ch center samples sc = Some (out, put_channel ch s sc)"
    and "scanner_ok (put_channel ch s sc)"
    using put_channel_ok [OF assms(2), of s ch] by (simp_all add: process_dwell_local)
  then show ?thesis by blast
qed

lemma process_channels_ok:
  assumes "scannable (sc_cfg sc)" and "scanner_ok sc" and "\<forall>ch\<in>set chs. ch < length (processors sc)"
  shows "\<exists>out sc'. process_channels fft now d chs sc = Some (out, sc') \<and> scanner_ok sc' \<and>
     sc_cfg sc' = sc_cfg sc \<and> length (processors sc') = length (processors sc)"
  using assms
proof (induction chs arbitrary: sc)
  case (Cons ch chs)
  show ?case
  proof (cases "int (length (ch_samples d ! ch)) < fft_size (sweep (sc_cfg sc))")
    case True
    then show ?thesis using Cons by simp
  next
    case False
    obtain out s where step: "process_dwell fft (now ch) ch (dwell_center_hz d) (ch_samples d ! ch) sc =
        Some (out, put_channel ch s sc)" and ok: "scanner_ok (put_channel ch s sc)"
      using process_dwell_ok [OF Cons.prems(1,2), of ch fft "now ch" "dwell_center_hz d" "ch_samples d ! ch"]
        Cons.prems(3) by (metis list.set_intros(1))
    have len: "length (processors (put_channel ch s sc)) = length (processors sc)"
      by (simp add: put_channel_def)
    obtain out' sc' where rest: "process_channels fft now d chs (put_channel ch s sc) = Some (out', sc')"
      and ok': "scanner_ok sc'" "sc_cfg sc' = sc_cfg sc" "length (processors sc') = length (processors sc)"
      using Cons.IH [of "put_channel ch s sc"] Cons.prems(1,3) ok len by auto
    have "process_channels fft now d (ch # chs) sc = Some (out @ out', sc')"
      using False step rest by simp
    then show ?thesis using ok' by blast
  qed
qed simp

lemma process_dwell_all_ok:
  assumes "scannable (sc_cfg sc)" and "scanner_ok sc"
  shows "\<exists>out sc'. process_dwell_all fft now d sc = Some (out, sc') \<and> scanner_ok sc' \<and>
     sc_cfg sc' = sc_cfg sc"
  using process_channels_ok [OF assms, of "[0..<min (length (ch_samples d)) (length (processors sc))]" fft now d]
  by (auto simp: process_dwell_all_def Let_def)

lemma new_scanner_ok:
  assumes "new_scanner cfg = Inr sc"
  shows "scanner_ok sc \<and> sc_cfg sc = cfg \<and> length (processors sc) = nat (rx_channels (device cfg))"
proof -
  have empty: "floors_ok n Map.empty" "persist_ok Map.empty" for n
    by (simp_all add: floors_ok_def persist_ok_def)
  show ?thesis
  proof (cases "nat (rx_channels (device cfg)) = 0")
    case True
    then show ?thesis using assms by (auto simp: new_scanner_def Let_def scanner_ok_def)
  next
    case False
    then obtain p where p: "new_processor (fft_size (sweep cfg)) (cfar_guard_bins (sweep cfg))
        (cfar_ref_bins (sweep cfg)) = Inr p"
      and sc: "sc = \<lparr>sc_cfg = cfg, processors = replicate (nat (rx_channels (device cfg))) p,
        ch_noise_floor = replicate (nat (rx_channels (device cfg))) Map.empty,
        ch_persist = replicate (nat (rx_channels (device cfg))) Map.empty\<rparr>"
      using assms by (auto simp: new_scanner_def Let_def bind_result_Inr)
    show ?thesis
      using new_processor_ok [OF p] empty
      by (simp add: sc scanner_ok_def get_channel_def channel_ok_def)
  qed
qed

lemma new_scanner_Inr: "valid_sweep (sweep cfg) \<Longrightarrow> \<exists>sc. new_scanner cfg = Inr sc"
  using new_processor_Inr [of "fft_size (sweep cfg)" "cfar_guard_bins (sweep cfg)" "cfar_ref_bins (sweep cfg)"]
  by (auto simp: new_scanner_def Let_def valid_sweep_def)

lemma default_scannable: "scannable default_config"
proof -
  have "\<exists>k. (4096 :: int) = 2 ^ k" by (rule exI [of _ 12]) simp
  then show ?thesis
    by (auto simp: scannable_def valid_sweep_def default_config_def default_sweep_def
        default_device_def round_eval)
qed

subsection \<open>Sequences of dwells at one centre frequency\<close>

definition filter_dwells ::
  "(64 word \<rightharpoonup> persist_entry) \<Rightarrow> candidate list list \<Rightarrow> (64 word \<rightharpoonup> persist_entry)" where
  "filter_dwells pmap css = foldl (\<lambda>pm cs. snd (persistence_filter pm cs)) pmap css"

lemma filter_dwells_bucket: "filter_dwells pmap css q = bucket_run (map (in_bucket q) css) (pmap q)"
  by (induction css arbitrary: pmap) (simp_all add: filter_dwells_def bucket_run_def persistence_filter_bucket)

lemma filter_dwells_absent:
  assumes "\<forall>cs\<in>set css. in_bucket q cs = []" and "pmap q = Some e" and "entry_ok e" and "misses e = 0"
  shows "filter_dwells pmap css q =
     (if length css \<le> 4 then Some (e\<lparr>misses := int (length css)\<rparr>) else None)"
proof -
  have "map (in_bucket q) css = replicate (length css) []"
    using assms(1) by (induction css) auto
  then show ?thesis
    using assms bucket_run_absent [of e "length css"] bucket_run_evicted [of e "length css"]
    by (auto simp: filter_dwells_bucket)
qed

lemma emitted_single:
  "emitted pmap [c] = (if strong c \<or> 1 \<le> hits (entry_or_new (pmap (cand_bucket c))) then [c] else [])"
  using emitted_snoc [of pmap "[]" c] by (simp add: emitted_def)

lemma emitted_pair:
  "emitted pmap [c, c'] = emitted pmap [c] @
     (if strong c' \<or> 2 \<le> hits (entry_or_new (pmap (cand_bucket c'))) +
           (if cand_bucket c = cand_bucket c' then 2 else 1) then [c'] else [])"
  using emitted_snoc [of pmap "[c]" c'] in_bucket_simps(2) [of "cand_bucket c'" "[]" c] by simp

lemma first_hit:
  assumes "pmap (cand_bucket c) = None"
  shows "snd (persistence_filter pmap [c]) (cand_bucket c) =
     Some \<lparr>hits = 1, misses = 0, entry_peak_db = max (- 300) (cand_peak c)\<rparr>"
  using assms in_bucket_simps(2) [of "cand_bucket c" "[]" c]
  by (simp add: persistence_filter_bucket bucket_step_def hit_def new_entry_def)

subsection \<open>Properties of the scanner\<close>

text \<open>C6. From a configuration within the stated bounds every dwell, of any number of channels and
  samples and for any transform, is processed without undefined behaviour, and the scanner's
  invariant is kept: buffers of the configured size, noise floors of one value per bin, persistence
  entries with at least one hit and at most four misses. The invariant holds initially.\<close>

theorem dwell_keeps_scanner_invariant:
  assumes "scannable cfg"
  shows "(\<exists>sc. new_scanner cfg = Inr sc) \<and>
    (\<forall>sc. new_scanner cfg = Inr sc \<longrightarrow> scanner_ok sc \<and> sc_cfg sc = cfg) \<and>
    (\<forall>sc fft now d. scanner_ok sc \<and> sc_cfg sc = cfg \<longrightarrow>
       (\<exists>out sc'. process_dwell_all fft now d sc = Some (out, sc') \<and> scanner_ok sc' \<and> sc_cfg sc' = cfg))"
  using assms new_scanner_Inr new_scanner_ok process_dwell_all_ok by (force simp: scannable_def)

theorem dwell_keeps_scanner_invariant_witness:
  "\<exists>sc out sc'. new_scanner default_config = Inr sc \<and> scanner_ok sc \<and>
     process_dwell_all id (\<lambda>ch. 0) \<lparr>dwell_center_hz = 100000000, ch_samples = [replicate 4096 (1, 0)]\<rparr> sc =
       Some (out, sc') \<and> scanner_ok sc' \<and> sc_cfg sc' = default_config"
proof -
  note inv = dwell_keeps_scanner_invariant [OF default_scannable]
  then obtain sc where sc: "new_scanner default_config = Inr sc" by blast
  with inv have "scanner_ok sc" "sc_cfg sc = default_config" by blast+
  with inv sc show ?thesis by blast
qed

text \<open>C9. The persistence filter of a dwell is the product of independent filters, one per 10 kHz
  bucket: the entry of each bucket follows \<open>bucket_step\<close> on the candidates of that bucket only, and
  the candidates emitted are, in order, the strong ones and those that bring the bucket's count of
  hits to two or more.\<close>

theorem persistence_filter_refines_buckets:
  "persistence_filter pmap cs = (emitted pmap cs, \<lambda>q. bucket_step (in_bucket q cs) (pmap q))"
  by (rule prod_eqI) (simp_all add: persistence_filter_out persistence_filter_bucket fun_eq_iff)

text \<open>An entry just hit survives exactly four dwells without a candidate in its bucket, with
  its hits and peak unchanged, and is gone from the fifth on.\<close>

theorem entry_evicted_after_five_misses:
  assumes "\<forall>cs\<in>set css. in_bucket q cs = []" and "pmap q = Some e" and "entry_ok e" and "misses e = 0"
  shows "filter_dwells pmap css q =
     (if length css \<le> 4 then Some (e\<lparr>misses := int (length css)\<rparr>) else None)"
  using assms by (rule filter_dwells_absent)

theorem entry_evicted_after_five_misses_witness:
  "let e = \<lparr>hits = 2, misses = 0, entry_peak_db = - 40\<rparr>; pmap = [100000000 \<mapsto> e]
   in filter_dwells pmap (replicate 4 []) 100000000 = Some (e\<lparr>misses := 4\<rparr>) \<and>
      filter_dwells pmap (replicate 5 []) 100000000 = None"
proof -
  let ?e = "\<lparr>hits = 2, misses = 0, entry_peak_db = - 40\<rparr> :: persist_entry"
  have "filter_dwells [100000000 \<mapsto> ?e] (replicate n []) 100000000 =
      (if n \<le> 4 then Some (?e\<lparr>misses := int n\<rparr>) else None)" for n
    using entry_evicted_after_five_misses [of "replicate n []" 100000000 "[100000000 \<mapsto> ?e]" ?e]
    by (simp add: entry_ok_def)
  then show ?thesis by (simp add: Let_def)
qed

text \<open>A weak signal is not reported the first time. When it returns to its bucket it is reported
  if at most four dwells without it lie between, and starts over otherwise: the two hits need not
  be in consecutive sweeps.\<close>

theorem weak_signal_confirmed_within_gap:
  assumes "\<not> strong c" and "\<not> strong c'" and "cand_bucket c' = cand_bucket c"
    and "pmap (cand_bucket c) = None" and "\<forall>cs\<in>set gap. in_bucket (cand_bucket c) cs = []"
  shows "fst (persistence_filter pmap [c]) = [] \<and>
     fst (persistence_filter (filter_dwells (snd (persistence_filter pmap [c])) gap) [c']) =
       (if length gap \<le> 4 then [c'] else [])"
proof -
  let ?pm = "snd (persistence_filter pmap [c])"
  have "filter_dwells ?pm gap (cand_bucket c) = (if length gap \<le> 4
      then Some \<lparr>hits = 1, misses = int (length gap), entry_peak_db = max (- 300) (cand_peak c)\<rparr> else None)"
    using filter_dwells_absent [of gap "cand_bucket c" ?pm, OF assms(5)] first_hit [of pmap c] assms(4)
    by (simp add: entry_ok_def)
  then show ?thesis
    using assms by (simp add: persistence_filter_out emitted_single new_entry_def)
qed

definition weak_candidate :: candidate where
  "weak_candidate = \<lparr>cand_f_lo = 99995000, cand_f_hi = 100005000, cand_fc = 100000000,
     cand_bucket = 100000000, cand_peak = - 40, cand_mean = - 45\<rparr>"

lemma weak_candidate_weak: "\<not> strong weak_candidate" "cand_bucket weak_candidate = 100000000"
  by (simp_all add: strong_def papr_def weak_candidate_def persist_bypass_papr_db_def float_simps)

theorem weak_signal_confirmed_within_gap_witness:
  "fst (persistence_filter Map.empty [weak_candidate]) = [] \<and>
   fst (persistence_filter (filter_dwells (snd (persistence_filter Map.empty [weak_candidate]))
      (replicate 4 [])) [weak_candidate]) = [weak_candidate]"
  using weak_signal_confirmed_within_gap [of weak_candidate weak_candidate Map.empty "replicate 4 []"]
  by (simp add: weak_candidate_weak)

text \<open>Two weak signals that fall into one bucket in the same dwell count as two hits: the second
  is reported in the first sweep, without any confirmation by a later one.\<close>

theorem same_dwell_counts_twice:
  assumes "\<not> strong c" and "\<not> strong c'" and "cand_bucket c' = cand_bucket c"
    and "pmap (cand_bucket c) = None"
  shows "fst (persistence_filter pmap [c, c']) = [c']"
  using assms by (simp add: persistence_filter_out emitted_pair emitted_single new_entry_def)

theorem same_dwell_counts_twice_witness:
  "fst (persistence_filter Map.empty [weak_candidate, weak_candidate\<lparr>cand_peak := - 41\<rparr>]) =
     [weak_candidate\<lparr>cand_peak := - 41\<rparr>]"
proof -
  have "\<not> strong (weak_candidate\<lparr>cand_peak := - 41\<rparr>)"
    by (simp add: strong_def papr_def weak_candidate_def persist_bypass_papr_db_def float_simps)
  then show ?thesis
    by (intro same_dwell_counts_twice) (simp_all add: weak_candidate_weak)
qed

text \<open>Channels do not interfere: processing two channels of a dwell in either order gives the
  same detections for each and the same scanner, so the concurrent runs of \<open>sweepLoop\<close> have one
  outcome.\<close>

theorem process_dwell_commute:
  assumes "i \<noteq> j"
  shows "both_channels fft ni nj i j center xi xj sc =
     map_option (\<lambda>(b, a, s). (a, b, s)) (both_channels fft nj ni j i center xj xi sc)"
  by (rule both_channels_commute [OF assms])

theorem process_dwell_commute_witness:
  "both_channels id 1 2 0 (Suc 0) 100000000 [] [] (\<lparr>sc_cfg = default_config,
       processors = [processor64, processor64], ch_noise_floor = [Map.empty, Map.empty],
       ch_persist = [Map.empty, Map.empty]\<rparr>) =
     map_option (\<lambda>(b, a, s). (a, b, s)) (both_channels id 2 1 (Suc 0) 0 100000000 [] []
       (\<lparr>sc_cfg = default_config, processors = [processor64, processor64],
        ch_noise_floor = [Map.empty, Map.empty], ch_persist = [Map.empty, Map.empty]\<rparr>))"
  by (rule process_dwell_commute) simp

end
