(* ===== verification/Json.thy ===== *)
theory Json
  imports Types
begin

section \<open>The JSON library's interface\<close>

text \<open>
  nlohmann/json is third-party code. What the program does with it is a parameter: a record of the
  calls it makes, over an abstract type of parsed values. None is a thrown exception (a parse error,
  a value of another type, a member of something that is no object). The documents the program
  builds with initialiser lists are values of \<open>json\<close>, and \<open>json_dump\<close> serialises them.
\<close>

datatype json =
    JStr string
  | JInt int
  | JNum real
  | JBool bool
  | JArr "json list"
  | JObj "(string \<times> json) list"

record 'j json_api =
  json_parse :: "string \<Rightarrow> 'j option"
  json_dump :: "json \<Rightarrow> string"
  value_str :: "'j \<Rightarrow> string \<Rightarrow> string \<Rightarrow> string option"
  value_bool :: "'j \<Rightarrow> string \<Rightarrow> bool \<Rightarrow> bool option"
  value_int :: "'j \<Rightarrow> string \<Rightarrow> int \<Rightarrow> int option"
  value_u32 :: "'j \<Rightarrow> string \<Rightarrow> 32 word \<Rightarrow> 32 word option"
  value_i64 :: "'j \<Rightarrow> string \<Rightarrow> int \<Rightarrow> int option"
  value_num :: "'j \<Rightarrow> string \<Rightarrow> real \<Rightarrow> real option"
  json_contains :: "'j \<Rightarrow> string \<Rightarrow> bool"
  json_member :: "'j \<Rightarrow> string \<Rightarrow> 'j option"
  json_first :: "'j \<Rightarrow> 'j option"
  json_empty :: "'j \<Rightarrow> bool"

text \<open>
  One instance, for concrete examples: texts are looked up in a table of trees, and \<open>value\<close> gives
  the default for a missing key and throws on a value of another type.
\<close>

fun tree_members :: "json \<Rightarrow> (string \<times> json) list option" where
  "tree_members (JObj ms) = Some ms"
| "tree_members _ = None"

definition tree_value :: "(json \<Rightarrow> 'a option) \<Rightarrow> json \<Rightarrow> string \<Rightarrow> 'a \<Rightarrow> 'a option" where
  "tree_value get j key d = (case tree_members j of None \<Rightarrow> None
     | Some ms \<Rightarrow> (case map_of ms key of None \<Rightarrow> Some d | Some v \<Rightarrow> get v))"

fun tree_str :: "json \<Rightarrow> string option" where
  "tree_str (JStr s) = Some s" | "tree_str _ = None"

fun tree_bool :: "json \<Rightarrow> bool option" where
  "tree_bool (JBool b) = Some b" | "tree_bool _ = None"

fun tree_int :: "json \<Rightarrow> int option" where
  "tree_int (JInt i) = Some i" | "tree_int _ = None"

fun tree_num :: "json \<Rightarrow> real option" where
  "tree_num (JNum x) = Some x" | "tree_num (JInt i) = Some (of_int i)" | "tree_num _ = None"

fun tree_first :: "json \<Rightarrow> json option" where
  "tree_first (JArr (x # xs)) = Some x" | "tree_first _ = None"

fun tree_empty :: "json \<Rightarrow> bool" where
  "tree_empty (JArr xs) = (xs = [])" | "tree_empty (JObj ms) = (ms = [])" | "tree_empty _ = False"

definition tree_api :: "(string \<times> json) list \<Rightarrow> json json_api" where
  "tree_api table = \<lparr>json_parse = map_of table, json_dump = (\<lambda>j. []),
     value_str = tree_value tree_str, value_bool = tree_value tree_bool,
     value_int = tree_value tree_int, value_u32 = tree_value (\<lambda>j. map_option word_of_int (tree_int j)),
     value_i64 = tree_value tree_int, value_num = tree_value tree_num,
     json_contains = (\<lambda>j key. case tree_members j of None \<Rightarrow> False | Some ms \<Rightarrow> key \<in> fst ` set ms),
     json_member = (\<lambda>j key. case tree_members j of None \<Rightarrow> None | Some ms \<Rightarrow> map_of ms key),
     json_first = tree_first, json_empty = tree_empty\<rparr>"

end
