(* ===== verification/Machine.thy ===== *)
theory Machine
  imports Prelude
begin

section \<open>Step machines and their runs\<close>

text \<open>
  Every concurrent component is a machine: a step function, None when the action is not possible, and its
  lists of actions. The locale \<open>machine\<close> holds what is proved of runs once: how they are put together,
  invariants of a state and of the actions so far, and bounds by a measure. The locale \<open>simulation\<close> is
  that of a machine that does, action by action, what another one does. Both are interpreted by the
  machines of the program, each in its own theory.
\<close>

locale machine =
  fixes step :: "'a \<Rightarrow> 's \<Rightarrow> 's option" and run :: "'a list \<Rightarrow> 's \<Rightarrow> 's option"
  assumes run_Nil: "run [] s = Some s"
    and run_Cons: "run (a # as) s = Option.bind (step a s) (run as)"
begin

lemma run_append: "run (as @ bs) s = Option.bind (run as s) (run bs)"
  by (induction as arbitrary: s) (auto simp: run_Nil run_Cons intro: Option.bind_cong)

lemma run_single: "run [a] s = step a s"
  by (cases "step a s") (simp_all add: run_Nil run_Cons)

lemma run_snoc: "run (as @ [a]) s = Option.bind (run as s) (step a)"
  by (cases "run as s") (simp_all add: run_append run_single)

lemma run_traced:
  assumes "run as s = Some s'" and "P pre s"
    and "\<And>pre a s s'. \<lbrakk>a \<in> set as; P pre s; step a s = Some s'\<rbrakk> \<Longrightarrow> P (pre @ [a]) s'"
  shows "P (pre @ as) s'"
  using assms
proof (induction as arbitrary: s pre)
  case (Cons a as)
  then obtain t where t: "step a s = Some t" "run as t = Some s'" by (auto simp: run_Cons bind_eq_Some_conv)
  have first: "P (pre @ [a]) t" using Cons.prems(2,3) t(1) by simp
  have "P ((pre @ [a]) @ as) s'" by (rule Cons.IH [OF t(2) first]) (use Cons.prems(3) in simp)
  then show ?case by simp
qed (simp add: run_Nil)

lemma run_keeps:
  assumes "run as s = Some s'" and "P s" and "\<And>a s s'. \<lbrakk>a \<in> set as; P s; step a s = Some s'\<rbrakk> \<Longrightarrow> P s'"
  shows "P s'"
  using run_traced [of as s s' "\<lambda>_. P"] assms by blast

lemma run_bounded:
  assumes "run as s = Some s'" and "P s" and "\<And>a s s'. \<lbrakk>a \<in> set as; P s; step a s = Some s'\<rbrakk> \<Longrightarrow> P s' \<and> (m s' :: nat) < m s"
  shows "P s' \<and> length as + m s' \<le> m s"
proof -
  have "P s' \<and> length ([] @ as) + m s' \<le> m s"
    by (rule run_traced [OF assms(1), of "\<lambda>pre t. P t \<and> length pre + m t \<le> m s"]) (use assms(2,3) in fastforce)+
  then show ?thesis by simp
qed

lemma runs_to_end:
  assumes "P s" and "\<And>s. P s \<Longrightarrow> \<not> ended s \<Longrightarrow> \<exists>s'. step a s = Some s' \<and> P s' \<and> (m s' :: nat) < m s"
  shows "\<exists>n s'. n \<le> m s \<and> run (replicate n a) s = Some s' \<and> P s' \<and> ended s'"
  using assms(1)
proof (induction "m s" arbitrary: s rule: less_induct)
  case less
  show ?case
  proof (cases "ended s")
    case True
    then show ?thesis using less.prems by (intro exI [of _ 0]) (simp add: run_Nil)
  next
    case False
    then obtain t where t: "step a s = Some t" "P t" "m t < m s" using assms(2) less.prems by blast
    then obtain n s' where n: "n \<le> m t" "run (replicate n a) t = Some s'" "P s'" "ended s'" using less.hyps by blast
    then show ?thesis using t by (intro exI [of _ "Suc n"]) (simp add: run_Cons)
  qed
qed

end

locale simulation = c: machine step run + s: machine astep arun
  for step :: "'a \<Rightarrow> 's \<Rightarrow> 's option" and run and astep :: "'b \<Rightarrow> 't \<Rightarrow> 't option" and arun +
  fixes view :: "'s \<Rightarrow> 't" and act :: "'a \<Rightarrow> 's \<Rightarrow> 'b"
  assumes simulates: "step a x = Some x' \<Longrightarrow> astep (act a x') (view x) = Some (view x')"
begin

lemma run_simulates:
  assumes "run as x = Some x'"
  shows "\<exists>bs. arun bs (view x) = Some (view x') \<and> length bs = length as \<and>
    (\<forall>b\<in>set bs. \<exists>a\<in>set as. \<exists>t. b = act a t)"
proof -
  have "\<exists>bs. arun bs (view x) = Some (view x') \<and> length bs = length ([] @ as) \<and>
    (\<forall>b\<in>set bs. \<exists>a\<in>set ([] @ as). \<exists>t. b = act a t)"
  proof (rule c.run_traced [OF assms])
    show "\<exists>bs. arun bs (view x) = Some (view x) \<and> length bs = length [] \<and> (\<forall>b\<in>set bs. \<exists>a\<in>set []. \<exists>t. b = act a t)"
      by (simp add: s.run_Nil)
  next
    fix pre a y y'
    assume "\<exists>bs. arun bs (view x) = Some (view y) \<and> length bs = length pre \<and> (\<forall>b\<in>set bs. \<exists>a\<in>set pre. \<exists>t. b = act a t)"
      and y': "step a y = Some y'"
    then obtain bs where bs: "arun bs (view x) = Some (view y)" "length bs = length pre"
      "\<forall>b\<in>set bs. \<exists>a\<in>set pre. \<exists>t. b = act a t" by blast
    show "\<exists>bs. arun bs (view x) = Some (view y') \<and> length bs = length (pre @ [a]) \<and>
        (\<forall>b\<in>set bs. \<exists>a\<in>set (pre @ [a]). \<exists>t. b = act a t)"
      using bs simulates [OF y'] by (intro exI [of _ "bs @ [act a y']"]) (auto simp: s.run_snoc)
  qed
  then show ?thesis by simp
qed

end

end
