(* ===== verification/Channel.thy ===== *)
theory Channel
  imports Json Machine
begin

section \<open>The AMQP request channel (\<open>TaskAmqpChannel\<close> in \<open>TaskManagerIqSource.cpp\<close>)\<close>

text \<open>
  One connection shared by the proton thread (the callbacks) and the scanner's thread (\<open>exchange\<close>,
  \<open>send\<close>), with a mutex around the shared fields. Every critical section is one atomic action of a
  step function; the scanner's thread in \<open>exchange\<close> is the field \<open>waiter\<close>, which says where it is
  blocked. A sequence of actions is one interleaving of the two threads. \<open>start\<close> and \<open>stop\<close>, called by the
  constructor and the destructor of the source, are a machine around this one. The connection set-up
  is in theory \<open>Broker\<close>.
\<close>

record amqp_response =
  received :: bool
  resp_body :: string

definition no_response :: amqp_response where
  "no_response = \<lparr>received = False, resp_body = []\<rparr>"

datatype waiter = Idle | WaitReady string string | WaitResult string | Returned string amqp_response

datatype post = PostRequest string | PostNotice string | PostClose

record channel =
  ch_ready :: bool
  sender_open :: bool
  work_queue :: bool
  reply_addr :: string
  pending_corr :: string
  pending_result :: amqp_response
  waiter :: waiter
  work :: "post list"
  wire :: "(string \<times> string) list"
  ch_closed :: bool

definition new_channel :: channel where
  "new_channel = \<lparr>ch_ready = False, sender_open = False, work_queue = False, reply_addr = [],
     pending_corr = [], pending_result = no_response, waiter = Idle, work = [], wire = [], ch_closed = False\<rparr>"

datatype chan_action =
    ConnectionOpen
  | ReceiverOpen string
  | MessageIn string
  | TransportError
  | RunWork
  | CallExchange string string
  | ReadyWake
  | ReadyTimeout
  | ResultWake
  | ResultTimeout
  | CallSend string

text \<open>The condition of \<open>on_message\<close>, with \<open>||\<close> from left to right; a throw is swallowed (False).\<close>

definition answers :: "'j json_api \<Rightarrow> string \<Rightarrow> string \<Rightarrow> bool" where
  "answers api b corr = (case json_parse api b of None \<Rightarrow> False
     | Some j \<Rightarrow> (case value_str api j ''request_id'' [] of None \<Rightarrow> False
        | Some r \<Rightarrow> r = corr \<or> value_str api j ''correlation_id'' [] = Some corr))"

definition on_response :: "'j json_api \<Rightarrow> string \<Rightarrow> channel \<Rightarrow> channel" where
  "on_response api b c =
     (if pending_corr c \<noteq> [] \<and> answers api b (pending_corr c)
      then c\<lparr>pending_result := \<lparr>received = True, resp_body = b\<rparr>, pending_corr := []\<rparr> else c)"

definition begin_exchange :: "string \<Rightarrow> string \<Rightarrow> channel \<Rightarrow> channel" where
  "begin_exchange b corr c =
     c\<lparr>pending_corr := corr, pending_result := no_response, waiter := WaitResult corr,
       work := work c @ (if work_queue c then [PostRequest b] else [])\<rparr>"

definition send_notice :: "string \<Rightarrow> channel \<Rightarrow> channel" where
  "send_notice b c = (if ch_ready c \<and> work_queue c then c\<lparr>work := work c @ [PostNotice b]\<rparr> else c)"

fun run_post :: "post \<Rightarrow> channel \<Rightarrow> channel" where
  "run_post (PostRequest b) c = (if sender_open c then c\<lparr>wire := wire c @ [(b, reply_addr c)]\<rparr> else c)"
| "run_post (PostNotice b) c = c\<lparr>wire := wire c @ [(b, [])]\<rparr>"
| "run_post PostClose c = c\<lparr>ch_closed := True\<rparr>"

fun chan_step :: "'j json_api \<Rightarrow> chan_action \<Rightarrow> channel \<Rightarrow> channel option" where
  "chan_step api ConnectionOpen c = Some (c\<lparr>sender_open := True\<rparr>)"
| "chan_step api (ReceiverOpen addr) c =
     Some (c\<lparr>reply_addr := addr, work_queue := True, ch_ready := True\<rparr>)"
| "chan_step api (MessageIn b) c = Some (on_response api b c)"
| "chan_step api TransportError c = Some (c\<lparr>ch_ready := False, reply_addr := []\<rparr>)"
| "chan_step api RunWork c = (case work c of [] \<Rightarrow> None
     | p # ps \<Rightarrow> Some (run_post p (c\<lparr>work := ps\<rparr>)))"
| "chan_step api (CallExchange b corr) c = (case waiter c of
       WaitReady _ _ \<Rightarrow> None | WaitResult _ \<Rightarrow> None
     | _ \<Rightarrow> Some (c\<lparr>waiter := WaitReady b corr\<rparr>))"
| "chan_step api ReadyWake c = (case waiter c of
       WaitReady b corr \<Rightarrow> if ch_ready c then Some (begin_exchange b corr c) else None
     | _ \<Rightarrow> None)"
| "chan_step api ReadyTimeout c = (case waiter c of
       WaitReady b corr \<Rightarrow> if ch_ready c then None else Some (c\<lparr>waiter := Returned corr no_response\<rparr>)
     | _ \<Rightarrow> None)"
| "chan_step api ResultWake c = (case waiter c of
       WaitResult corr \<Rightarrow> if received (pending_result c)
         then Some (c\<lparr>waiter := Returned corr (pending_result c)\<rparr>) else None
     | _ \<Rightarrow> None)"
| "chan_step api ResultTimeout c = (case waiter c of
       WaitResult corr \<Rightarrow> Some (c\<lparr>waiter := Returned corr (pending_result c)\<rparr>)
     | _ \<Rightarrow> None)"
| "chan_step api (CallSend b) c = Some (send_notice b c)"

fun chan_run :: "'j json_api \<Rightarrow> chan_action list \<Rightarrow> channel \<Rightarrow> channel option" where
  "chan_run api [] c = Some c"
| "chan_run api (a # as) c = Option.bind (chan_step api a c) (chan_run api as)"

interpretation chan: machine "chan_step api" "chan_run api" for api :: "'j json_api"
  by unfold_locales simp_all

subsection \<open>An exchange returns its own response\<close>

text \<open>
  \<open>fresh_response acts b\<close>: \<open>b\<close> came in after the last call of \<open>exchange\<close>. The invariant relates the
  fields to the actions so far.
\<close>

definition fresh_response :: "chan_action list \<Rightarrow> string \<Rightarrow> bool" where
  "fresh_response acts b \<longleftrightarrow>
     (\<exists>pre post. acts = pre @ MessageIn b # post \<and> (\<forall>x y. CallExchange x y \<notin> set post))"

definition good_response :: "'j json_api \<Rightarrow> chan_action list \<Rightarrow> string \<Rightarrow> amqp_response \<Rightarrow> bool" where
  "good_response api acts corr r \<longleftrightarrow>
     (received r \<longrightarrow> corr \<noteq> [] \<and> answers api (resp_body r) corr \<and> fresh_response acts (resp_body r))"

definition channel_inv :: "'j json_api \<Rightarrow> chan_action list \<Rightarrow> channel \<Rightarrow> bool" where
  "channel_inv api acts c \<longleftrightarrow> (case waiter c of
       WaitResult corr \<Rightarrow> (pending_corr c = [] \<or> pending_corr c = corr) \<and>
         good_response api acts corr (pending_result c)
     | Returned corr r \<Rightarrow> good_response api acts corr r
     | _ \<Rightarrow> True)"

lemma no_response_simps [simp]: "received no_response = False"
  by (simp add: no_response_def)

lemma fresh_response_snoc:
  assumes "fresh_response acts b" and "\<forall>x y. a \<noteq> CallExchange x y"
  shows "fresh_response (acts @ [a]) b"
proof -
  obtain pre post where acts: "acts = pre @ MessageIn b # post"
    and quiet: "\<forall>x y. CallExchange x y \<notin> set post"
    using assms(1) by (auto simp: fresh_response_def)
  have "acts @ [a] = pre @ MessageIn b # (post @ [a])" using acts by simp
  moreover have "\<forall>x y. CallExchange x y \<notin> set (post @ [a])" using quiet assms(2) by auto
  ultimately show ?thesis unfolding fresh_response_def by blast
qed

lemma fresh_response_new: "fresh_response (acts @ [MessageIn b]) b"
  unfolding fresh_response_def by force

lemma good_response_snoc:
  "good_response api acts corr r \<Longrightarrow> (\<forall>x y. a \<noteq> CallExchange x y) \<Longrightarrow>
     good_response api (acts @ [a]) corr r"
  by (auto simp: good_response_def intro: fresh_response_snoc)

lemma run_post_fields [simp]:
  "waiter (run_post p c) = waiter c" "pending_corr (run_post p c) = pending_corr c"
  "pending_result (run_post p c) = pending_result c"
  by (cases p; simp)+

lemma channel_inv_step:
  assumes "channel_inv api acts c" and "chan_step api a c = Some c'"
  shows "channel_inv api (acts @ [a]) c'"
proof (cases "\<exists>x y. a = CallExchange x y")
  case True
  then show ?thesis using assms(2) by (auto simp: channel_inv_def split: waiter.splits)
next
  case False
  then have keep: "good_response api acts corr r \<Longrightarrow> good_response api (acts @ [a]) corr r" for corr r
    by (simp add: good_response_snoc)
  show ?thesis
  proof (cases a)
    case (MessageIn b)
    have c': "c' = on_response api b c" using assms(2) MessageIn by simp
    show ?thesis
    proof (cases "pending_corr c \<noteq> [] \<and> answers api b (pending_corr c)")
      case True
      then show ?thesis
        using assms(1) keep
        by (auto simp: channel_inv_def c' on_response_def good_response_def MessageIn fresh_response_new
            split: waiter.splits)
    next
      case False
      then have "c' = c" by (simp only: c' on_response_def if_False)
      then show ?thesis
        using assms(1) keep by (auto simp: channel_inv_def split: waiter.splits)
    qed
  qed (use assms keep in \<open>auto simp: channel_inv_def begin_exchange_def send_notice_def good_response_def
      split: waiter.splits if_splits list.splits\<close>)
qed

lemma channel_inv_run:
  assumes "chan_run api acts new_channel = Some c"
  shows "channel_inv api acts c"
proof -
  have "channel_inv api [] new_channel" by (simp add: channel_inv_def new_channel_def)
  then have "channel_inv api ([] @ acts) c" by (rule chan.run_traced [OF assms, of "channel_inv api"]) (rule channel_inv_step)
  then show ?thesis by simp
qed

subsection \<open>Later traffic does not disturb a delivered response\<close>

fun callback_action :: "chan_action \<Rightarrow> bool" where
  "callback_action ConnectionOpen = True"
| "callback_action (ReceiverOpen addr) = True"
| "callback_action (MessageIn b) = True"
| "callback_action TransportError = True"
| "callback_action _ = False"

lemma callback_keeps_result:
  assumes "callback_action a" and "pending_corr c = []"
  shows "\<exists>c'. chan_step api a c = Some c' \<and> waiter c' = waiter c \<and> pending_corr c' = [] \<and>
     pending_result c' = pending_result c"
  using assms by (cases a) (auto simp: on_response_def)

lemma callbacks_keep_result:
  assumes "list_all callback_action acts" and "pending_corr c = []"
  shows "\<exists>c'. chan_run api acts c = Some c' \<and> waiter c' = waiter c \<and> pending_corr c' = [] \<and>
     pending_result c' = pending_result c"
  using assms
proof (induction acts arbitrary: c)
  case (Cons a acts)
  then obtain c1 where "chan_step api a c = Some c1" "waiter c1 = waiter c" "pending_corr c1 = []"
    "pending_result c1 = pending_result c"
    using callback_keeps_result [of a c api] by auto
  then show ?case using Cons.IH [of c1] Cons.prems by auto
qed simp

subsection \<open>Properties of the channel\<close>

text \<open>C7. In every interleaving of the scanner's thread with the connection's callbacks, a response that
  \<open>exchange\<close> returns carries the identifier of this request, as request or correlation id, and
  came in after the call: an answer to another request, or one that was already there, is never
  handed out.\<close>

theorem exchange_returns_own_response:
  assumes "chan_run api acts new_channel = Some c" and "waiter c = Returned corr r" and "received r"
  shows "corr \<noteq> [] \<and> answers api (resp_body r) corr \<and> fresh_response acts (resp_body r)"
  using channel_inv_run [OF assms(1)] assms(2,3) by (simp add: channel_inv_def good_response_def)

definition sample_answers :: "(string \<times> json) list" where
  "sample_answers = [(''late'', JObj [(''request_id'', JStr ''acq-0'')]),
     (''ok'', JObj [(''request_id'', JStr ''acq-1''), (''status'', JStr ''ACCEPTED'')])]"

definition sample_actions :: "chan_action list" where
  "sample_actions = [ConnectionOpen, ReceiverOpen ''tmp'', CallExchange ''req'' ''acq-1'', MessageIn ''ok'',
     ReadyWake, RunWork, MessageIn ''late'', MessageIn ''garbage'', MessageIn ''ok'', TransportError, ResultWake]"

lemma sample_run:
  "\<exists>c. chan_run (tree_api sample_answers) sample_actions new_channel = Some c \<and>
     waiter c = Returned ''acq-1'' \<lparr>received = True, resp_body = ''ok''\<rparr> \<and>
     wire c = [(''req'', ''tmp'')]"
  by (simp add: sample_actions_def new_channel_def on_response_def begin_exchange_def answers_def
      sample_answers_def tree_api_def tree_value_def no_response_def)

theorem exchange_returns_own_response_witness:
  "\<exists>c. chan_run (tree_api sample_answers) sample_actions new_channel = Some c \<and>
     waiter c = Returned ''acq-1'' \<lparr>received = True, resp_body = ''ok''\<rparr> \<and>
     answers (tree_api sample_answers) ''ok'' ''acq-1'' \<and> fresh_response sample_actions ''ok''"
proof -
  obtain c where c: "chan_run (tree_api sample_answers) sample_actions new_channel = Some c"
    and w: "waiter c = Returned ''acq-1'' \<lparr>received = True, resp_body = ''ok''\<rparr>"
    using sample_run by blast
  show ?thesis using exchange_returns_own_response [OF c w] c w by simp
qed

text \<open>An exchange that waits for its answer ends with it once it has come in, whatever the
  callbacks do between: later messages, a lost connection, a new one.\<close>

theorem response_ends_exchange:
  assumes "waiter c = WaitResult corr" and "pending_corr c = corr" and "corr \<noteq> []"
    and "answers api b corr" and "list_all callback_action others"
  shows "\<exists>c'. chan_run api (MessageIn b # others @ [ResultWake]) c = Some c' \<and>
     waiter c' = Returned corr \<lparr>received = True, resp_body = b\<rparr>"
proof -
  let ?c = "c\<lparr>pending_result := \<lparr>received = True, resp_body = b\<rparr>, pending_corr := []\<rparr>"
  have "chan_step api (MessageIn b) c = Some ?c"
    using assms by (simp add: on_response_def)
  moreover obtain c1 where "chan_run api others ?c = Some c1" "waiter c1 = WaitResult corr"
    "pending_result c1 = \<lparr>received = True, resp_body = b\<rparr>"
    using callbacks_keep_result [OF assms(5), of ?c api] assms(1) by auto
  ultimately show ?thesis by (simp add: chan.run_append)
qed

theorem response_ends_exchange_witness:
  "\<exists>c. chan_run (tree_api sample_answers) [MessageIn ''ok'', MessageIn ''late'', TransportError, ResultWake]
       (begin_exchange ''req'' ''acq-1'' new_channel) = Some c \<and>
     waiter c = Returned ''acq-1'' \<lparr>received = True, resp_body = ''ok''\<rparr>"
  using response_ends_exchange [of "begin_exchange ''req'' ''acq-1'' new_channel" "''acq-1''"
      "tree_api sample_answers" "''ok''" "[MessageIn ''late'', TransportError]"]
  by (simp add: begin_exchange_def answers_def sample_answers_def tree_api_def tree_value_def
      del: chan_run.simps)

subsection \<open>Starting and stopping the channel\<close>

text \<open>
  \<open>start\<close> creates the container with its thread and waits for the receiver, at most 60 seconds; it returns in
  both cases. \<open>stop\<close> posts a close when a connection was ever there, else it stops the container; then it
  joins the thread. The callbacks and the posts run while the container does.
\<close>

record link =
  link_chan :: channel
  container_up :: bool
  start_waits :: bool
  stop_waits :: bool

definition new_link :: link where
  "new_link = \<lparr>link_chan = new_channel, container_up = False, start_waits = False, stop_waits = False\<rparr>"

datatype link_action = Chan chan_action | StartLink | StartReady | StartTimeout | StopLink | JoinLink

fun of_broker_thread :: "chan_action \<Rightarrow> bool" where
  "of_broker_thread RunWork = True"
| "of_broker_thread a = callback_action a"

definition not_exchanging :: "channel \<Rightarrow> bool" where
  "not_exchanging c = (case waiter c of Idle \<Rightarrow> True | Returned _ _ \<Rightarrow> True | _ \<Rightarrow> False)"

definition stop_link :: "link \<Rightarrow> link" where
  "stop_link l = (let c = link_chan l
     in if \<not> container_up l then l
        else if work_queue c then l\<lparr>link_chan := c\<lparr>work := work c @ [PostClose]\<rparr>, stop_waits := True\<rparr>
        else l\<lparr>link_chan := c\<lparr>ch_closed := True\<rparr>, stop_waits := True\<rparr>)"

definition link_step :: "'j json_api \<Rightarrow> link_action \<Rightarrow> link \<Rightarrow> link option" where
  "link_step api a l = (let c = link_chan l in case a of
       Chan a \<Rightarrow> if (if of_broker_thread a then container_up l \<and> \<not> ch_closed c else \<not> start_waits l \<and> \<not> stop_waits l)
         then map_option (\<lambda>c. l\<lparr>link_chan := c\<rparr>) (chan_step api a c) else None
     | StartLink \<Rightarrow> if container_up l \<or> ch_closed c then None else Some (l\<lparr>container_up := True, start_waits := True\<rparr>)
     | StartReady \<Rightarrow> if start_waits l \<and> ch_ready c then Some (l\<lparr>start_waits := False\<rparr>) else None
     | StartTimeout \<Rightarrow> if start_waits l \<and> \<not> ch_ready c then Some (l\<lparr>start_waits := False\<rparr>) else None
     | StopLink \<Rightarrow> if start_waits l \<or> stop_waits l \<or> \<not> not_exchanging c then None else Some (stop_link l)
     | JoinLink \<Rightarrow> if stop_waits l \<and> ch_closed c
         then Some (l\<lparr>link_chan := c\<lparr>work_queue := False\<rparr>, container_up := False, stop_waits := False\<rparr>) else None)"

fun link_run :: "'j json_api \<Rightarrow> link_action list \<Rightarrow> link \<Rightarrow> link option" where
  "link_run api [] l = Some l"
| "link_run api (a # as) l = Option.bind (link_step api a l) (link_run api as)"

interpretation links: machine "link_step api" "link_run api" for api :: "'j json_api"
  by unfold_locales simp_all

inductive link_reach :: "'j json_api \<Rightarrow> link \<Rightarrow> bool" for api where
  link_new: "link_reach api new_link"
| link_next: "link_reach api l \<Longrightarrow> link_step api a l = Some l' \<Longrightarrow> link_reach api l'"

lemma link_reach_run: "link_reach api l \<Longrightarrow> link_run api as l = Some l' \<Longrightarrow> link_reach api l'"
  by (rule links.run_keeps) (auto intro: link_reach.link_next)

text \<open>Until \<open>stop\<close> nothing is closed; while it waits, a close is the last post or the thread has ended; posts
  need a connection, and none is left behind.\<close>

definition link_inv :: "link \<Rightarrow> bool" where
  "link_inv l \<longleftrightarrow> (let c = link_chan l in
     (start_waits l \<longrightarrow> container_up l \<and> \<not> stop_waits l) \<and> (stop_waits l \<longrightarrow> container_up l) \<and>
     (ch_closed c \<longrightarrow> work c = []) \<and> (work c \<noteq> [] \<longrightarrow> work_queue c) \<and> (work_queue c \<longrightarrow> container_up l) \<and>
     (if stop_waits l then ch_closed c \<or> (\<exists>ps. work c = ps @ [PostClose] \<and> PostClose \<notin> set ps)
      else PostClose \<notin> set (work c) \<and> (container_up l \<longrightarrow> \<not> ch_closed c)))"

lemma new_link_inv: "link_inv new_link"
  by (simp add: link_inv_def new_link_def new_channel_def)

text \<open>What the channel's own actions do to the queue and the connection.\<close>

lemma run_post_link [simp]:
  "work (run_post p c) = work c" "work_queue (run_post p c) = work_queue c"
  "ch_closed (run_post p c) = (ch_closed c \<or> p = PostClose)"
  by (cases p; simp)+

lemma chan_step_link:
  assumes "chan_step api a c = Some c'"
  shows "a = RunWork \<Longrightarrow> \<exists>p. work c = p # work c' \<and> (ch_closed c' \<longleftrightarrow> ch_closed c \<or> p = PostClose) \<and> work_queue c' = work_queue c"
    and "callback_action a \<Longrightarrow> work c' = work c \<and> ch_closed c' = ch_closed c \<and> (work_queue c \<longrightarrow> work_queue c')"
    and "\<not> of_broker_thread a \<Longrightarrow> ch_closed c' = ch_closed c \<and> work_queue c' = work_queue c \<and>
      (\<exists>ps. work c' = work c @ ps \<and> PostClose \<notin> set ps \<and> (ps \<noteq> [] \<longrightarrow> work_queue c))"
proof -
  show "a = RunWork \<Longrightarrow> \<exists>p. work c = p # work c' \<and> (ch_closed c' \<longleftrightarrow> ch_closed c \<or> p = PostClose) \<and> work_queue c' = work_queue c"
    using assms by (auto split: list.splits)
  show "callback_action a \<Longrightarrow> work c' = work c \<and> ch_closed c' = ch_closed c \<and> (work_queue c \<longrightarrow> work_queue c')"
    using assms by (cases a) (auto simp: on_response_def split: if_splits)
  show "\<not> of_broker_thread a \<Longrightarrow> ch_closed c' = ch_closed c \<and> work_queue c' = work_queue c \<and>
      (\<exists>ps. work c' = work c @ ps \<and> PostClose \<notin> set ps \<and> (ps \<noteq> [] \<longrightarrow> work_queue c))"
    using assms by (cases a) (auto simp: begin_exchange_def send_notice_def split: waiter.splits if_splits)
qed

lemma link_step_inv:
  assumes "link_inv l" and "link_step api a l = Some l'"
  shows "link_inv l'"
proof (cases a)
  case (Chan b)
  obtain c' where c': "chan_step api b (link_chan l) = Some c'" and l': "l' = l\<lparr>link_chan := c'\<rparr>"
    and turn: "if of_broker_thread b then container_up l \<and> \<not> ch_closed (link_chan l) else \<not> start_waits l \<and> \<not> stop_waits l"
    using assms(2) Chan by (auto simp: link_step_def Let_def split: if_splits)
  consider (work) "b = RunWork" | (callback) "callback_action b" "of_broker_thread b" | (caller) "\<not> of_broker_thread b"
    by (cases b) simp_all
  then show ?thesis
  proof cases
    case work
    obtain p where p: "work (link_chan l) = p # work c'" "ch_closed c' \<longleftrightarrow> ch_closed (link_chan l) \<or> p = PostClose"
      "work_queue c' = work_queue (link_chan l)"
      using chan_step_link(1) [OF c' work] by blast
    show ?thesis
    proof (cases "stop_waits l")
      case True
      then obtain ps where ps: "p # work c' = ps @ [PostClose]" "PostClose \<notin> set ps"
        using assms(1) turn work p(1) by (auto simp: link_inv_def Let_def)
      then show ?thesis using assms(1) True p turn work by (cases ps) (auto simp: link_inv_def Let_def l')
    next
      case False
      then show ?thesis using assms(1) p turn work by (auto simp: link_inv_def Let_def l')
    qed
  next
    case callback
    show ?thesis using chan_step_link(2) [OF c' callback(1)] assms(1) turn callback by (auto simp: link_inv_def Let_def l')
  next
    case caller
    show ?thesis using chan_step_link(3) [OF c' caller] assms(1) turn caller by (auto simp: link_inv_def Let_def l')
  qed
qed (use assms in \<open>auto simp: link_step_def link_inv_def stop_link_def Let_def split: if_splits\<close>)

lemma link_reach_inv: "link_reach api l \<Longrightarrow> link_inv l"
  by (induction rule: link_reach.induct) (use new_link_inv link_step_inv in blast)+

lemma posts_close:
  assumes "work (link_chan l) = ps @ [PostClose]" and "PostClose \<notin> set ps" and "container_up l" and "\<not> ch_closed (link_chan l)"
  shows "\<exists>l'. link_run api (replicate (Suc (length ps)) (Chan RunWork)) l = Some l' \<and> ch_closed (link_chan l') \<and>
    stop_waits l' = stop_waits l \<and> set (wire (link_chan l)) \<union> {(b, []) |b. PostNotice b \<in> set ps} \<subseteq> set (wire (link_chan l'))"
  using assms
proof (induction ps arbitrary: l)
  case (Cons p ps)
  let ?l = "l\<lparr>link_chan := run_post p ((link_chan l)\<lparr>work := ps @ [PostClose]\<rparr>)\<rparr>"
  have step: "link_step api (Chan RunWork) l = Some ?l" using Cons.prems by (simp add: link_step_def Let_def)
  obtain l' where "link_run api (replicate (Suc (length ps)) (Chan RunWork)) ?l = Some l'" "ch_closed (link_chan l')"
      "stop_waits l' = stop_waits l"
    and w: "set (wire (link_chan ?l)) \<union> {(b, []) |b. PostNotice b \<in> set ps} \<subseteq> set (wire (link_chan l'))"
    using Cons.IH [of ?l] Cons.prems by auto
  moreover have "set (wire (link_chan l)) \<union> {(b, []) |b. PostNotice b = p} \<subseteq> set (wire (link_chan ?l))"
    by (cases p) auto
  ultimately show ?case using step by (auto intro!: exI [of _ l'])
qed (simp add: link_step_def Let_def)



end
