(* ===== verification/TaskSource.thy ===== *)
theory TaskSource
  imports Channel
begin

section \<open>The production IQ source (\<open>TaskManagerIqSource.cpp\<close>)\<close>

text \<open>
  The source's fields, the scan request it builds, \<open>submitTask\<close>, \<open>open\<close>, \<open>stop\<close>, \<open>close\<close>,
  \<open>queryDeviceCount\<close> and \<open>next\<close>. The kernel is a \<open>world\<close>: the open sockets and what was handed to
  the AMQP channel. What the outside decides is an argument: clock readings, socket results, the
  outcome of \<open>exchange\<close> (theory \<open>Channel\<close> says which responses it can return), and for \<open>next\<close> the
  list of what each \<open>recvfrom\<close> returned. The packet header is declared in a library outside the
  repository (\<open>sdr/Types.hpp\<close>): its size, fields and constants are the parameter \<open>wire_api\<close>.
\<close>

record task_src =
  src_cfg :: sweep_config
  preferred_device :: string
  src_device_required :: bool
  udp_fd :: "nat option"
  task_id :: string
  src_running :: bool
  ch_accum :: "sample list list"
  current_center_hz :: real
  first_task_packet :: bool
  resume_hz :: real
  prebound_port :: "16 word"

record world =
  open_fds :: "nat set"
  exchanged :: "json list"
  notices :: "json list"

datatype source_error = SocketFailed | BindFailed "16 word" | TaskTimedOut | TaskRejected string
  | JsonError | MissingUdpPort

definition reset_accum :: "task_src \<Rightarrow> task_src" where
  "reset_accum s = s\<lparr>ch_accum := replicate (nat (rx_channels (device (src_cfg s)))) [],
     current_center_hz := 0\<rparr>"

definition new_source :: "sweep_config \<Rightarrow> string \<Rightarrow> bool \<Rightarrow> task_src" where
  "new_source cfg dev required = reset_accum
     \<lparr>src_cfg = cfg, preferred_device = dev, src_device_required = required, udp_fd = None,
      task_id = [], src_running = False, ch_accum = [], current_center_hz = 0,
      first_task_packet = True, resume_hz = start_hz (sweep cfg), prebound_port = 0\<rparr>"

definition num_channels :: "task_src \<Rightarrow> int" where
  "num_channels s = rx_channels (device (src_cfg s))"

subsection \<open>Request identifiers\<close>

definition hex_char :: "nat \<Rightarrow> char" where
  "hex_char d = (if d < 10 then char_of (48 + d) else char_of (87 + d))"

fun show_hex :: "nat \<Rightarrow> string" where
  "show_hex n = (if n < 16 then [hex_char n] else show_hex (n div 16) @ [hex_char (n mod 16)])"

declare show_hex.simps [simp del]

definition make_req_id :: "nat \<Rightarrow> string" where
  "make_req_id ns = ''acq-'' @ show_hex ns"

subsection \<open>The scan plan\<close>

text \<open>
  The two \<open>for\<close> loops over \<open>pos\<close>: a step that does not advance never ends, so the loop is a partial
  function and None is divergence.
\<close>

partial_function (option) positions :: "real \<Rightarrow> real \<Rightarrow> real \<Rightarrow> real list option" where
  "positions step limit pos =
     (if f64 (pos + f64 (step / 2)) \<le> limit
      then Option.bind (positions step limit (f64 (pos + step))) (\<lambda>ps. Some (pos # ps))
      else Some [])"

definition step_hz :: "sweep_config \<Rightarrow> real" where
  "step_hz cfg = f64 (sample_rate (device cfg) * usable_bw_fraction (sweep cfg))"

definition dwell_ms :: "sweep_config \<Rightarrow> int option" where
  "dwell_ms cfg = (let sr = sample_rate (device cfg)
     in if sr = 0 then None
        else map_option (max 1) (int_cast (f64 (f64 (of_int (dwell_samples (sweep cfg)) * 1000) / sr))))"

definition scan_positions :: "sweep_config \<Rightarrow> real \<Rightarrow> real list option" where
  "scan_positions cfg resume =
     Option.bind (positions (step_hz cfg) (stop_hz (sweep cfg)) resume) (\<lambda>ps.
     Option.bind (positions (step_hz cfg) resume (start_hz (sweep cfg))) (\<lambda>qs. Some (ps @ qs)))"

definition entry_center :: "sweep_config \<Rightarrow> real \<Rightarrow> real" where
  "entry_center cfg pos = f64 (pos + f64 (step_hz cfg / 2))"

definition make_entry :: "sweep_config \<Rightarrow> int \<Rightarrow> nat \<Rightarrow> real \<Rightarrow> json" where
  "make_entry cfg ms i pos = JObj
     [(''step'', JInt (int i)), (''center_freq_hz'', JNum (entry_center cfg pos)),
      (''bandwidth_hz'', JNum (bandwidth_hz (device cfg))),
      (''sample_rate_sps'', JNum (sample_rate (device cfg))), (''dwell_ms'', JInt ms)]"

definition streaming_obj :: "task_src \<Rightarrow> json" where
  "streaming_obj s =
     (let ip = local_ip (receiver (src_cfg s));
          dest_ip = (if ip = ''0.0.0.0'' then ''127.0.0.1'' else ip)
      in JObj ((''dest_ip'', JStr dest_ip) #
           (if prebound_port s \<noteq> 0
            then [(''dest_ports'', JArr [JInt (int (unat (prebound_port s)))])] else [])))"

definition build_scan_request :: "task_src \<Rightarrow> int \<Rightarrow> string \<Rightarrow> json option" where
  "build_scan_request s now_ms req_id =
     (let cfg = src_cfg s
      in Option.bind (dwell_ms cfg) (\<lambda>ms.
         Option.bind (scan_positions cfg (resume_hz s)) (\<lambda>ps.
         Some (JObj
          [(''msg_type'', JStr ''TASK_REQUEST_SCAN''), (''schema_version'', JStr ''2.0''),
           (''timestamp_ms'', JInt now_ms), (''request_id'', JStr req_id), (''task_type'', JStr ''SCAN''),
           (''rank'', JInt (rank cfg)), (''schedule'', JObj [(''mode'', JStr ''CONTINUOUS'')]),
           (''rf'', JObj
             [(''center_freq_hz'', JNum (f64 (f64 (start_hz (sweep cfg) + stop_hz (sweep cfg)) / 2))),
              (''bandwidth_hz'', JNum (bandwidth_hz (device cfg))),
              (''sample_rate_sps'', JNum (sample_rate (device cfg))),
              (''rx_count'', JInt (rx_channels (device cfg))),
              (''rx_gain_db'', JArr (replicate (nat (rx_channels (device cfg))) (JNum (rx_gain_db (device cfg))))),
              (if src_device_required s then ''required_device'' else ''preferred_device'',
               JStr (preferred_device s))]),
           (''streaming'', streaming_obj s),
           (''scan_params'', JObj
             [(''repeat'', JBool False),
              (''entries'', JArr (map2 (make_entry cfg ms) [0..<length ps] ps))])]))))"

subsection \<open>Sockets\<close>

text \<open>\<open>bindUdp\<close>: \<open>sock\<close> is the descriptor that \<open>socket\<close> returned, None when it failed.\<close>

definition close_fd :: "task_src \<Rightarrow> world \<Rightarrow> task_src \<times> world" where
  "close_fd s w = (case udp_fd s of None \<Rightarrow> (s, w)
     | Some fd \<Rightarrow> (s\<lparr>udp_fd := None\<rparr>, w\<lparr>open_fds := open_fds w - {fd}\<rparr>))"

definition bind_udp :: "nat option \<Rightarrow> bool \<Rightarrow> 16 word \<Rightarrow> task_src \<Rightarrow> world \<Rightarrow>
   (source_error, unit) result \<times> task_src \<times> world" where
  "bind_udp sock bound port s w = (case sock of
       None \<Rightarrow> (Inl SocketFailed, s\<lparr>udp_fd := None\<rparr>, w)
     | Some fd \<Rightarrow>
         (let s = s\<lparr>udp_fd := Some fd\<rparr>; w = w\<lparr>open_fds := insert fd (open_fds w)\<rparr>
          in if bound then (Inr (), s, w)
             else (case close_fd s w of (s, w) \<Rightarrow> (Inl (BindFailed port), s, w))))"

subsection \<open>Submitting a task\<close>

definition read_reply :: "'j json_api \<Rightarrow> string \<Rightarrow> string \<Rightarrow> string \<times> (source_error, 16 word) result" where
  "read_reply api tid b =
     (case json_parse api b of None \<Rightarrow> (tid, Inl JsonError)
      | Some j \<Rightarrow>
     (case value_str api j ''status'' ''REJECTED'' of None \<Rightarrow> (tid, Inl JsonError)
      | Some status \<Rightarrow>
     (case (if status = ''ACCEPTED'' then Some True else value_bool api j ''accepted'' False) of
        None \<Rightarrow> (tid, Inl JsonError)
      | Some False \<Rightarrow> (tid, Inl (case value_str api j ''reject_reason'' ''unknown'' of
           None \<Rightarrow> JsonError | Some r \<Rightarrow> TaskRejected r))
      | Some True \<Rightarrow>
     (case value_str api j ''task_id'' [] of None \<Rightarrow> (tid, Inl JsonError)
      | Some tid \<Rightarrow>
          (tid, if json_contains api j ''streams''
            then (case json_member api j ''streams'' of None \<Rightarrow> Inl JsonError
              | Some ss \<Rightarrow> if json_empty api ss then Inl MissingUdpPort
                 else (case json_first api ss of None \<Rightarrow> Inl JsonError
                   | Some st \<Rightarrow> (case value_int api st ''udp_port'' 0 of None \<Rightarrow> Inl JsonError
                      | Some n \<Rightarrow> let port = word_of_int n :: 16 word
                          in if port = 0 then Inl MissingUdpPort else Inr port)))
            else Inl MissingUdpPort)))))"

record open_env =
  env_now_ns :: nat
  env_now_ms :: int
  env_socket :: "nat option"
  env_bound :: bool
  env_sock_port :: "16 word"
  env_response :: amqp_response
  env_socket2 :: "nat option"
  env_bound2 :: bool

definition submit_task :: "'j json_api \<Rightarrow> open_env \<Rightarrow> task_src \<Rightarrow> world \<Rightarrow>
   ((source_error, 16 word) result \<times> task_src \<times> world) option" where
  "submit_task api env s w =
     (case build_scan_request s (env_now_ms env) (make_req_id (env_now_ns env)) of None \<Rightarrow> None
      | Some req \<Rightarrow>
         (let w = w\<lparr>exchanged := exchanged w @ [req]\<rparr>; resp = env_response env
          in if \<not> received resp then Some (Inl TaskTimedOut, s, w)
             else (case read_reply api (task_id s) (resp_body resp) of
                (tid, r) \<Rightarrow> Some (r, s\<lparr>task_id := tid\<rparr>, w))))"

definition task_stop_doc :: "nat \<Rightarrow> int \<Rightarrow> string \<Rightarrow> json" where
  "task_stop_doc ns now_ms tid = JObj
     [(''msg_type'', JStr ''TASK_STOP''), (''schema_version'', JStr ''2.0''),
      (''timestamp_ms'', JInt now_ms), (''request_id'', JStr (make_req_id ns)),
      (''task_id'', JStr tid), (''reason'', JStr ''scanner stopping'')]"

definition send_task_stop :: "nat \<Rightarrow> int \<Rightarrow> task_src \<Rightarrow> world \<Rightarrow> task_src \<times> world" where
  "send_task_stop ns now_ms s w = (if task_id s = [] then (s, w)
     else (s\<lparr>task_id := []\<rparr>, w\<lparr>notices := notices w @ [task_stop_doc ns now_ms (task_id s)]\<rparr>))"

definition finish_open :: "open_env \<Rightarrow> 16 word \<Rightarrow> 16 word \<Rightarrow> task_src \<Rightarrow> world \<Rightarrow>
   (source_error, unit) result \<times> task_src \<times> world" where
  "finish_open env local_port ctrl_port s w =
     (let s = s\<lparr>prebound_port := 0\<rparr>;
          (r, s, w) = (if ctrl_port \<noteq> 0 \<and> ctrl_port \<noteq> local_port
             then (case close_fd s w of (s, w) \<Rightarrow> bind_udp (env_socket2 env) (env_bound2 env) ctrl_port s w)
             else (Inr (), s, w))
      in case r of Inl e \<Rightarrow> (Inl e, s, w)
       | Inr _ \<Rightarrow> (Inr (), (reset_accum s)\<lparr>first_task_packet := True, src_running := True\<rparr>, w))"

definition open_source :: "'j json_api \<Rightarrow> open_env \<Rightarrow> task_src \<Rightarrow> world \<Rightarrow>
   ((source_error, unit) result \<times> task_src \<times> world) option" where
  "open_source api env s w =
     (let port = word_of_int (rx_port (receiver (src_cfg s))) :: 16 word
      in case bind_udp (env_socket env) (env_bound env) port s w of
        (Inl e, s, w) \<Rightarrow> Some (Inl e, s, w)
      | (Inr _, s, w) \<Rightarrow>
         (let local_port = (if port = 0 then env_sock_port env else port)
          in case submit_task api env (s\<lparr>prebound_port := local_port\<rparr>) w of None \<Rightarrow> None
           | Some (Inl e, s, w) \<Rightarrow> Some (Inl e, s, w)
           | Some (Inr ctrl_port, s, w) \<Rightarrow> Some (finish_open env local_port ctrl_port s w)))"

definition stop_source :: "task_src \<Rightarrow> task_src" where
  "stop_source s = s\<lparr>src_running := False\<rparr>"

definition close_source :: "nat \<Rightarrow> int \<Rightarrow> task_src \<Rightarrow> world \<Rightarrow> task_src \<times> world" where
  "close_source ns now_ms s w =
     (case send_task_stop ns now_ms (s\<lparr>src_running := False\<rparr>) w of (s, w) \<Rightarrow> close_fd s w)"

subsection \<open>Counting devices\<close>

definition health_query_doc :: "nat \<Rightarrow> int \<Rightarrow> json" where
  "health_query_doc ns now_ms = JObj
     [(''msg_type'', JStr ''HEALTH_QUERY''), (''schema_version'', JStr ''2.0''),
      (''timestamp_ms'', JInt now_ms), (''request_id'', JStr (make_req_id ns))]"

text \<open>The retry loop: \<open>outcomes k\<close> is what the \<open>k\<close>-th \<open>exchange\<close> returns; the number of exchanges is
  returned with the last response.\<close>

function query_loop :: "(nat \<Rightarrow> amqp_response) \<Rightarrow> int \<Rightarrow> nat \<Rightarrow> amqp_response \<Rightarrow> amqp_response \<times> nat" where
  "query_loop outcomes waited k resp =
     (if waited < 300000 then
        let resp = outcomes k
        in if received resp then (resp, Suc k)
           else query_loop outcomes (waited + 60000) (Suc k) resp
      else (resp, k))"
  by pat_completeness auto
termination
  by (relation "measure (\<lambda>(outcomes, waited, k, resp). nat (300000 - waited))") auto

declare query_loop.simps [simp del]

definition query_device_count :: "'j json_api \<Rightarrow> nat \<Rightarrow> int \<Rightarrow> (nat \<Rightarrow> amqp_response) \<Rightarrow> world \<Rightarrow>
   int \<times> world" where
  "query_device_count api ns now_ms outcomes w =
     (let (resp, n) = query_loop outcomes 0 0 no_response;
          w = w\<lparr>exchanged := exchanged w @ replicate n (health_query_doc ns now_ms)\<rparr>
      in (if \<not> received resp then 1
          else case Option.bind (json_parse api (resp_body resp)) (\<lambda>j.
                 Option.bind (json_member api j ''controller'') (\<lambda>c. value_int api c ''online_devices'' 1)) of
                 None \<Rightarrow> 1 | Some n \<Rightarrow> max 1 n, w))"

subsection \<open>Receiving\<close>

text \<open>The packet header, with the fields as \<open>next\<close> converts them.\<close>

record iq_header =
  magic :: "32 word"
  flags :: "8 word"
  num_samples :: int
  channel_index :: int
  hdr_center_hz :: real

record wire_api =
  header_size :: nat
  iq_magic :: "32 word"
  flag_dwell_change :: "8 word"
  header_of :: "8 word list \<Rightarrow> iq_header"
  samples_of :: "8 word list \<Rightarrow> nat \<Rightarrow> sample list"

text \<open>
  What each \<open>recvfrom\<close> returned, in order; \<open>StopSeen\<close> is the point where the loop condition finds
  the flag that another thread's \<open>stop\<close> cleared.
\<close>

datatype recv_event = Interrupted | WouldBlock | RecvFailed | Packet "8 word list" | StopSeen

definition advance_resume :: "wire_api \<Rightarrow> 8 word list \<Rightarrow> task_src \<Rightarrow> task_src" where
  "advance_resume wa b s =
     (if header_size wa \<le> length b \<and> magic (header_of wa b) = iq_magic wa then
        let cfg = src_cfg s; next_hz = f64 (hdr_center_hz (header_of wa b) + step_hz cfg)
        in s\<lparr>resume_hz := (if stop_hz (sweep cfg) \<le> next_hz then start_hz (sweep cfg) else next_hz)\<rparr>
      else s)"

definition well_formed_packet :: "wire_api \<Rightarrow> 8 word list \<Rightarrow> bool" where
  "well_formed_packet wa b \<longleftrightarrow>
     (let h = header_of wa b
      in header_size wa \<le> length b \<and> magic h = iq_magic wa \<and> \<not> (num_samples h \<le> 0 \<or> channel_index h < 0) \<and>
         header_size wa + nat (num_samples h) * 8 \<le> length b)"

definition append_samples :: "int \<Rightarrow> sample list \<Rightarrow> task_src \<Rightarrow> task_src" where
  "append_samples ch xs s = (if ch < int (length (ch_accum s))
     then s\<lparr>ch_accum := (ch_accum s)[nat ch := ch_accum s ! nat ch @ xs]\<rparr> else s)"

definition take_dwell :: "task_src \<Rightarrow> dwell \<times> task_src" where
  "take_dwell s = (\<lparr>dwell_center_hz = current_center_hz s, ch_samples = ch_accum s\<rparr>, reset_accum s)"

text \<open>A well-formed packet, from line 606 of the source on.\<close>

definition accept_packet :: "wire_api \<Rightarrow> 8 word list \<Rightarrow> task_src \<Rightarrow> dwell option \<times> task_src" where
  "accept_packet wa b s =
     (let h = header_of wa b; xs = samples_of wa b (nat (num_samples h)); ch = channel_index h
      in if flags h AND flag_dwell_change wa \<noteq> 0 \<and> current_center_hz s \<noteq> 0 \<and>
            (\<exists>buf\<in>set (ch_accum s). buf \<noteq> [])
         then (case take_dwell s of (d, s) \<Rightarrow>
                 (Some d, append_samples ch xs (s\<lparr>current_center_hz := hdr_center_hz h\<rparr>)))
         else (let s = append_samples ch xs (s\<lparr>current_center_hz := hdr_center_hz h\<rparr>)
               in if dwell_samples (sweep (src_cfg s)) \<le> int (length (ch_accum s ! 0))
                  then (case take_dwell s of (d, s) \<Rightarrow> (Some d, s))
                  else (None, s)))"

definition on_packet :: "wire_api \<Rightarrow> 8 word list \<Rightarrow> task_src \<Rightarrow> dwell option \<times> task_src" where
  "on_packet wa b s =
     (let s = advance_resume wa b (s\<lparr>first_task_packet := False\<rparr>)
      in if well_formed_packet wa b then accept_packet wa b s else (None, s))"

definition no_data_limit :: "task_src \<Rightarrow> int" where
  "no_data_limit s = (if first_task_packet s then 30000 else 5000)"

datatype next_result = Delivered dwell | Ended | Blocked

fun next_loop :: "wire_api \<Rightarrow> recv_event list \<Rightarrow> int \<Rightarrow> task_src \<Rightarrow>
   next_result \<times> task_src \<times> recv_event list" where
  "next_loop wa [] no_data_ms s = (if src_running s then Blocked else Ended, s, [])"
| "next_loop wa (e # es) no_data_ms s =
     (if \<not> src_running s then (Ended, s, e # es)
      else case e of
        StopSeen \<Rightarrow> next_loop wa es no_data_ms (stop_source s)
      | Interrupted \<Rightarrow> next_loop wa es no_data_ms s
      | WouldBlock \<Rightarrow>
          (let no_data_ms = no_data_ms + 100
           in if no_data_limit s \<le> no_data_ms then (Ended, s, es) else next_loop wa es no_data_ms s)
      | RecvFailed \<Rightarrow> (Ended, s, es)
      | Packet b \<Rightarrow> (case on_packet wa b s of
            (Some d, s) \<Rightarrow> (Delivered d, s, es)
          | (None, s) \<Rightarrow> next_loop wa es 0 s))"

definition next_dwell :: "wire_api \<Rightarrow> recv_event list \<Rightarrow> task_src \<Rightarrow>
   next_result \<times> task_src \<times> recv_event list" where
  "next_dwell wa es s = next_loop wa es 0 s"

end
