(* ===== verification/ScanPlan.thy ===== *)
theory ScanPlan
  imports TaskSource
begin

section \<open>The scan plan (\<open>buildScanRequest\<close>)\<close>

text \<open>That the loop over the positions ends and what the plan covers, for a positive step; and that with a step of
  zero it does not end.\<close>

subsection \<open>The scan plan ends and covers the band\<close>

definition next_pos :: "real \<Rightarrow> real \<Rightarrow> real" where
  "next_pos step p = f64 (p + step)"

definition center_at :: "real \<Rightarrow> real \<Rightarrow> real" where
  "center_at step p = f64 (p + f64 (step / 2))"

lemma positions_step [step_simps]:
  "positions step limit pos =
     (if center_at step pos \<le> limit
      then Option.bind (positions step limit (next_pos step pos)) (\<lambda>ps. Some (pos # ps)) else Some [])"
  by (subst positions.simps) (simp add: center_at_def next_pos_def)

lemma center_at_floor:
  assumes "0 \<le> pos" and "0 \<le> step" and "center_at step pos \<le> limit" and "limit \<le> 2 ^ 51"
  shows "pos < 2 ^ 52" and "of_int \<lfloor>pos\<rfloor> \<le> limit"
proof -
  have half: "0 \<le> f64 (step / 2)" using assms(2) by (intro r64.fl_nonneg) simp
  show small: "pos < 2 ^ 52"
  proof (rule ccontr)
    assume "\<not> pos < 2 ^ 52"
    then have "f64 (2 ^ 52) \<le> center_at step pos"
      unfolding center_at_def using half by (intro r64.fl_mono) simp
    then show False using assms(3,4) by (simp add: float_simps)
  qed
  have "\<lfloor>pos\<rfloor> \<le> 2 ^ 53" using small by (simp add: floor_le_iff)
  then have "f64 (of_int \<lfloor>pos\<rfloor>) = of_int \<lfloor>pos\<rfloor>" using assms(1) by (intro r64.fl_int) auto
  moreover have "of_int \<lfloor>pos\<rfloor> \<le> pos + f64 (step / 2)"
    using half of_int_floor_le [of pos] by linarith
  ultimately have "of_int \<lfloor>pos\<rfloor> \<le> center_at step pos"
    unfolding center_at_def by (intro r64.fl_ge_fixed)
  then show "of_int \<lfloor>pos\<rfloor> \<le> limit" using assms(3) by simp
qed

lemma next_pos_floor:
  assumes "0 \<le> pos" and "pos < 2 ^ 52" and "1 \<le> step"
  shows "\<lfloor>pos\<rfloor> + 1 \<le> \<lfloor>next_pos step pos\<rfloor>" and "0 \<le> next_pos step pos"
proof -
  have "\<lfloor>pos\<rfloor> < 2 ^ 53" using assms(2) by (simp add: floor_less_iff)
  moreover have "- (2 ^ 53) \<le> \<lfloor>pos\<rfloor>" using assms(1) by (simp add: le_floor_iff)
  ultimately show adv: "\<lfloor>pos\<rfloor> + 1 \<le> \<lfloor>next_pos step pos\<rfloor>"
    unfolding next_pos_def by (intro r64.fl_add_advances [OF assms(3)])
  show "0 \<le> next_pos step pos" unfolding next_pos_def using assms by (intro r64.fl_nonneg) simp
qed

text \<open>
  A plan: consecutive positions, every centre at or below the limit, the next one above it.
\<close>

fun plan_from :: "real \<Rightarrow> real \<Rightarrow> real \<Rightarrow> real list \<Rightarrow> bool" where
  "plan_from step limit pos [] \<longleftrightarrow> limit < center_at step pos"
| "plan_from step limit pos (p # ps) \<longleftrightarrow>
     p = pos \<and> center_at step pos \<le> limit \<and> plan_from step limit (next_pos step pos) ps"

lemma positions_plan:
  assumes "1 \<le> step" and "limit \<le> 2 ^ 51" and "0 \<le> pos"
  shows "\<exists>ps. positions step limit pos = Some ps \<and> plan_from step limit pos ps"
  using assms(3)
proof (induction "nat (\<lfloor>limit\<rfloor> + 1 - \<lfloor>pos\<rfloor>)" arbitrary: pos rule: less_induct)
  case less
  show ?case
  proof (cases "center_at step pos \<le> limit")
    case True
    have small: "pos < 2 ^ 52" and fl: "of_int \<lfloor>pos\<rfloor> \<le> limit"
      using center_at_floor [OF less.prems _ True assms(2)] assms(1) by auto
    note adv = next_pos_floor [OF less.prems small assms(1)]
    have "\<lfloor>pos\<rfloor> \<le> \<lfloor>limit\<rfloor>" using fl by (simp add: le_floor_iff)
    then have "nat (\<lfloor>limit\<rfloor> + 1 - \<lfloor>next_pos step pos\<rfloor>) < nat (\<lfloor>limit\<rfloor> + 1 - \<lfloor>pos\<rfloor>)"
      using adv(1) by linarith
    then obtain ps where "positions step limit (next_pos step pos) = Some ps"
      and "plan_from step limit (next_pos step pos) ps"
      using less.hyps adv(2) by blast
    then show ?thesis using True by (subst positions_step) simp
  next
    case False
    then show ?thesis by (subst positions_step) auto
  qed
qed

text \<open>The end of the last window; the windows \<open>[p, next_pos p)\<close> of a plan cover everything before it.\<close>

definition plan_end :: "real \<Rightarrow> real \<Rightarrow> real list \<Rightarrow> real" where
  "plan_end step pos ps = foldl (\<lambda>_ p. next_pos step p) pos ps"

lemma plan_covers:
  assumes "plan_from step limit pos ps" and "pos \<le> f" and "f < plan_end step pos ps"
  shows "\<exists>p\<in>set ps. p \<le> f \<and> f < next_pos step p"
  using assms
proof (induction ps arbitrary: pos)
  case (Cons p ps)
  show ?case
  proof (cases "f < next_pos step pos")
    case True
    then show ?thesis using Cons.prems by auto
  next
    case False
    then have "\<exists>p\<in>set ps. p \<le> f \<and> f < next_pos step p"
      using Cons.prems by (intro Cons.IH [of "next_pos step pos"]) (auto simp: plan_end_def)
    then show ?thesis by auto
  qed
qed (simp add: plan_end_def)

lemma plan_end_reached: "plan_from step limit pos ps \<Longrightarrow> limit < center_at step (plan_end step pos ps)"
  by (induction ps arbitrary: pos) (auto simp: plan_end_def)

lemma plan_centers: "plan_from step limit pos ps \<Longrightarrow> p \<in> set ps \<Longrightarrow> center_at step p \<le> limit"
  by (induction ps arbitrary: pos) auto

lemma positions_stuck:
  assumes "next_pos step pos = pos" and "center_at step pos \<le> limit"
  shows "positions step limit pos = None"
proof (rule ccontr)
  assume "positions step limit pos \<noteq> None"
  then obtain ps where ps: "positions step limit pos = Some ps" by blast
  have "positions step limit pos = Option.bind (positions step limit pos) (\<lambda>ps. Some (pos # ps))"
    using assms by (subst positions_step) simp
  then have "ps = pos # ps" using ps by simp
  then show False by simp
qed

lemma positions_none_left: "limit < center_at step pos \<Longrightarrow> positions step limit pos = Some []"
  by (subst positions_step) simp

lemma half_step_advances:
  assumes "0 \<le> pos" and "pos \<le> 2 ^ 51" and "2 \<le> step"
  shows "pos < center_at step pos"
proof -
  have "1 \<le> f64 (step / 2)" using assms(3) by (intro r64.fl_ge_fixed) simp_all
  moreover have "\<lfloor>pos\<rfloor> < 2 ^ 53" using assms(2) by (simp add: floor_less_iff)
  moreover have "- (2 ^ 53) \<le> \<lfloor>pos\<rfloor>" using assms(1) by (simp add: le_floor_iff)
  ultimately have "\<lfloor>pos\<rfloor> + 1 \<le> \<lfloor>center_at step pos\<rfloor>"
    unfolding center_at_def by (intro r64.fl_add_advances)
  then show ?thesis by linarith
qed

lemma scan_positions_fresh:
  assumes "2 \<le> step_hz cfg" and "0 \<le> start_hz (sweep cfg)" and "start_hz (sweep cfg) \<le> 2 ^ 51"
    and "stop_hz (sweep cfg) \<le> 2 ^ 51"
  shows "\<exists>ps. scan_positions cfg (start_hz (sweep cfg)) = Some ps \<and>
     plan_from (step_hz cfg) (stop_hz (sweep cfg)) (start_hz (sweep cfg)) ps"
proof -
  obtain ps where ps: "positions (step_hz cfg) (stop_hz (sweep cfg)) (start_hz (sweep cfg)) = Some ps"
    and plan: "plan_from (step_hz cfg) (stop_hz (sweep cfg)) (start_hz (sweep cfg)) ps"
    using positions_plan [of "step_hz cfg" "stop_hz (sweep cfg)" "start_hz (sweep cfg)"] assms by auto
  have "positions (step_hz cfg) (start_hz (sweep cfg)) (start_hz (sweep cfg)) = Some []"
    using half_step_advances assms by (intro positions_none_left) auto
  then show ?thesis using ps plan by (simp add: scan_positions_def)
qed

lemma scan_positions_total:
  assumes "1 \<le> step_hz cfg" and "0 \<le> start_hz (sweep cfg)" and "stop_hz (sweep cfg) \<le> 2 ^ 51"
    and "0 \<le> resume" and "resume \<le> 2 ^ 51"
  shows "\<exists>ps qs. scan_positions cfg resume = Some (ps @ qs) \<and>
     plan_from (step_hz cfg) (stop_hz (sweep cfg)) resume ps \<and>
     plan_from (step_hz cfg) resume (start_hz (sweep cfg)) qs"
proof -
  obtain ps where ps: "positions (step_hz cfg) (stop_hz (sweep cfg)) resume = Some ps"
    "plan_from (step_hz cfg) (stop_hz (sweep cfg)) resume ps"
    using positions_plan [OF assms(1,3,4)] by blast
  obtain qs where qs: "positions (step_hz cfg) resume (start_hz (sweep cfg)) = Some qs"
    "plan_from (step_hz cfg) resume (start_hz (sweep cfg)) qs"
    using positions_plan [OF assms(1,5,2)] by blast
  then show ?thesis
    using ps by (intro exI [of _ ps] exI [of _ qs]) (simp add: scan_positions_def)
qed

subsection \<open>Properties of the plan\<close>


definition band79 :: sweep_config where
  "band79 = default_config\<lparr>sweep := default_sweep\<lparr>start_hz := 70000000, stop_hz := 79000000\<rparr>\<rparr>"

lemma band79_step: "step_hz band79 = 8000000"
  by (simp add: step_hz_def band79_def default_config_def default_sweep_def default_device_def round_eval)

lemma positions_eval:
  assumes "center_at step pos \<le> limit" and "positions step limit (next_pos step pos) = Some ps"
  shows "positions step limit pos = Some (pos # ps)"
  using assms by (subst positions_step) simp


definition rate0_xml :: "sample_element xml_api" where
  "rate0_xml = sample_xml\<lparr>
     xml_child := (\<lambda>e name. if e = Elem ''device'' \<and> name = ''sample_rate_sps'' then Some (Elem name)
        else xml_child sample_xml e name),
     xml_double := (\<lambda>e. if e = Elem ''sample_rate_sps'' then Some 0 else None)\<rparr>"

lemma rate0_loads: "\<exists>c. from_file rate0_xml ''scanner.xml'' = Inr c \<and> sample_rate (device c) = 0 \<and>
    start_hz (sweep c) = 70000000 \<and> stop_hz (sweep c) = 1000000000"
  by (simp add: from_file_def rate0_xml_def sample_xml_def Let_def need_def parse_general_def parse_bands_def
      parse_threat_def parse_p25_def parse_amqp_def parse_database_def parse_device_def parse_sweep_def
      check_sweep_def parse_receiver_def default_config_def default_sweep_def default_device_def
      query_field_def hz_field_def raw_double_field_def text_or_default_def round_eval)

text \<open>C38. Nothing checks the sample rate: a file with \<open>sample_rate_sps\<close> 0 loads, and then no scan request
  can be built (the dwell time divides by zero, and the loop over the positions would not end
  because its step is zero).\<close>

theorem zero_rate_is_accepted:
  "\<exists>c. from_file rate0_xml ''scanner.xml'' = Inr c \<and> scan_positions c (start_hz (sweep c)) = None \<and>
     build_scan_request (new_source c dev required) now_ms req_id = None"
proof -
  obtain c where c: "from_file rate0_xml ''scanner.xml'' = Inr c" "sample_rate (device c) = 0"
    "start_hz (sweep c) = 70000000" "stop_hz (sweep c) = 1000000000"
    using rate0_loads by blast
  have "step_hz c = 0" by (simp add: step_hz_def c)
  moreover have "positions 0 1000000000 70000000 = None"
    by (rule positions_stuck) (simp_all add: next_pos_def center_at_def float_simps)
  ultimately have "scan_positions c (start_hz (sweep c)) = None"
    by (simp add: scan_positions_def c)
  moreover have "dwell_ms c = None" by (simp add: dwell_ms_def c)
  ultimately show ?thesis
    using c(1) by (simp add: build_scan_request_def new_source_def reset_accum_def Let_def)
qed

end
