(* ===== verification/SampleStream.thy ===== *)
theory SampleStream
  imports TaskSource
begin

section \<open>From packets to dwells (\<open>next\<close>)\<close>

text \<open>What \<open>next\<close> does with the samples it receives, signals and silence included, and a packet format for the
  instances.\<close>

subsection \<open>What \<open>next\<close> does with the samples\<close>

definition accum_ok :: "task_src \<Rightarrow> bool" where
  "accum_ok s \<longleftrightarrow> length (ch_accum s) = nat (rx_channels (device (src_cfg s)))"

definition has_data :: "task_src \<Rightarrow> bool" where
  "has_data s \<longleftrightarrow> (\<exists>buf\<in>set (ch_accum s). buf \<noteq> [])"

text \<open>The samples a list of events carries for channel \<open>c\<close>.\<close>

definition packet_samples :: "wire_api \<Rightarrow> nat \<Rightarrow> recv_event \<Rightarrow> sample list" where
  "packet_samples wa c e = (case e of
       Packet b \<Rightarrow> if well_formed_packet wa b \<and> channel_index (header_of wa b) = int c
         then samples_of wa b (nat (num_samples (header_of wa b))) else []
     | _ \<Rightarrow> [])"

definition payload :: "wire_api \<Rightarrow> recv_event list \<Rightarrow> nat \<Rightarrow> sample list" where
  "payload wa es c = concat (map (packet_samples wa c) es)"

definition delivered_samples :: "next_result \<Rightarrow> nat \<Rightarrow> sample list" where
  "delivered_samples r c = (case r of Delivered d \<Rightarrow> ch_samples d ! c | _ \<Rightarrow> [])"

lemma payload_simps [simp]:
  "payload wa [] c = []"
  "payload wa (e # es) c = packet_samples wa c e @ payload wa es c"
  by (simp_all add: payload_def)

lemma packet_samples_other [simp]:
  "packet_samples wa c Interrupted = []" "packet_samples wa c WouldBlock = []"
  "packet_samples wa c RecvFailed = []" "packet_samples wa c StopSeen = []"
  by (simp_all add: packet_samples_def)

lemma reset_accum_fields [simp]:
  "src_cfg (reset_accum s) = src_cfg s" "accum_ok (reset_accum s)"
  "current_center_hz (reset_accum s) = 0" "src_running (reset_accum s) = src_running s"
  "resume_hz (reset_accum s) = resume_hz s" "udp_fd (reset_accum s) = udp_fd s"
  "task_id (reset_accum s) = task_id s" "\<not> has_data (reset_accum s)"
  by (auto simp: reset_accum_def accum_ok_def has_data_def)

lemma reset_accum_nth: "c < nat (rx_channels (device (src_cfg s))) \<Longrightarrow> ch_accum (reset_accum s) ! c = []"
  by (simp add: reset_accum_def)

lemma append_samples_fields [simp]:
  "src_cfg (append_samples ch xs s) = src_cfg s" "accum_ok (append_samples ch xs s) = accum_ok s"
  "current_center_hz (append_samples ch xs s) = current_center_hz s"
  "src_running (append_samples ch xs s) = src_running s"
  "resume_hz (append_samples ch xs s) = resume_hz s" "udp_fd (append_samples ch xs s) = udp_fd s"
  "task_id (append_samples ch xs s) = task_id s" "first_task_packet (append_samples ch xs s) = first_task_packet s"
  "length (ch_accum (append_samples ch xs s)) = length (ch_accum s)"
  by (simp_all add: append_samples_def accum_ok_def)

lemma append_samples_nth:
  "0 \<le> ch \<Longrightarrow> c < length (ch_accum s) \<Longrightarrow>
     ch_accum (append_samples ch xs s) ! c = ch_accum s ! c @ (if ch = int c then xs else [])"
  by (auto simp: append_samples_def nth_list_update)

lemma advance_resume_fields [simp]:
  "src_cfg (advance_resume wa b s) = src_cfg s" "ch_accum (advance_resume wa b s) = ch_accum s"
  "current_center_hz (advance_resume wa b s) = current_center_hz s"
  "src_running (advance_resume wa b s) = src_running s" "udp_fd (advance_resume wa b s) = udp_fd s"
  "task_id (advance_resume wa b s) = task_id s"
  "accum_ok (advance_resume wa b s) = accum_ok s"
  by (simp_all add: advance_resume_def Let_def accum_ok_def)

lemma accum_ok_update [simp]:
  "accum_ok (s\<lparr>current_center_hz := x\<rparr>) = accum_ok s" "accum_ok (s\<lparr>src_running := r\<rparr>) = accum_ok s"
  "accum_ok (s\<lparr>first_task_packet := f\<rparr>) = accum_ok s"
  by (simp_all add: accum_ok_def)

definition opt_samples :: "dwell option \<Rightarrow> nat \<Rightarrow> sample list" where
  "opt_samples od c = (case od of Some d \<Rightarrow> ch_samples d ! c | None \<Rightarrow> [])"

lemma accept_packet_samples:
  assumes "accept_packet wa b s = (od, s')" and "accum_ok s" and "well_formed_packet wa b"
    and c: "c < nat (rx_channels (device (src_cfg s)))"
  shows "opt_samples od c @ ch_accum s' ! c = ch_accum s ! c @ packet_samples wa c (Packet b)"
proof -
  let ?h = "header_of wa b"
  let ?xs = "samples_of wa b (nat (num_samples ?h))"
  have ch: "0 \<le> channel_index ?h" and len: "length (ch_accum s) = nat (rx_channels (device (src_cfg s)))"
    using assms(2,3) by (auto simp: well_formed_packet_def Let_def accum_ok_def)
  let ?s1 = "append_samples (channel_index ?h) ?xs (s\<lparr>current_center_hz := hdr_center_hz ?h\<rparr>)"
  let ?s2 = "append_samples (channel_index ?h) ?xs ((reset_accum s)\<lparr>current_center_hz := hdr_center_hz ?h\<rparr>)"
  have p: "packet_samples wa c (Packet b) = (if channel_index ?h = int c then ?xs else [])"
    using assms(3) by (simp add: packet_samples_def)
  have s1: "ch_accum ?s1 ! c = ch_accum s ! c @ packet_samples wa c (Packet b)"
    using append_samples_nth [OF ch, of c "s\<lparr>current_center_hz := hdr_center_hz ?h\<rparr>" ?xs] c len p by simp
  have s2: "ch_accum ?s2 ! c = packet_samples wa c (Packet b)"
    using append_samples_nth [OF ch, of c "(reset_accum s)\<lparr>current_center_hz := hdr_center_hz ?h\<rparr>" ?xs]
      c p by (simp add: reset_accum_def)
  have "od = Some \<lparr>dwell_center_hz = current_center_hz s, ch_samples = ch_accum s\<rparr> \<and> s' = ?s2 \<or>
      od = Some \<lparr>dwell_center_hz = current_center_hz ?s1, ch_samples = ch_accum ?s1\<rparr> \<and> s' = reset_accum ?s1 \<or>
      od = None \<and> s' = ?s1"
    using assms(1) unfolding accept_packet_def Let_def take_dwell_def prod.case
    by (simp only: split: if_split_asm) (simp_all only: prod.inject simp_thms)
  then show ?thesis
    using s1 s2 c by (elim disjE conjE) (simp_all add: opt_samples_def reset_accum_nth)
qed

lemma accept_packet_fields:
  assumes "accept_packet wa b s = (od, s')" and "accum_ok s"
  shows "accum_ok s' \<and> src_cfg s' = src_cfg s \<and> src_running s' = src_running s \<and>
    resume_hz s' = resume_hz s \<and> udp_fd s' = udp_fd s \<and> task_id s' = task_id s"
  using assms by (auto simp: accept_packet_def Let_def take_dwell_def split: if_splits)

lemma on_packet_fields:
  assumes "on_packet wa b s = (od, s')" and "accum_ok s"
  shows "accum_ok s' \<and> src_cfg s' = src_cfg s \<and> src_running s' = src_running s \<and>
    udp_fd s' = udp_fd s \<and> task_id s' = task_id s"
  using assms accept_packet_fields [of wa b "advance_resume wa b (s\<lparr>first_task_packet := False\<rparr>)" od s']
  by (auto simp: on_packet_def Let_def split: if_splits)

lemma on_packet_samples:
  assumes "on_packet wa b s = (od, s')" and "accum_ok s"
    and "c < nat (rx_channels (device (src_cfg s)))"
  shows "opt_samples od c @ ch_accum s' ! c = ch_accum s ! c @ packet_samples wa c (Packet b)"
  using assms accept_packet_samples [of wa b "advance_resume wa b (s\<lparr>first_task_packet := False\<rparr>)" od s' c]
  by (auto simp: on_packet_def Let_def packet_samples_def opt_samples_def split: if_splits)

lemma stop_source_fields [simp]:
  "accum_ok (stop_source s) = accum_ok s" "src_cfg (stop_source s) = src_cfg s"
  "ch_accum (stop_source s) = ch_accum s" "udp_fd (stop_source s) = udp_fd s"
  "task_id (stop_source s) = task_id s" "src_running (stop_source s) = False"
  "resume_hz (stop_source s) = resume_hz s" "current_center_hz (stop_source s) = current_center_hz s"
  by (simp_all add: stop_source_def)

lemma next_loop_fields:
  assumes "next_loop wa es nd s = (r, s', rest)" and "accum_ok s"
  shows "accum_ok s' \<and> src_cfg s' = src_cfg s \<and> udp_fd s' = udp_fd s \<and> task_id s' = task_id s"
  using assms
proof (induction es arbitrary: nd s)
  case (Cons e es)
  show ?case
  proof (cases "src_running s \<and> (\<exists>b. e = Packet b)")
    case True
    then obtain b od s1 where e: "e = Packet b" and on: "on_packet wa b s = (od, s1)" by fastforce
    note f = on_packet_fields [OF on Cons.prems(2)]
    show ?thesis
    proof (cases od)
      case None
      then have "next_loop wa es 0 s1 = (r, s', rest)" using Cons.prems(1) True e on by simp
      then show ?thesis using Cons.IH [of 0 s1] f by simp
    next
      case (Some d)
      then show ?thesis using Cons.prems(1) True e on f by simp
    qed
  next
    case False
    then show ?thesis
      using Cons.prems Cons.IH
      by (cases e) (auto simp: Let_def split: if_splits dest: Cons.IH)
  qed
qed auto

lemma next_loop_conserves:
  assumes "next_loop wa es nd s = (r, s', rest)" and "accum_ok s"
    and c: "c < nat (rx_channels (device (src_cfg s)))"
  shows "\<exists>used. es = used @ rest \<and>
     delivered_samples r c @ ch_accum s' ! c = ch_accum s ! c @ payload wa used c"
  using assms
proof (induction es arbitrary: nd s)
  case Nil
  then show ?case by (auto simp: delivered_samples_def split: if_splits)
next
  case (Cons e es)
  have skip: "\<exists>used. e # es = used @ rest \<and>
      delivered_samples r c @ ch_accum s' ! c = ch_accum s ! c @ payload wa used c"
    if step: "next_loop wa es nd' s1 = (r, s', rest)" and ok1: "accum_ok s1" and cfg1: "src_cfg s1 = src_cfg s"
      and acc1: "ch_accum s1 ! c = ch_accum s ! c @ packet_samples wa c e" for nd' s1
  proof -
    obtain used where "es = used @ rest"
      and "delivered_samples r c @ ch_accum s' ! c = ch_accum s1 ! c @ payload wa used c"
      using Cons.IH [OF step ok1] cfg1 Cons.prems(3) by auto
    then show ?thesis using acc1 by (intro exI [of _ "e # used"]) simp
  qed
  have stay: "\<exists>used. e # es = used @ rest \<and>
      delivered_samples r c @ ch_accum s' ! c = ch_accum s ! c @ payload wa used c"
    if "rest = es" "s' = s" "packet_samples wa c e = []" "delivered_samples r c = []"
    using that by (intro exI [of _ "[e]"]) simp
  show ?case
  proof (cases "src_running s")
    case False
    then show ?thesis using Cons.prems by (auto simp: delivered_samples_def)
  next
    case running: True
    show ?thesis
    proof (cases e)
      case (Packet b)
      obtain od s1 where on: "on_packet wa b s = (od, s1)" by fastforce
      note f = on_packet_fields [OF on Cons.prems(2)] and d = on_packet_samples [OF on Cons.prems(2,3)]
      show ?thesis
      proof (cases od)
        case None
        then show ?thesis using skip [of 0 s1] Cons.prems(1) running Packet on f d
          by (simp add: opt_samples_def)
      next
        case (Some dw)
        then show ?thesis
          using Cons.prems(1) running Packet on d
          by (intro exI [of _ "[e]"]) (auto simp: opt_samples_def delivered_samples_def)
      qed
    next
      case StopSeen
      then show ?thesis using skip [of nd "stop_source s"] Cons.prems running by simp
    next
      case Interrupted
      then show ?thesis using skip [of nd s] Cons.prems running by simp
    next
      case RecvFailed
      then show ?thesis using stay Cons.prems running by (auto simp: delivered_samples_def)
    next
      case WouldBlock
      then show ?thesis using stay skip [of "nd + 100" s] Cons.prems running
        by (auto simp: delivered_samples_def Let_def split: if_splits)
    qed
  qed
qed

subsection \<open>A dwell holds samples of one centre frequency\<close>

text \<open>
  A stream is flagged when every usable packet whose centre differs from the current one (once there
  is one) carries the dwell-change flag; \<open>cur\<close> follows \<open>current_center_hz_\<close>, 0 meaning none.
\<close>

definition change_flagged :: "wire_api \<Rightarrow> real \<Rightarrow> 8 word list \<Rightarrow> bool" where
  "change_flagged wa cur b \<longleftrightarrow> hdr_center_hz (header_of wa b) \<noteq> 0 \<and>
     (cur = 0 \<or> hdr_center_hz (header_of wa b) = cur \<or> flags (header_of wa b) AND flag_dwell_change wa \<noteq> 0)"

fun flagged_stream :: "wire_api \<Rightarrow> real \<Rightarrow> recv_event list \<Rightarrow> bool" where
  "flagged_stream wa cur [] = True"
| "flagged_stream wa cur (e # es) = (case e of
       Packet b \<Rightarrow>
         if well_formed_packet wa b
         then change_flagged wa cur b \<and> flagged_stream wa (hdr_center_hz (header_of wa b)) es
         else flagged_stream wa cur es
     | _ \<Rightarrow> flagged_stream wa cur es)"

text \<open>
  \<open>came_at f x\<close> is any relation that holds of the samples of a packet and its centre: what is shown
  for all of them is that a sample is only ever attributed to the centre it came with.
\<close>

definition samples_came_at :: "wire_api \<Rightarrow> (real \<Rightarrow> sample \<Rightarrow> bool) \<Rightarrow> recv_event list \<Rightarrow> bool" where
  "samples_came_at wa came_at es \<longleftrightarrow>
     (\<forall>b. Packet b \<in> set es \<longrightarrow> well_formed_packet wa b \<longrightarrow>
        (\<forall>x \<in> set (samples_of wa b (nat (num_samples (header_of wa b)))).
           came_at (hdr_center_hz (header_of wa b)) x))"

definition tagged :: "(real \<Rightarrow> sample \<Rightarrow> bool) \<Rightarrow> real \<Rightarrow> sample list list \<Rightarrow> bool" where
  "tagged came_at f bufs \<longleftrightarrow> (\<forall>buf\<in>set bufs. \<forall>x\<in>set buf. came_at f x)"

definition pure_accum :: "(real \<Rightarrow> sample \<Rightarrow> bool) \<Rightarrow> task_src \<Rightarrow> bool" where
  "pure_accum came_at s \<longleftrightarrow> tagged came_at (current_center_hz s) (ch_accum s) \<and>
     (current_center_hz s = 0 \<longrightarrow> \<not> has_data s)"

lemma tagged_reset [simp]: "tagged came_at f (ch_accum (reset_accum s))"
  by (auto simp: tagged_def reset_accum_def)

lemma tagged_update:
  assumes "tagged came_at f bufs" and "i < length bufs" and "\<forall>x\<in>set xs. came_at f x"
  shows "tagged came_at f (bufs[i := bufs ! i @ xs])"
  unfolding tagged_def
proof
  fix buf assume "buf \<in> set (bufs[i := bufs ! i @ xs])"
  then have "buf \<in> set bufs \<or> buf = bufs ! i @ xs"
    using set_update_subset_insert by fastforce
  moreover have "\<forall>x\<in>set (bufs ! i). came_at f x"
    using assms(1) nth_mem [OF assms(2)] unfolding tagged_def by blast
  ultimately show "\<forall>x\<in>set buf. came_at f x" using assms(1,3) by (auto simp: tagged_def)
qed

lemma tagged_append:
  assumes "tagged came_at f (ch_accum s)" and "\<forall>x\<in>set xs. came_at f x"
  shows "tagged came_at f (ch_accum (append_samples ch xs s))"
proof (cases "nat ch < length (ch_accum s)")
  case True
  then show ?thesis using tagged_update [OF assms(1) _ assms(2)] assms(1) by (simp add: append_samples_def)
next
  case False
  then have "(ch_accum s)[nat ch := ch_accum s ! nat ch @ xs] = ch_accum s"
    by (simp only: list_update_beyond not_less)
  then show ?thesis using assms(1) unfolding append_samples_def by auto
qed

lemma pure_no_data: "\<not> has_data s \<Longrightarrow> tagged came_at f (ch_accum s)"
  by (auto simp: has_data_def tagged_def)

lemma accept_packet_pure:
  assumes "accept_packet wa b s = (od, s')" and pure: "pure_accum came_at s"
    and fl: "change_flagged wa (current_center_hz s) b"
    and xs: "\<forall>x\<in>set (samples_of wa b (nat (num_samples (header_of wa b)))).
      came_at (hdr_center_hz (header_of wa b)) x"
  shows "pure_accum came_at s' \<and> (\<forall>d. od = Some d \<longrightarrow> tagged came_at (dwell_center_hz d) (ch_samples d)) \<and>
    (current_center_hz s' = hdr_center_hz (header_of wa b) \<or> current_center_hz s' = 0)"
proof -
  let ?h = "header_of wa b"
  let ?f = "hdr_center_hz ?h"
  let ?xs = "samples_of wa b (nat (num_samples ?h))"
  let ?s1 = "append_samples (channel_index ?h) ?xs (s\<lparr>current_center_hz := ?f\<rparr>)"
  let ?s2 = "append_samples (channel_index ?h) ?xs ((reset_accum s)\<lparr>current_center_hz := ?f\<rparr>)"
  let ?change = "flags ?h AND flag_dwell_change wa \<noteq> 0 \<and> current_center_hz s \<noteq> 0 \<and> has_data s"
  have f: "?f \<noteq> 0" using fl by (simp add: change_flagged_def)
  have s2: "pure_accum came_at ?s2"
    using xs f by (auto simp: pure_accum_def intro!: tagged_append)
  show ?thesis
  proof (cases ?change)
    case True
    then have "od = Some \<lparr>dwell_center_hz = current_center_hz s, ch_samples = ch_accum s\<rparr>" "s' = ?s2"
      using assms(1) unfolding accept_packet_def Let_def take_dwell_def has_data_def by auto
    then show ?thesis using s2 pure by (simp add: pure_accum_def)
  next
    case False
    have "tagged came_at ?f (ch_accum s)"
    proof (cases "has_data s")
      case True
      then have "current_center_hz s \<noteq> 0" using pure by (auto simp: pure_accum_def)
      then have "?f = current_center_hz s" using True False fl by (auto simp: change_flagged_def)
      then show ?thesis using pure by (simp add: pure_accum_def)
    qed (simp add: pure_no_data)
    then have s1: "tagged came_at ?f (ch_accum ?s1)" using xs by (intro tagged_append) auto
    have "od = Some \<lparr>dwell_center_hz = ?f, ch_samples = ch_accum ?s1\<rparr> \<and> s' = reset_accum ?s1 \<or>
        od = None \<and> s' = ?s1"
      using assms(1) False unfolding accept_packet_def Let_def take_dwell_def has_data_def prod.case
      by (simp split: if_split_asm)
    then show ?thesis using s1 f by (auto simp: pure_accum_def)
  qed
qed

lemma pure_update [simp]:
  "pure_accum came_at (s\<lparr>first_task_packet := x\<rparr>) = pure_accum came_at s"
  "pure_accum came_at (advance_resume wa b s) = pure_accum came_at s"
  "pure_accum came_at (stop_source s) = pure_accum came_at s"
  by (simp_all add: pure_accum_def has_data_def advance_resume_def stop_source_def Let_def)

lemma flagged_stream_0: "flagged_stream wa cur es \<Longrightarrow> flagged_stream wa 0 es"
  by (induction es arbitrary: cur) (auto simp: change_flagged_def split: recv_event.splits)

lemma next_loop_pure:
  assumes "next_loop wa es nd s = (r, s', rest)" and "pure_accum came_at s"
    and "flagged_stream wa (current_center_hz s) es" and "samples_came_at wa came_at es"
  shows "pure_accum came_at s' \<and> flagged_stream wa (current_center_hz s') rest \<and>
    (\<forall>d. r = Delivered d \<longrightarrow> tagged came_at (dwell_center_hz d) (ch_samples d))"
  using assms
proof (induction es arbitrary: nd s)
  case (Cons e es)
  have came: "samples_came_at wa came_at es" using Cons.prems(4) by (auto simp: samples_came_at_def)
  show ?case
  proof (cases "src_running s \<and> (\<exists>b. e = Packet b)")
    case True
    then obtain b where e: "e = Packet b" by blast
    let ?s0 = "advance_resume wa b (s\<lparr>first_task_packet := False\<rparr>)"
    show ?thesis
    proof (cases "well_formed_packet wa b")
      case wf: True
      obtain od s1 where acc: "accept_packet wa b ?s0 = (od, s1)" by fastforce
      then have on: "on_packet wa b s = (od, s1)" using wf by (simp add: on_packet_def Let_def)
      have "change_flagged wa (current_center_hz ?s0) b"
        and fl: "flagged_stream wa (hdr_center_hz (header_of wa b)) es"
        using Cons.prems(3) wf by (auto simp: e)
      moreover have "\<forall>x\<in>set (samples_of wa b (nat (num_samples (header_of wa b)))).
          came_at (hdr_center_hz (header_of wa b)) x"
        using Cons.prems(4) wf by (auto simp: e samples_came_at_def)
      ultimately have step: "pure_accum came_at s1 \<and>
          (\<forall>d. od = Some d \<longrightarrow> tagged came_at (dwell_center_hz d) (ch_samples d)) \<and>
          (current_center_hz s1 = hdr_center_hz (header_of wa b) \<or> current_center_hz s1 = 0)"
        using Cons.prems(2) by (intro accept_packet_pure [OF acc]) simp_all
      then have "flagged_stream wa (current_center_hz s1) es" using fl flagged_stream_0 by auto
      then show ?thesis
        using step Cons.prems(1) True e on Cons.IH [of 0 s1] came by (cases od) auto
    next
      case False
      then have "on_packet wa b s = (None, ?s0)" by (simp add: on_packet_def Let_def)
      then show ?thesis
        using False Cons.prems True e came Cons.IH [of 0 ?s0] by simp
    qed
  next
    case False
    then show ?thesis
      using Cons.prems came Cons.IH [of nd s] Cons.IH [of "nd + 100" s] Cons.IH [of nd "stop_source s"]
      by (cases e) (auto simp: Let_def split: if_splits)
  qed
qed (auto split: if_splits)

subsection \<open>Signals and timeouts\<close>

lemma next_loop_without_signals:
  "next_loop wa (filter (\<lambda>e. e \<noteq> Interrupted) es) nd s =
     (let (r, s', rest) = next_loop wa es nd s in (r, s', filter (\<lambda>e. e \<noteq> Interrupted) rest))"
proof (induction es arbitrary: nd s)
  case (Cons e es)
  show ?case
  proof (cases "src_running s")
    case True
    show ?thesis
    proof (cases e)
      case (Packet b)
      obtain od s1 where "on_packet wa b s = (od, s1)" by fastforce
      then show ?thesis using Cons.IH [of 0 s1] True Packet by (cases od) (simp_all add: Let_def)
    qed (use Cons.IH True in \<open>simp_all add: Let_def\<close>)
  next
    case False
    have "next_loop wa xs nd s = (Ended, s, xs)" for xs
      using False by (cases xs) simp_all
    then show ?thesis using False by (simp add: Let_def)
  qed
qed simp

lemma next_loop_idle:
  assumes "src_running s" and "0 \<le> nd" and "nd + 100 * int k < no_data_limit s"
  shows "next_loop wa (replicate k WouldBlock @ es) nd s = next_loop wa es (nd + 100 * int k) s"
  using assms(2,3)
proof (induction k arbitrary: nd)
  case (Suc k)
  have "next_loop wa (replicate k WouldBlock @ es) (nd + 100) s =
      next_loop wa es (nd + 100 + 100 * int k) s"
    using Suc.prems by (intro Suc.IH) auto
  then show ?case using Suc.prems assms(1) by (simp add: Let_def algebra_simps)
qed simp

lemma next_loop_times_out:
  assumes "src_running s" and "no_data_limit s = 100 * int (Suc k)"
  shows "next_loop wa (replicate (Suc k) WouldBlock @ es) 0 s = (Ended, s, es)"
proof -
  have "replicate (Suc k) WouldBlock @ es = replicate k WouldBlock @ (WouldBlock # es)"
    by (simp add: replicate_app_Cons_same)
  then show ?thesis
    using next_loop_idle [of s 0 k wa "WouldBlock # es"] assms by (simp add: Let_def)
qed

subsection \<open>Properties of \<open>next\<close>\<close>

text \<open>C8. No sample is lost, duplicated or reordered by \<open>next\<close>: for every channel, what is delivered
  followed by what stays in the accumulator is what was there before followed by the payloads, in
  order of arrival, of the well-formed packets of that channel among those consumed. Malformed and
  truncated packets contribute nothing.\<close>

theorem next_conserves_samples:
  assumes "next_dwell wa es s = (r, s', rest)" and "accum_ok s"
    and "c < nat (rx_channels (device (src_cfg s)))"
  shows "accum_ok s' \<and> (\<exists>used. es = used @ rest \<and>
     delivered_samples r c @ ch_accum s' ! c = ch_accum s ! c @ payload wa used c)"
  using next_loop_conserves [of wa es 0 s r s' rest c] next_loop_fields [of wa es 0 s r s' rest] assms
  by (simp add: next_dwell_def)

text \<open>A toy wire format for the instances: byte 0 is the magic number, byte 1 the flags, byte 2 the
  centre; the payload is one sample per 8 bytes.\<close>

definition toy_wire :: wire_api where
  "toy_wire = \<lparr>header_size = 3, iq_magic = 7, flag_dwell_change = 4,
     header_of = (\<lambda>b. \<lparr>magic = ucast (b ! 0), flags = b ! 1,
       num_samples = int ((length b - 3) div 8), channel_index = 0, hdr_center_hz = real (unat (b ! 2))\<rparr>),
     samples_of = (\<lambda>b n. map (\<lambda>i. (real (unat (b ! (3 + 8 * i))), 0)) [0..<n])\<rparr>"

definition toy_packet :: "8 word \<Rightarrow> 8 word \<Rightarrow> nat \<Rightarrow> 8 word \<Rightarrow> 8 word list" where
  "toy_packet fl center n x = [7, fl, center] @ replicate (8 * n) x"

definition toy_source :: task_src where
  "toy_source = (new_source (default_config\<lparr>sweep := default_sweep\<lparr>dwell_samples := 3\<rparr>\<rparr>) [] False)
     \<lparr>src_running := True\<rparr>"

lemma toy_source_fields:
  "src_cfg toy_source = default_config\<lparr>sweep := default_sweep\<lparr>dwell_samples := 3\<rparr>\<rparr>"
  "ch_accum toy_source = [[]]" "current_center_hz toy_source = 0" "src_running toy_source"
  "rx_channels (device (src_cfg toy_source)) = 1" "accum_ok toy_source"
  by (simp_all add: toy_source_def new_source_def reset_accum_def accum_ok_def default_config_def
      default_device_def)

lemma toy_on_packet:
  assumes "0 < n" and "ch_accum s = [xs]" and "rx_channels (device (src_cfg s)) = 1"
  shows "well_formed_packet toy_wire (toy_packet fl center n x)"
    and "header_of toy_wire (toy_packet fl center n x) = \<lparr>magic = 7, flags = fl, num_samples = int n,
      channel_index = 0, hdr_center_hz = real (unat center)\<rparr>"
    and "samples_of toy_wire (toy_packet fl center n x) n = replicate n (real (unat x), 0)"
  using assms(1)
  by (simp_all add: well_formed_packet_def toy_wire_def toy_packet_def Let_def map_replicate_const
      nth_append list_eq_iff_nth_eq)

lemma toy_accept:
  assumes "0 < n" and "ch_accum s = [xs]" and "rx_channels (device (src_cfg s)) = 1"
  shows "accept_packet toy_wire (toy_packet fl center n x) s =
    (if fl AND 4 \<noteq> 0 \<and> current_center_hz s \<noteq> 0 \<and> xs \<noteq> []
     then (Some \<lparr>dwell_center_hz = current_center_hz s, ch_samples = [xs]\<rparr>,
           s\<lparr>current_center_hz := real (unat center), ch_accum := [replicate n (real (unat x), 0)]\<rparr>)
     else if dwell_samples (sweep (src_cfg s)) \<le> int (length xs + n)
       then (Some \<lparr>dwell_center_hz = real (unat center), ch_samples = [xs @ replicate n (real (unat x), 0)]\<rparr>,
             s\<lparr>current_center_hz := 0, ch_accum := [[]]\<rparr>)
       else (None, s\<lparr>current_center_hz := real (unat center), ch_accum := [xs @ replicate n (real (unat x), 0)]\<rparr>))"
  using toy_on_packet(2,3) [OF assms, of fl center x] assms
  by (simp add: accept_packet_def Let_def take_dwell_def append_samples_def reset_accum_def)
    (simp add: toy_wire_def)

text \<open>C34. A stream in which every change of centre is flagged gives pure dwells: every sample of a
  delivered dwell came in a packet of the dwell's own centre frequency, and what stays behind is of
  the centre that is current then.\<close>

theorem dwell_is_pure:
  assumes "next_dwell wa es s = (r, s', rest)" and "pure_accum came_at s"
    and "flagged_stream wa (current_center_hz s) es" and "samples_came_at wa came_at es"
  shows "pure_accum came_at s' \<and> (\<forall>d. r = Delivered d \<longrightarrow> tagged came_at (dwell_center_hz d) (ch_samples d))"
  using next_loop_pure [of wa es 0 s r s' rest came_at] assms by (simp add: next_dwell_def)

lemma toy_on_packet_run:
  assumes "0 < n" and "ch_accum s = [xs]" and "rx_channels (device (src_cfg s)) = 1"
  shows "on_packet toy_wire (toy_packet fl center n x) s =
    accept_packet toy_wire (toy_packet fl center n x)
      (advance_resume toy_wire (toy_packet fl center n x) (s\<lparr>first_task_packet := False\<rparr>))"
  using toy_on_packet(1) [OF assms] by (simp add: on_packet_def Let_def)

lemmas toy_run = next_dwell_def toy_on_packet_run toy_accept toy_source_fields default_config_def
  default_sweep_def default_device_def

theorem next_conserves_samples_witness:
  "\<exists>s' used. next_dwell toy_wire [Packet (toy_packet 4 100 2 1), WouldBlock, Packet [1, 2], Packet (toy_packet 4 101 1 2)]
       toy_source = (Delivered \<lparr>dwell_center_hz = 100, ch_samples = [replicate 2 (1, 0)]\<rparr>, s', []) \<and>
     accum_ok s' \<and> replicate 2 (1, 0) @ ch_accum s' ! 0 = payload toy_wire used 0"
proof -
  let ?es = "[Packet (toy_packet 4 100 2 1), WouldBlock, Packet [1, 2], Packet (toy_packet 4 101 1 2)]"
  have short: "on_packet toy_wire [1, 2] s = (None, advance_resume toy_wire [1, 2] (s\<lparr>first_task_packet := False\<rparr>))" for s
    by (simp add: on_packet_def Let_def well_formed_packet_def toy_wire_def)
  have "\<exists>s'. next_dwell toy_wire ?es toy_source =
      (Delivered \<lparr>dwell_center_hz = 100, ch_samples = [replicate 2 (1, 0)]\<rparr>, s', [])"
    by (simp add: toy_run short Let_def no_data_limit_def)
  then obtain s' where run: "next_dwell toy_wire ?es toy_source =
      (Delivered \<lparr>dwell_center_hz = 100, ch_samples = [replicate 2 (1, 0)]\<rparr>, s', [])" by blast
  have "0 < nat (rx_channels (device (src_cfg toy_source)))" unfolding toy_source_fields(5) by simp
  then show ?thesis
    using next_conserves_samples [OF run, of 0] run
    by (auto simp only: toy_source_fields(2,6) delivered_samples_def next_result.case dwell.simps nth_Cons_0 append_Nil)
qed

theorem dwell_is_pure_witness:
  "\<exists>s'. next_dwell toy_wire [Packet (toy_packet 4 100 2 1), Packet (toy_packet 4 101 1 2)] toy_source =
       (Delivered \<lparr>dwell_center_hz = 100, ch_samples = [replicate 2 (1, 0)]\<rparr>, s', []) \<and>
     tagged (\<lambda>f x. x = (f - 99, 0)) 100 [replicate 2 (1, 0)]"
proof -
  let ?es = "[Packet (toy_packet 4 100 2 1), Packet (toy_packet 4 101 1 2)]"
  let ?came = "\<lambda>f (x :: sample). x = (f - 99, 0 :: real)"
  have "\<exists>s'. next_dwell toy_wire ?es toy_source =
      (Delivered \<lparr>dwell_center_hz = 100, ch_samples = [replicate 2 (1, 0)]\<rparr>, s', [])"
    by (simp add: toy_run)
  then obtain s' where run: "next_dwell toy_wire ?es toy_source =
      (Delivered \<lparr>dwell_center_hz = 100, ch_samples = [replicate 2 (1, 0)]\<rparr>, s', [])" by blast
  have "pure_accum ?came toy_source"
    by (simp add: pure_accum_def tagged_def has_data_def toy_source_fields)
  moreover have "flagged_stream toy_wire (current_center_hz toy_source) ?es"
    by (simp add: change_flagged_def toy_on_packet(2) [OF _ toy_source_fields(2,5)] toy_source_fields)
      (simp add: toy_wire_def)
  moreover have "samples_came_at toy_wire ?came ?es"
    using toy_on_packet(2,3) [OF _ toy_source_fields(2,5), of 2 4 100 1]
      toy_on_packet(2,3) [OF _ toy_source_fields(2,5), of 1 4 101 2]
    by (auto simp: samples_came_at_def)
  ultimately show ?thesis using dwell_is_pure [OF run] run by auto
qed

text \<open>C40. Without the flag the centre moves on under the samples already there: a dwell whose first
  packet of a new centre was lost or not flagged holds the samples of both frequencies and is
  labelled with the second.\<close>

theorem unflagged_change_mixes:
  assumes "src_running s" and "accum_ok s" and "rx_channels (device (src_cfg s)) = 1" and "\<not> has_data s"
    and "well_formed_packet wa b1" and "well_formed_packet wa b2"
    and "channel_index (header_of wa b1) = 0" and "channel_index (header_of wa b2) = 0"
    and "flags (header_of wa b2) AND flag_dwell_change wa = 0"
    and "xs1 = samples_of wa b1 (nat (num_samples (header_of wa b1)))"
    and "xs2 = samples_of wa b2 (nat (num_samples (header_of wa b2)))"
    and "int (length xs1) < dwell_samples (sweep (src_cfg s))"
    and "dwell_samples (sweep (src_cfg s)) \<le> int (length xs1 + length xs2)"
  shows "\<exists>s'. next_dwell wa [Packet b1, Packet b2] s =
     (Delivered \<lparr>dwell_center_hz = hdr_center_hz (header_of wa b2), ch_samples = [xs1 @ xs2]\<rparr>, s', [])"
proof -
  have "length (ch_accum s) = 1" using assms(2,3) by (simp add: accum_ok_def)
  then have empty: "ch_accum s = [[]]" using assms(4) by (auto simp: has_data_def length_Suc_conv)
  let ?s0 = "advance_resume wa b1 (s\<lparr>first_task_packet := False\<rparr>)"
  let ?s1 = "?s0\<lparr>current_center_hz := hdr_center_hz (header_of wa b1), ch_accum := [xs1]\<rparr>"
  have "on_packet wa b1 s = (None, ?s1)"
    using assms empty by (simp add: on_packet_def accept_packet_def Let_def append_samples_def take_dwell_def)
  moreover have "\<exists>s2. on_packet wa b2 ?s1 =
      (Some \<lparr>dwell_center_hz = hdr_center_hz (header_of wa b2), ch_samples = [xs1 @ xs2]\<rparr>, s2)"
    using assms by (simp add: on_packet_def accept_packet_def Let_def append_samples_def take_dwell_def)
  ultimately show ?thesis using assms(1) by (auto simp: next_dwell_def)
qed

theorem unflagged_change_mixes_witness:
  "\<exists>s'. next_dwell toy_wire [Packet (toy_packet 4 100 2 1), Packet (toy_packet 0 101 1 2)] toy_source =
     (Delivered \<lparr>dwell_center_hz = 101, ch_samples = [replicate 2 (1, 0) @ replicate 1 (2, 0)]\<rparr>, s', [])"
proof -
  note h = toy_on_packet [OF _ toy_source_fields(2,5)]
  have "0 < (2 :: nat)" "0 < (1 :: nat)" by simp_all
  note h1 = h [OF this(1), of 4 100 1] and h2 = h [OF this(2), of 0 101 2]
  have "\<exists>s'. next_dwell toy_wire [Packet (toy_packet 4 100 2 1), Packet (toy_packet 0 101 1 2)] toy_source =
     (Delivered \<lparr>dwell_center_hz = hdr_center_hz (header_of toy_wire (toy_packet 0 101 1 2)),
        ch_samples = [replicate 2 (1, 0) @ replicate 1 (2, 0)]\<rparr>, s', [])"
    by (rule unflagged_change_mixes)
      (use h1 h2 in \<open>simp_all add: toy_source_fields has_data_def default_config_def default_sweep_def
         default_device_def\<close>)
  then show ?thesis using h2 by simp
qed

text \<open>C35. \<open>next\<close> gives up after exactly 300 empty receive timeouts before the first packet of a task and
  after exactly 50 once data has flowed; up to then it keeps waiting, in the same state.\<close>

theorem next_times_out:
  assumes "src_running s" and "limit = (if first_task_packet s then 300 else 50)"
  shows "next_dwell wa (replicate limit WouldBlock @ es) s = (Ended, s, es) \<and>
     (k < limit \<longrightarrow> next_dwell wa (replicate k WouldBlock) s = (Blocked, s, []))"
proof -
  have "no_data_limit s = 100 * int limit" using assms(2) by (simp add: no_data_limit_def)
  moreover have "0 < limit" using assms(2) by simp
  then obtain j where "limit = Suc j" using gr0_conv_Suc by blast
  ultimately show ?thesis
    using next_loop_times_out [OF assms(1), of j wa es] next_loop_idle [OF assms(1), of 0 k wa "[]"] assms(1)
    by (auto simp: next_dwell_def)
qed

theorem next_times_out_witness:
  "next_dwell toy_wire (replicate 300 WouldBlock @ [Interrupted]) toy_source = (Ended, toy_source, [Interrupted]) \<and>
   next_dwell toy_wire (replicate 299 WouldBlock) toy_source = (Blocked, toy_source, [])"
proof -
  have "first_task_packet toy_source"
    by (simp add: toy_source_def new_source_def reset_accum_def)
  then show ?thesis
    using next_times_out [OF toy_source_fields(4), of 300 toy_wire "[Interrupted]" 299] by simp
qed

text \<open>A signal during \<open>recvfrom\<close> is invisible: with the interrupted calls taken out, \<open>next\<close> returns the
  same result in the same state.\<close>

theorem interrupts_are_invisible:
  "next_dwell wa (filter (\<lambda>e. e \<noteq> Interrupted) es) s =
     (let (r, s', rest) = next_dwell wa es s in (r, s', filter (\<lambda>e. e \<noteq> Interrupted) rest))"
  unfolding next_dwell_def by (rule next_loop_without_signals)

end
