(* ===== verification/SourceTask.thy ===== *)
theory SourceTask
  imports ScanPlan SampleStream
begin

section \<open>Sockets, tasks and requests of the source\<close>

text \<open>What \<open>open\<close>, \<open>close\<close> and the device query do to the sockets and the tasks, the identifiers of requests, and that
  the next request can be built wherever \<open>next\<close> left off.\<close>

subsection \<open>Sockets and tasks\<close>

text \<open>The source owns what \<open>udp_fd\<close> names: its socket is open, and there is no other of its own in
  \<open>mine\<close>, the set of descriptors it was ever given.\<close>

definition owns :: "nat set \<Rightarrow> task_src \<Rightarrow> world \<Rightarrow> bool" where
  "owns others s w \<longleftrightarrow> (case udp_fd s of None \<Rightarrow> open_fds w = others
     | Some fd \<Rightarrow> fd \<notin> others \<and> open_fds w = insert fd others)"

lemma owns_cong: "udp_fd s' = udp_fd s \<Longrightarrow> open_fds w' = open_fds w \<Longrightarrow> owns others s' w' = owns others s w"
  by (simp add: owns_def split: option.split)

definition fresh_fd :: "nat option \<Rightarrow> nat set \<Rightarrow> bool" where
  "fresh_fd sock fds \<longleftrightarrow> (\<forall>fd. sock = Some fd \<longrightarrow> fd \<notin> fds)"

lemma close_fd_owns: "owns others s w \<Longrightarrow> close_fd s w = (s', w') \<Longrightarrow> owns others s' w' \<and> udp_fd s' = None"
  by (auto simp: owns_def close_fd_def split: option.splits)

lemma bind_udp_owns:
  assumes "owns others s w" and "udp_fd s = None" and "fresh_fd sock others"
    and "bind_udp sock bound port s w = (r, s', w')"
  shows "owns others s' w' \<and> (udp_fd s' \<noteq> None \<longleftrightarrow> r = Inr ())"
  using assms
  by (auto simp: bind_udp_def owns_def fresh_fd_def close_fd_def Let_def split: option.splits if_splits)

lemma close_fd_fields:
  "close_fd s w = (s', w') \<Longrightarrow> src_cfg s' = src_cfg s \<and> task_id s' = task_id s \<and> resume_hz s' = resume_hz s \<and>
     exchanged w' = exchanged w \<and> notices w' = notices w \<and> prebound_port s' = prebound_port s \<and>
     ch_accum s' = ch_accum s"
  by (auto simp: close_fd_def split: option.splits)

lemma bind_udp_fields:
  "bind_udp sock bound port s w = (r, s', w') \<Longrightarrow>
     src_cfg s' = src_cfg s \<and> task_id s' = task_id s \<and> resume_hz s' = resume_hz s \<and>
     exchanged w' = exchanged w \<and> notices w' = notices w \<and> prebound_port s' = prebound_port s \<and>
     ch_accum s' = ch_accum s"
  by (auto simp: bind_udp_def Let_def split: option.splits if_splits prod.splits dest!: close_fd_fields)

lemma submit_task_Some:
  assumes "submit_task api env s w = Some (r, s', w')"
  shows "udp_fd s' = udp_fd s \<and> open_fds w' = open_fds w \<and> src_cfg s' = src_cfg s \<and>
    resume_hz s' = resume_hz s \<and> ch_accum s' = ch_accum s \<and> notices w' = notices w \<and>
    length (exchanged w') = Suc (length (exchanged w))"
  using assms by (auto simp: submit_task_def Let_def split: option.splits if_splits prod.splits)

lemma finish_open_owns:
  assumes "owns others s w" and "fresh_fd (env_socket2 env) others"
    and "finish_open env local_port ctrl s w = (r, s', w')"
  shows "owns others s' w'"
proof -
  let ?s = "s\<lparr>prebound_port := 0\<rparr>"
  have o: "owns others ?s w" using assms(1) by (simp add: owns_def)
  obtain s3 w3 where c: "close_fd ?s w = (s3, w3)" by fastforce
  obtain r4 s4 w4 where b: "bind_udp (env_socket2 env) (env_bound2 env) ctrl s3 w3 = (r4, s4, w4)"
    by (metis prod_cases3)
  have o4: "owns others s4 w4"
    using close_fd_owns [OF o c] bind_udp_owns [OF _ _ assms(2) b] by blast
  have o_reset: "owns others ((reset_accum t)\<lparr>first_task_packet := True, src_running := True\<rparr>) v"
    if "owns others t v" for t v
    using that by (simp add: owns_def)
  show ?thesis
    using assms(3) c b o o4 o_reset
    by (auto simp: finish_open_def Let_def split: if_splits sum.splits)
qed

lemma open_source_cases:
  assumes "open_source api env s w = Some (r, s', w')"
  obtains e where "bind_udp (env_socket env) (env_bound env)
        (word_of_int (rx_port (receiver (src_cfg s)))) s w = (Inl e, s', w')" "r = Inl e"
  | s1 w1 port e where "bind_udp (env_socket env) (env_bound env)
        (word_of_int (rx_port (receiver (src_cfg s)))) s w = (Inr (), s1, w1)"
      "submit_task api env (s1\<lparr>prebound_port := port\<rparr>) w1 = Some (Inl e, s', w')" "r = Inl e"
  | s1 w1 port ctrl s2 w2 where "bind_udp (env_socket env) (env_bound env)
        (word_of_int (rx_port (receiver (src_cfg s)))) s w = (Inr (), s1, w1)"
      "submit_task api env (s1\<lparr>prebound_port := port\<rparr>) w1 = Some (Inr ctrl, s2, w2)"
      "finish_open env port ctrl s2 w2 = (r, s', w')"
  using assms unfolding open_source_def Let_def
  by (auto split: prod.split_asm sum.split_asm option.split_asm)

lemma open_source_owns:
  assumes "owns others s w" and "udp_fd s = None" and "fresh_fd (env_socket env) others"
    and "fresh_fd (env_socket2 env) others" and "open_source api env s w = Some (r, s', w')"
  shows "owns others s' w'"
  using assms(5)
proof (cases rule: open_source_cases)
  case (1 e)
  then show ?thesis using bind_udp_owns [OF assms(1-3)] by blast
next
  case (2 s1 w1 port e)
  then show ?thesis
    using bind_udp_owns [OF assms(1-3) 2(1)] submit_task_Some [OF 2(2)] owns_cong [of s' s1 w' w1] by simp
next
  case (3 s1 w1 port ctrl s2 w2)
  have "owns others s2 w2"
    using bind_udp_owns [OF assms(1-3) 3(1)] submit_task_Some [OF 3(2)] owns_cong [of s2 s1 w2 w1] by simp
  then show ?thesis using finish_open_owns [OF _ assms(4) 3(3)] by blast
qed

lemma send_task_stop_fields:
  assumes "send_task_stop ns now_ms s w = (s', w')"
  shows "udp_fd s' = udp_fd s" and "open_fds w' = open_fds w" and "task_id s' = []"
    and "src_running s' = src_running s" and "src_cfg s' = src_cfg s"
    and "resume_hz s' = resume_hz s" and "ch_accum s' = ch_accum s"
  using assms by (auto simp: send_task_stop_def split: if_splits)

lemma close_source_owns:
  assumes "owns others s w" and "close_source ns now_ms s w = (s', w')"
  shows "owns others s' w' \<and> udp_fd s' = None \<and> task_id s' = [] \<and> \<not> src_running s'"
proof -
  obtain s1 w1 where st: "send_task_stop ns now_ms (s\<lparr>src_running := False\<rparr>) w = (s1, w1)" by fastforce
  note f = send_task_stop_fields [OF st]
  have o: "owns others s1 w1" using assms(1) f(1,2) owns_cong [of s1 s w1 w] by simp
  have c: "close_fd s1 w1 = (s', w')" using assms(2) st by (simp add: close_source_def)
  have "task_id s' = task_id s1 \<and> src_running s' = src_running s1"
    using c by (auto simp: close_fd_def split: option.splits)
  then show ?thesis using close_fd_owns [OF o c] f(3,4) by simp
qed

lemma close_source_notice:
  assumes "close_source ns now_ms s w = (s', w')"
  shows "notices w' = notices w @ (if task_id s = [] then [] else [task_stop_doc ns now_ms (task_id s)])"
  using assms by (auto simp: close_source_def send_task_stop_def close_fd_def split: option.splits if_splits)

subsection \<open>Request identifiers are distinct\<close>

lemma hex_char_inj: "a < 16 \<Longrightarrow> b < 16 \<Longrightarrow> hex_char a = hex_char b \<Longrightarrow> a = b"
proof -
  have "\<forall>a\<in>set [0..<16]. \<forall>b\<in>set [0..<16]. hex_char a = hex_char b \<longrightarrow> a = b"
    by code_simp
  then show "a < 16 \<Longrightarrow> b < 16 \<Longrightarrow> hex_char a = hex_char b \<Longrightarrow> a = b" by auto
qed

lemma show_hex_snoc: "show_hex n = (if n < 16 then [] else show_hex (n div 16)) @ [hex_char (n mod 16)]"
  by (subst show_hex.simps) simp

lemma show_hex_nonempty [simp]: "show_hex n \<noteq> []"
  by (subst show_hex_snoc) simp

lemma show_hex_inj: "show_hex m = show_hex n \<Longrightarrow> m = n"
proof (induction m arbitrary: n rule: less_induct)
  case (less m)
  have eq: "(if m < 16 then [] else show_hex (m div 16)) @ [hex_char (m mod 16)] =
      (if n < 16 then [] else show_hex (n div 16)) @ [hex_char (n mod 16)]"
    using less.prems by (subst (asm) (1 2) show_hex_snoc)
  then have low: "m mod 16 = n mod 16"
    using hex_char_inj [of "m mod 16" "n mod 16"] by simp
  have "(if m < 16 then [] else show_hex (m div 16)) = (if n < 16 then [] else show_hex (n div 16))"
    using eq by simp
  then have "m div 16 = n div 16"
    using less.IH [of "m div 16" "n div 16"] show_hex_nonempty [of "n div 16"] show_hex_nonempty [of "m div 16"]
    by (cases "m < 16"; cases "n < 16") (simp_all del: show_hex_nonempty)
  then show ?case using low by (metis div_mult_mod_eq)
qed

subsection \<open>The resume position\<close>

definition resume_ok :: "task_src \<Rightarrow> bool" where
  "resume_ok s \<longleftrightarrow> 0 \<le> resume_hz s \<and> resume_hz s < stop_hz (sweep (src_cfg s))"

definition centers_nonneg :: "wire_api \<Rightarrow> bool" where
  "centers_nonneg wa \<longleftrightarrow> (\<forall>b. 0 \<le> hdr_center_hz (header_of wa b))"

definition sweepable :: "sweep_config \<Rightarrow> bool" where
  "sweepable cfg \<longleftrightarrow> 1 \<le> step_hz cfg \<and> 0 \<le> start_hz (sweep cfg) \<and> start_hz (sweep cfg) < stop_hz (sweep cfg) \<and>
     stop_hz (sweep cfg) \<le> 2 ^ 51 \<and> sample_rate (device cfg) \<noteq> 0 \<and> dwell_ms cfg \<noteq> None"

lemma advance_resume_ok:
  assumes "sweepable (src_cfg s)" and "centers_nonneg wa" and "resume_ok s"
  shows "resume_ok (advance_resume wa b s)"
proof -
  have "0 \<le> f64 (hdr_center_hz (header_of wa b) + step_hz (src_cfg s))"
    using assms by (intro r64.fl_nonneg) (auto simp: sweepable_def centers_nonneg_def)
  then show ?thesis using assms by (auto simp: advance_resume_def resume_ok_def sweepable_def Let_def)
qed

lemma resume_ok_cong: "resume_hz s' = resume_hz s \<Longrightarrow> src_cfg s' = src_cfg s \<Longrightarrow> resume_ok s' = resume_ok s"
  by (simp add: resume_ok_def)

lemma on_packet_resume:
  assumes "on_packet wa b s = (od, s')" and "accum_ok s" and "sweepable (src_cfg s)"
    and "centers_nonneg wa" and "resume_ok s"
  shows "resume_ok s'"
proof -
  let ?s0 = "advance_resume wa b (s\<lparr>first_task_packet := False\<rparr>)"
  have ok: "resume_ok ?s0"
    using assms(3-5) by (intro advance_resume_ok) (auto simp: resume_ok_def)
  show ?thesis
  proof (cases "well_formed_packet wa b")
    case True
    then have acc: "accept_packet wa b ?s0 = (od, s')" using assms(1) by (simp add: on_packet_def Let_def)
    have "resume_hz s' = resume_hz ?s0 \<and> src_cfg s' = src_cfg ?s0"
      using accept_packet_fields [OF acc] assms(2) by simp
    then show ?thesis using ok resume_ok_cong by blast
  next
    case False
    then show ?thesis using assms(1) ok by (simp add: on_packet_def Let_def)
  qed
qed

lemma next_loop_resume:
  assumes "next_loop wa es nd s = (r, s', rest)" and "accum_ok s" and "sweepable (src_cfg s)"
    and "centers_nonneg wa" and "resume_ok s"
  shows "resume_ok s'"
  using assms
proof (induction es arbitrary: nd s)
  case (Cons e es)
  show ?case
  proof (cases "src_running s \<and> (\<exists>b. e = Packet b)")
    case True
    then obtain b od s1 where e: "e = Packet b" and on: "on_packet wa b s = (od, s1)" by fastforce
    note f = on_packet_fields [OF on Cons.prems(2)] and ok = on_packet_resume [OF on Cons.prems(2-5)]
    show ?thesis
      using Cons.prems True e on f ok Cons.IH [of 0 s1] by (cases od) auto
  next
    case False
    have "resume_ok (stop_source s)" using Cons.prems(5) by (simp add: resume_ok_def)
    then show ?thesis
      using Cons.prems False Cons.IH [of nd s] Cons.IH [of "nd + 100" s] Cons.IH [of nd "stop_source s"]
      by (cases e) (auto simp: Let_def split: if_splits)
  qed
qed (auto split: if_splits)

lemma build_total:
  assumes "sweepable (src_cfg s)" and "resume_ok s"
  shows "\<exists>req. build_scan_request s now_ms req_id = Some req"
proof -
  have "resume_hz s \<le> 2 ^ 51" using assms by (auto simp: resume_ok_def sweepable_def)
  then obtain ps qs where "scan_positions (src_cfg s) (resume_hz s) = Some (ps @ qs)"
    using scan_positions_total [of "src_cfg s" "resume_hz s"] assms
    by (auto simp: sweepable_def resume_ok_def)
  moreover obtain ms where "dwell_ms (src_cfg s) = Some ms" using assms(1) by (auto simp: sweepable_def)
  ultimately show ?thesis by (simp add: build_scan_request_def Let_def)
qed

lemma query_loop_attempts:
  assumes "query_loop outcomes waited k resp = (r, n)" and "waited = 60000 * int k" and "k \<le> 5"
    and "\<not> received resp"
  shows "k \<le> n \<and> n \<le> 5 \<and> (k < 5 \<longrightarrow> k < n) \<and> (if received r then r = outcomes (n - 1) else n = 5)"
  using assms
proof (induction outcomes waited k resp rule: query_loop.induct)
  case (1 outcomes waited k resp)
  show ?case
  proof (cases "waited < 300000")
    case True
    then have k: "k < 5" using 1(3) by simp
    show ?thesis
    proof (cases "received (outcomes k)")
      case rec: True
      have "query_loop outcomes waited k resp = (outcomes k, Suc k)"
        using True rec by (subst query_loop.simps) (simp add: Let_def)
      then show ?thesis using 1(2) rec k by auto
    next
      case False
      have "query_loop outcomes waited k resp = query_loop outcomes (waited + 60000) (Suc k) (outcomes k)"
        using True False by (subst query_loop.simps) (simp add: Let_def)
      then show ?thesis using 1(1) [OF True refl False] 1(2,3) k False by (auto split: if_splits)
    qed
  next
    case False
    then have "query_loop outcomes waited k resp = (resp, k)" by (subst query_loop.simps) simp
    then show ?thesis using 1(2-5) False by simp
  qed
qed

lemma query_device_count_ge: "1 \<le> fst (query_device_count api ns now_ms outcomes w)"
  by (auto simp: query_device_count_def Let_def split: prod.split option.split)

subsection \<open>Properties of the source\<close>

text \<open>C25. Sockets do not leak: whatever the outcome of \<open>open\<close> (rejection, time-out, failed bind,
  re-bind to another port), the source then holds at most the one socket it names, and \<open>close\<close>
  releases it, clears the task and sends one TASK_STOP exactly when a task id was held.\<close>

theorem open_close_releases:
  assumes "open_fds w = others" and "udp_fd s = None" and "fresh_fd (env_socket env) others"
    and "fresh_fd (env_socket2 env) others" and "open_source api env s w = Some (r, s1, w1)"
    and "close_source ns now_ms s1 w1 = (s2, w2)"
  shows "open_fds w1 - others \<subseteq> set_option (udp_fd s1) \<and> open_fds w2 = others \<and> udp_fd s2 = None \<and>
    task_id s2 = [] \<and> \<not> src_running s2 \<and>
    notices w2 = notices w1 @ (if task_id s1 = [] then [] else [task_stop_doc ns now_ms (task_id s1)])"
proof -
  have o: "owns others s w" using assms(1,2) by (simp add: owns_def)
  have o1: "owns others s1 w1" by (rule open_source_owns [OF o assms(2-5)])
  show ?thesis
    using o1 close_source_owns [OF o1 assms(6)] close_source_notice [OF assms(6)]
    by (auto simp: owns_def split: option.splits)
qed

text \<open>An accepted submission, for the instances: the reply carries a task id and a port.\<close>

definition sample_reply :: "(string \<times> json) list" where
  "sample_reply = [(''ok'', JObj [(''status'', JStr ''ACCEPTED''), (''task_id'', JStr ''t1''),
     (''streams'', JArr [JObj [(''udp_port'', JInt 6000)]])])]"

definition sample_env :: open_env where
  "sample_env = \<lparr>env_now_ns = 255, env_now_ms = 0, env_socket = Some 5, env_bound = True,
     env_sock_port = 5000, env_response = \<lparr>received = True, resp_body = ''ok''\<rparr>,
     env_socket2 = Some 6, env_bound2 = True\<rparr>"

definition empty_world :: world where
  "empty_world = \<lparr>open_fds = {}, exchanged = [], notices = []\<rparr>"

lemma default_sweepable: "sweepable default_config"
proof -
  have "step_hz default_config = 8000000"
    by (simp add: step_hz_def default_config_def default_sweep_def default_device_def round_eval)
  moreover have "dwell_ms default_config \<noteq> None"
    by (simp add: dwell_ms_def default_config_def default_sweep_def default_device_def Let_def int_cast_def
        trunc_def round_eval)
  ultimately show ?thesis
    by (simp add: sweepable_def default_config_def default_sweep_def default_device_def)
qed

lemma new_source_resume: "sweepable cfg \<Longrightarrow> resume_ok (new_source cfg dev required)"
  by (simp add: resume_ok_def new_source_def sweepable_def)

lemma open_of_reply:
  assumes "sweepable cfg" and "receiver cfg = default_receiver" and "read_reply api [] ''ok'' = (''t1'', Inr 6000)"
  shows "\<exists>s w. open_source api sample_env (new_source cfg [] False) empty_world =
     Some (Inr (), s, w) \<and> task_id s = ''t1'' \<and> udp_fd s = Some 6 \<and> src_cfg s = cfg \<and> src_running s \<and>
     ch_accum s = replicate (nat (rx_channels (device cfg))) [] \<and> current_center_hz s = 0"
proof -
  let ?s = "(new_source cfg [] False)\<lparr>udp_fd := Some 5, prebound_port := 5000\<rparr>"
  have fields: "src_cfg ?s = cfg" "resume_ok ?s"
    using new_source_resume [OF assms(1), of "[]" False]
    by (simp_all add: new_source_def reset_accum_def resume_ok_def)
  then obtain req where "build_scan_request ?s 0 (make_req_id 255) = Some req"
    using build_total [of ?s 0 "make_req_id 255"] assms(1) by auto
  moreover have "src_cfg (new_source cfg [] False) = cfg" "rx_port (receiver cfg) = 0" "task_id (new_source cfg [] False) = []"
    by (simp_all add: new_source_def reset_accum_def assms(2) default_receiver_def)
  ultimately show ?thesis
    by (simp add: open_source_def submit_task_def bind_udp_def finish_open_def close_fd_def sample_env_def
        empty_world_def Let_def assms(3) reset_accum_def)
qed

lemma sample_open_of:
  assumes "sweepable cfg" and "receiver cfg = default_receiver"
  shows "\<exists>s w. open_source (tree_api sample_reply) sample_env (new_source cfg [] False) empty_world =
     Some (Inr (), s, w) \<and> task_id s = ''t1'' \<and> udp_fd s = Some 6 \<and> src_cfg s = cfg \<and> src_running s \<and>
     ch_accum s = replicate (nat (rx_channels (device cfg))) [] \<and> current_center_hz s = 0"
  by (rule open_of_reply [OF assms]) (simp add: read_reply_def sample_reply_def tree_api_def tree_value_def Let_def)

lemma sample_open:
  "\<exists>s w. open_source (tree_api sample_reply) sample_env (new_source default_config [] False) empty_world =
     Some (Inr (), s, w) \<and> task_id s = ''t1'' \<and> udp_fd s = Some 6"
  using sample_open_of [OF default_sweepable] by (fastforce simp: default_config_def)

theorem open_close_releases_witness:
  "\<exists>s1 w1 s2 w2. open_source (tree_api sample_reply) sample_env (new_source default_config [] False) empty_world =
       Some (Inr (), s1, w1) \<and> close_source 256 1 s1 w1 = (s2, w2) \<and>
     open_fds w1 \<subseteq> {6} \<and> open_fds w2 = {} \<and> notices w2 = notices w1 @ [task_stop_doc 256 1 ''t1'']"
proof -
  obtain s1 w1 where run: "open_source (tree_api sample_reply) sample_env (new_source default_config [] False)
      empty_world = Some (Inr (), s1, w1)" and f: "task_id s1 = ''t1''" "udp_fd s1 = Some 6"
    using sample_open by blast
  obtain s2 w2 where cl: "close_source 256 1 s1 w1 = (s2, w2)" by fastforce
  have "open_fds w1 - {} \<subseteq> set_option (udp_fd s1) \<and> open_fds w2 = {} \<and> udp_fd s2 = None \<and>
    task_id s2 = [] \<and> \<not> src_running s2 \<and>
    notices w2 = notices w1 @ (if task_id s1 = [] then [] else [task_stop_doc 256 1 (task_id s1)])"
    by (rule open_close_releases [OF _ _ _ _ run cl])
      (simp_all add: empty_world_def fresh_fd_def new_source_def reset_accum_def)
  then show ?thesis using run cl f by auto
qed



definition band100 :: sweep_config where
  "band100 = default_config\<lparr>sweep := default_sweep\<lparr>start_hz := 70000000, stop_hz := 100000000\<rparr>\<rparr>"

text \<open>Resuming is off by half a step: \<open>resume_hz_\<close> is a centre plus a step, while the plan takes it for
  the start of a window. After a preemption in the first window of 70 - 100 MHz (windows of 8 MHz)
  the next plan scans 82 - 86 MHz twice.\<close>

theorem resumed_plan_overlaps:
  "\<exists>b. let s = advance_resume (toy_wire\<lparr>header_of := (\<lambda>b. \<lparr>magic = 7, flags = 4, num_samples = 1, channel_index = 0,
           hdr_center_hz = entry_center band100 70000000\<rparr>)\<rparr>) b (new_source band100 [] False)
     in resume_hz s = 82000000 \<and>
        scan_positions band100 (resume_hz s) = Some [82000000, 90000000, 70000000, 78000000] \<and>
        f64 (78000000 + step_hz band100) = 86000000"
proof -
  have step: "step_hz band100 = 8000000"
    by (simp add: step_hz_def band100_def default_config_def default_sweep_def default_device_def round_eval)
  have b: "start_hz (sweep band100) = 70000000" "stop_hz (sweep band100) = 100000000"
    by (simp_all add: band100_def)
  have "positions 8000000 100000000 82000000 = Some [82000000, 90000000]"
    by (rule positions_eval, simp add: center_at_def float_simps,
        simp add: next_pos_def float_simps, rule positions_eval, simp add: center_at_def float_simps)
      (rule positions_none_left, simp add: center_at_def next_pos_def float_simps)
  moreover have "positions 8000000 82000000 70000000 = Some [70000000, 78000000]"
    by (rule positions_eval, simp add: center_at_def float_simps,
        simp add: next_pos_def float_simps, rule positions_eval, simp add: center_at_def float_simps)
      (rule positions_none_left, simp add: center_at_def next_pos_def float_simps)
  ultimately have plan: "scan_positions band100 82000000 = Some [82000000, 90000000, 70000000, 78000000]"
    by (simp add: scan_positions_def step b)
  have center: "entry_center band100 70000000 = 74000000"
    by (simp add: entry_center_def step float_simps)
  show ?thesis
    by (rule exI [of _ "replicate 11 0"])
      (simp add: advance_resume_def toy_wire_def new_source_def reset_accum_def center plan step b Let_def float_simps)
qed

text \<open>\<open>queryDeviceCount\<close> always answers, with at least one device, after between one and five exchanges
  of the same query; unless the last of them was answered there were exactly five.\<close>

theorem query_device_count_bounds:
  "let (n, w') = query_device_count api ns now_ms outcomes w
   in 1 \<le> n \<and> (\<exists>k\<in>{1..5}. exchanged w' = exchanged w @ replicate k (health_query_doc ns now_ms) \<and>
        (k = 5 \<or> received (outcomes (k - 1))))"
proof -
  obtain r n where q: "query_loop outcomes 0 0 no_response = (r, n)" by fastforce
  have n: "1 \<le> n \<and> n \<le> 5 \<and> (n = 5 \<or> received (outcomes (n - 1)))"
    using query_loop_attempts [OF q] by (auto split: if_splits)
  moreover have "1 \<le> fst (query_device_count api ns now_ms outcomes w)"
    by (rule query_device_count_ge)
  ultimately show ?thesis
    by (auto simp: query_device_count_def q Let_def intro!: bexI [of _ n])
qed

text \<open>Two requests made at different clock readings never share an identifier.\<close>

theorem request_ids_distinct:
  "make_req_id m = make_req_id n \<longleftrightarrow> m = n"
  using show_hex_inj by (auto simp: make_req_id_def)

subsection \<open>The task of the source is the one it asked for\<close>

lemma bind_udp_exchanged: "bind_udp sock bound port s w = (r, s', w') \<Longrightarrow> exchanged w' = exchanged w \<and> task_id s' = task_id s"
  by (auto simp: bind_udp_def close_fd_def Let_def split: option.splits if_splits)

lemma finish_open_task:
  assumes "finish_open env port ctrl s w = (r, s', w')"
  shows "task_id s' = task_id s \<and> exchanged w' = exchanged w"
proof -
  let ?s = "s\<lparr>prebound_port := 0\<rparr>"
  obtain s3 w3 where c: "close_fd ?s w = (s3, w3)" by fastforce
  obtain r4 s4 w4 where b: "bind_udp (env_socket2 env) (env_bound2 env) ctrl s3 w3 = (r4, s4, w4)"
    by (metis prod_cases3)
  have "task_id s3 = task_id s \<and> exchanged w3 = exchanged w" using c by (auto simp: close_fd_def split: option.splits)
  then show ?thesis using assms c b bind_udp_exchanged [OF b]
    by (auto simp: finish_open_def Let_def reset_accum_def split: if_splits sum.splits)
qed

lemma request_names_itself:
  "build_scan_request s now_ms rid = Some req \<Longrightarrow> \<exists>ms. req = JObj ms \<and> (''request_id'', JStr rid) \<in> set ms"
  by (auto simp: build_scan_request_def Let_def bind_eq_Some_conv)

lemma submit_task_accepted:
  assumes "submit_task api env s w = Some (Inr ctrl, s', w')"
  shows "\<exists>b j ms. received (env_response env) \<and> resp_body (env_response env) = b \<and> json_parse api b = Some j \<and>
     (value_str api j ''status'' ''REJECTED'' = Some ''ACCEPTED'' \<or> value_bool api j ''accepted'' False = Some True) \<and>
     value_str api j ''task_id'' [] = Some (task_id s') \<and>
     exchanged w' = exchanged w @ [JObj ms] \<and> (''request_id'', JStr (make_req_id (env_now_ns env))) \<in> set ms"
  using assms request_names_itself [of s "env_now_ms env" "make_req_id (env_now_ns env)"]
  by (force simp: submit_task_def read_reply_def Let_def split: option.splits if_splits prod.splits bool.splits)

text \<open>C24. The source and the channel together. When \<open>open\<close> succeeds with the outcome of an exchange for its request,
  in whatever interleaving with the connection's callbacks, then the reply answered the identifier of that
  request and came in after it was made, it accepted the task, the task id the source holds (and later
  stops) is the reply's, and the one document submitted names the same request.\<close>

theorem opened_task_is_own:
  assumes "chan_run api acts new_channel = Some c"
    and "waiter c = Returned (make_req_id (env_now_ns env)) (env_response env)"
    and "open_source api env s w = Some (Inr (), s', w')"
  shows "\<exists>b j ms. answers api b (make_req_id (env_now_ns env)) \<and> fresh_response acts b \<and> json_parse api b = Some j \<and>
     (value_str api j ''status'' ''REJECTED'' = Some ''ACCEPTED'' \<or> value_bool api j ''accepted'' False = Some True) \<and>
     value_str api j ''task_id'' [] = Some (task_id s') \<and>
     exchanged w' = exchanged w @ [JObj ms] \<and> (''request_id'', JStr (make_req_id (env_now_ns env))) \<in> set ms"
  using assms(3)
proof (cases rule: open_source_cases)
  case (3 s1 w1 port ctrl s2 w2)
  have "good_response api acts (make_req_id (env_now_ns env)) (env_response env)"
    using channel_inv_run [OF assms(1)] assms(2) by (simp add: channel_inv_def)
  then show ?thesis
    using submit_task_accepted [OF 3(2)] finish_open_task [OF 3(3)] bind_udp_exchanged [OF 3(1)]
    by (auto simp: good_response_def)
qed simp_all


text \<open>An accepting reply that names the request.\<close>

definition own_reply :: "(string \<times> json) list" where
  "own_reply = [(''ok'', JObj [(''request_id'', JStr ''acq-ff''), (''status'', JStr ''ACCEPTED''), (''task_id'', JStr ''t1''),
     (''streams'', JArr [JObj [(''udp_port'', JInt 6000)]])])]"

lemma id_255: "make_req_id 255 = ''acq-ff''"
  by code_simp

theorem opened_task_is_own_witness:
  "\<exists>c s' w'. chan_run (tree_api own_reply) [ConnectionOpen, ReceiverOpen ''tmp'', CallExchange ''req'' ''acq-ff'', ReadyWake, RunWork,
       MessageIn ''ok'', ResultWake] new_channel = Some c \<and>
     waiter c = Returned (make_req_id 255) (env_response sample_env) \<and>
     open_source (tree_api own_reply) sample_env (new_source default_config [] False) empty_world = Some (Inr (), s', w') \<and>
     task_id s' = ''t1'' \<and> answers (tree_api own_reply) ''ok'' (make_req_id 255) \<and>
     (\<exists>ms. exchanged w' = [JObj ms] \<and> (''request_id'', JStr ''acq-ff'') \<in> set ms)"
proof -
  let ?api = "tree_api own_reply"
  let ?acts = "[ConnectionOpen, ReceiverOpen ''tmp'', CallExchange ''req'' ''acq-ff'', ReadyWake, RunWork, MessageIn ''ok'', ResultWake]"
  have ns: "env_now_ns sample_env = 255" "env_response sample_env = \<lparr>received = True, resp_body = ''ok''\<rparr>"
    by (simp_all add: sample_env_def)
  have ans: "answers ?api ''ok'' (make_req_id 255)"
    by (simp add: id_255 answers_def own_reply_def tree_api_def tree_value_def)
  obtain c where run: "chan_run ?api ?acts new_channel = Some c"
    and c: "waiter c = Returned (make_req_id (env_now_ns sample_env)) (env_response sample_env)"
    unfolding ns id_255
    by (simp add: new_channel_def on_response_def begin_exchange_def answers_def own_reply_def tree_api_def
        tree_value_def no_response_def)
  have "read_reply ?api [] ''ok'' = (''t1'', Inr 6000)"
    by (simp add: read_reply_def own_reply_def tree_api_def tree_value_def Let_def)
  then obtain s' w' where op: "open_source ?api sample_env (new_source default_config [] False) empty_world = Some (Inr (), s', w')"
    and t: "task_id s' = ''t1''"
    using open_of_reply [OF default_sweepable] by (fastforce simp: default_config_def)
  have "\<exists>ms. exchanged w' = [JObj ms] \<and> (''request_id'', JStr ''acq-ff'') \<in> set ms"
    using opened_task_is_own [OF run c op] by (auto simp: empty_world_def ns id_255)
  then show ?thesis using run c op t ans unfolding ns by blast
qed

end
