(* ===== verification/SweepLoop.thy ===== *)
theory SweepLoop
  imports Scanner SourceTask
begin

section \<open>The sweep loop and the IQ source interface (\<open>sweepLoop\<close>, \<open>IqSource.hpp\<close>)\<close>

text \<open>
  \<open>sweepLoop\<close> only knows the interface \<open>IqSource\<close>: it is defined over the operations it calls and
  instantiated with \<open>TaskManagerIqSource\<close>. Another thread may clear \<open>running_\<close> at any time, so a run
  is described by its rounds, the iterations of the outer loop whose test found the flag set, each
  with its visits, those of the inner loop. The sleeps change nothing. None is undefined behaviour
  or divergence of an operation; a \<open>next\<close> that is still waiting when its events end leaves the loop
  inside that call (\<open>InNext\<close>).

  The locale \<open>iq_source\<close> is what the loop relies on: an invariant that every operation keeps,
  \<open>open\<close> being called on an idle source only, and that \<open>close\<close> leaves the source idle.
\<close>

datatype loop_end = Stopped | InNext

record ('o, 'k, 'v) round =
  rd_open :: 'o
  rd_close :: 'k
  rd_visits :: "('v \<times> bool \<times> (nat \<Rightarrow> timestamp)) list"

type_synonym ('o, 's) open_op = "'o \<Rightarrow> 's \<Rightarrow> (bool \<times> 's) option"
type_synonym ('k, 's) close_op = "'k \<Rightarrow> 's \<Rightarrow> 's"
type_synonym ('v, 's) next_op = "'v \<Rightarrow> 's \<Rightarrow> next_result \<times> 's"

text \<open>The inner loop: the flag of a visit is what \<open>!running_\<close> after \<open>next\<close> finds.\<close>

fun dwell_loop ::
  "('v, 's) next_op \<Rightarrow> (sample list \<Rightarrow> sample list) \<Rightarrow> ('v \<times> bool \<times> (nat \<Rightarrow> timestamp)) list \<Rightarrow>
   scanner \<Rightarrow> 's \<Rightarrow> (loop_end \<times> detection list \<times> scanner \<times> 's) option" where
  "dwell_loop nxt fft [] sc s = Some (Stopped, [], sc, s)"
| "dwell_loop nxt fft ((v, running, now) # vs) sc s =
     (case nxt v s of
        (Blocked, s) \<Rightarrow> Some (InNext, [], sc, s)
      | (Ended, s) \<Rightarrow> Some (Stopped, [], sc, s)
      | (Delivered d, s) \<Rightarrow>
          if \<not> running then Some (Stopped, [], sc, s)
          else (case process_dwell_all fft now d sc of None \<Rightarrow> None
            | Some (dets, sc) \<Rightarrow>
                map_option (\<lambda>(e, dets', r). (e, dets @ dets', r)) (dwell_loop nxt fft vs sc s)))"

fun sweep_loop ::
  "('o, 's) open_op \<Rightarrow> ('k, 's) close_op \<Rightarrow> ('v, 's) next_op \<Rightarrow> (sample list \<Rightarrow> sample list) \<Rightarrow>
   ('o, 'k, 'v) round list \<Rightarrow> scanner \<Rightarrow> 's \<Rightarrow> (loop_end \<times> detection list \<times> scanner \<times> 's) option" where
  "sweep_loop opn cls nxt fft [] sc s = Some (Stopped, [], sc, s)"
| "sweep_loop opn cls nxt fft (r # rs) sc s =
     (case opn (rd_open r) s of None \<Rightarrow> None
      | Some (False, s) \<Rightarrow> sweep_loop opn cls nxt fft rs sc (cls (rd_close r) s)
      | Some (True, s) \<Rightarrow>
         (case dwell_loop nxt fft (rd_visits r) sc s of None \<Rightarrow> None
          | Some (InNext, dets, sc, s) \<Rightarrow> Some (InNext, dets, sc, s)
          | Some (Stopped, dets, sc, s) \<Rightarrow>
              map_option (\<lambda>(e, dets', q). (e, dets @ dets', q))
                (sweep_loop opn cls nxt fft rs sc (cls (rd_close r) s))))"

subsection \<open>What the loop relies on\<close>

locale iq_source =
  fixes opn :: "('o, 's) open_op" and cls :: "('k, 's) close_op" and nxt :: "('v, 's) next_op"
    and good_open :: "'o \<Rightarrow> bool" and inv :: "'s \<Rightarrow> bool" and idle :: "'s \<Rightarrow> bool"
  assumes open_inv: "\<lbrakk>inv s; idle s; good_open oe; opn oe s = Some (b, s')\<rbrakk> \<Longrightarrow> inv s'"
    and close_inv: "inv s \<Longrightarrow> inv (cls k s) \<and> idle (cls k s)"
    and next_inv: "\<lbrakk>inv s; nxt v s = (r, s')\<rbrakk> \<Longrightarrow> inv s'"
begin

lemma dwell_loop_inv:
  assumes "inv s" and "dwell_loop nxt fft vs sc s = Some (e, dets, sc', s')"
  shows "inv s'"
  using assms
proof (induction vs arbitrary: sc s e dets)
  case (Cons visit vs)
  obtain v running now where visit: "visit = (v, running, now)" by (cases visit)
  obtain r s1 where nx: "nxt v s = (r, s1)" by fastforce
  note keep = next_inv [OF Cons.prems(1) nx]
  show ?case
  proof (cases r)
    case (Delivered d)
    show ?thesis
    proof (cases "running")
      case True
      then obtain dets1 sc1 e2 dets2 where "dwell_loop nxt fft vs sc1 s1 = Some (e2, dets2, sc', s')"
        using Cons.prems(2) Delivered nx visit by (auto split: option.splits)
      then show ?thesis using Cons.IH keep by fastforce
    next
      case False
      then show ?thesis using Cons.prems(2) Delivered nx visit keep by simp
    qed
  qed (use Cons.prems(2) nx visit keep in simp_all)
qed simp

lemma sweep_loop_inv:
  assumes "inv s" and "idle s" and "\<forall>r\<in>set rs. good_open (rd_open r)"
    and "sweep_loop opn cls nxt fft rs sc s = Some (e, dets, sc', s')"
  shows "inv s' \<and> (e = Stopped \<longrightarrow> idle s')"
  using assms
proof (induction rs arbitrary: sc s e dets)
  case (Cons r rs)
  obtain b s1 where op: "opn (rd_open r) s = Some (b, s1)"
    using Cons.prems(4) by (auto split: option.splits)
  have keep: "inv s1" using open_inv [OF Cons.prems(1,2) _ op] Cons.prems(3) by simp
  show ?case
  proof (cases b)
    case False
    then show ?thesis
      using Cons.IH [of "cls (rd_close r) s1"] Cons.prems(3,4) op keep close_inv [of s1] by simp
  next
    case True
    then obtain e1 dets1 sc1 s2 where dl: "dwell_loop nxt fft (rd_visits r) sc s1 = Some (e1, dets1, sc1, s2)"
      using Cons.prems(4) op by (auto split: option.splits)
    note keep2 = dwell_loop_inv [OF keep dl]
    show ?thesis
    proof (cases e1)
      case InNext
      then show ?thesis using Cons.prems(4) op True dl keep keep2 by simp
    next
      case Stopped
      then obtain dets2 where "sweep_loop opn cls nxt fft rs sc1 (cls (rd_close r) s2) = Some (e, dets2, sc', s')"
        using Cons.prems(4) op True dl by auto
      then show ?thesis
        using Cons.IH [of "cls (rd_close r) s2"] Cons.prems(3) close_inv [of s2] keep2 by simp
    qed
  qed
qed simp

end

text \<open>A source whose \<open>open\<close> always comes back keeps the whole loop defined.\<close>

locale total_iq_source = iq_source +
  assumes open_total: "\<lbrakk>inv s; idle s; good_open oe\<rbrakk> \<Longrightarrow> opn oe s \<noteq> None"
begin

lemma dwell_loop_total:
  assumes "scannable (sc_cfg sc)" and "scanner_ok sc"
  shows "\<exists>e dets sc' s'. dwell_loop nxt fft vs sc s = Some (e, dets, sc', s') \<and>
     scanner_ok sc' \<and> sc_cfg sc' = sc_cfg sc"
  using assms
proof (induction vs arbitrary: sc s)
  case (Cons visit vs)
  obtain v running now where visit: "visit = (v, running, now)" by (cases visit)
  obtain r s1 where nx: "nxt v s = (r, s1)" by fastforce
  show ?case
  proof (cases "\<exists>d. r = Delivered d \<and> running")
    case True
    then obtain d where d: "r = Delivered d" and running by blast
    obtain dets1 sc1 where p: "process_dwell_all fft now d sc = Some (dets1, sc1)"
      and ok: "scanner_ok sc1" "sc_cfg sc1 = sc_cfg sc"
      using process_dwell_all_ok [OF Cons.prems] by blast
    then obtain e dets2 sc2 s2 where "dwell_loop nxt fft vs sc1 s1 = Some (e, dets2, sc2, s2)"
      "scanner_ok sc2" "sc_cfg sc2 = sc_cfg sc"
      using Cons.IH [of sc1 s1] Cons.prems(1) by auto
    then show ?thesis using visit nx d \<open>running\<close> p by simp
  next
    case False
    then show ?thesis using visit nx Cons.prems by (cases r) auto
  qed
qed simp

lemma sweep_loop_total:
  assumes "inv s" and "idle s" and "\<forall>r\<in>set rs. good_open (rd_open r)"
    and "scannable (sc_cfg sc)" and "scanner_ok sc"
  shows "\<exists>e dets sc' s'. sweep_loop opn cls nxt fft rs sc s = Some (e, dets, sc', s') \<and>
     scanner_ok sc' \<and> sc_cfg sc' = sc_cfg sc"
  using assms
proof (induction rs arbitrary: sc s)
  case (Cons r rs)
  obtain b s1 where op: "opn (rd_open r) s = Some (b, s1)"
    using open_total [OF Cons.prems(1,2)] Cons.prems(3) by fastforce
  have keep: "inv s1" using open_inv [OF Cons.prems(1,2) _ op] Cons.prems(3) by simp
  show ?case
  proof (cases b)
    case False
    then show ?thesis
      using Cons.IH [of "cls (rd_close r) s1" sc] Cons.prems op close_inv [OF keep] by simp
  next
    case True
    obtain e1 dets1 sc1 s2 where dl: "dwell_loop nxt fft (rd_visits r) sc s1 = Some (e1, dets1, sc1, s2)"
      and sc1: "scanner_ok sc1" "sc_cfg sc1 = sc_cfg sc"
      using dwell_loop_total [OF Cons.prems(4,5), of fft "rd_visits r" s1] by blast
    have keep2: "inv s2" by (rule dwell_loop_inv [OF keep dl])
    show ?thesis
    proof (cases e1)
      case InNext
      then show ?thesis using op True dl sc1 by simp
    next
      case Stopped
      obtain e dets2 sc2 s3 where
        "sweep_loop opn cls nxt fft rs sc1 (cls (rd_close r) s2) = Some (e, dets2, sc2, s3)"
        "scanner_ok sc2" "sc_cfg sc2 = sc_cfg sc"
        using Cons.IH [of "cls (rd_close r) s2" sc1] Cons.prems close_inv [OF keep2] sc1 by auto
      then show ?thesis using op True dl Stopped by simp
    qed
  qed
qed simp

end

subsection \<open>TaskManagerIqSource is such a source\<close>

text \<open>
  The state of the instance is the object, the world and the receive events that have arrived on the
  socket but were not read yet: a visit adds those that arrive while it runs, and a new or closed
  socket has none.
\<close>

type_synonym task_state = "task_src \<times> world \<times> recv_event list"

definition task_open :: "'j json_api \<Rightarrow> (open_env, task_state) open_op" where
  "task_open api env st = (case st of (s, w, q) \<Rightarrow>
     map_option (\<lambda>(r, s, w). (r = Inr (), s, w, [])) (open_source api env s w))"

definition task_close :: "(nat \<times> int, task_state) close_op" where
  "task_close k st = (case k of (ns, now_ms) \<Rightarrow> case st of (s, w, q) \<Rightarrow>
     case close_source ns now_ms s w of (s, w) \<Rightarrow> (s, w, []))"

definition task_next :: "wire_api \<Rightarrow> (recv_event list, task_state) next_op" where
  "task_next wa es st = (case st of (s, w, q) \<Rightarrow>
     case next_dwell wa (q @ es) s of (r, s, q) \<Rightarrow> (r, s, w, q))"

definition task_inv :: "wire_api \<Rightarrow> sweep_config \<Rightarrow> nat set \<Rightarrow> task_state \<Rightarrow> bool" where
  "task_inv wa cfg others st = (case st of (s, w, q) \<Rightarrow>
     sweepable cfg \<and> centers_nonneg wa \<and> src_cfg s = cfg \<and> owns others s w \<and> accum_ok s \<and> resume_ok s)"

definition task_idle :: "task_state \<Rightarrow> bool" where
  "task_idle st = (case st of (s, w, q) \<Rightarrow> udp_fd s = None \<and> task_id s = [])"

definition fresh_sockets :: "nat set \<Rightarrow> open_env \<Rightarrow> bool" where
  "fresh_sockets others env \<longleftrightarrow> fresh_fd (env_socket env) others \<and> fresh_fd (env_socket2 env) others"

lemma finish_open_fields:
  assumes "finish_open env local_port ctrl s w = (r, s', w')" and "accum_ok s"
  shows "src_cfg s' = src_cfg s \<and> resume_hz s' = resume_hz s \<and> accum_ok s'"
proof -
  let ?s = "s\<lparr>prebound_port := 0\<rparr>"
  obtain s3 w3 where c: "close_fd ?s w = (s3, w3)" by fastforce
  obtain r4 s4 w4 where b: "bind_udp (env_socket2 env) (env_bound2 env) ctrl s3 w3 = (r4, s4, w4)"
    by (metis prod_cases3)
  note f = close_fd_fields [OF c] bind_udp_fields [OF b]
  have acc: "accum_ok ((reset_accum t)\<lparr>first_task_packet := True, src_running := True\<rparr>)" for t
    by (simp add: accum_ok_def reset_accum_def)
  show ?thesis using assms c b f acc
    unfolding finish_open_def Let_def
    by (auto simp: accum_ok_def split: if_split_asm sum.split_asm prod.split_asm)
qed

lemma open_source_fields:
  assumes "open_source api env s w = Some (r, s', w')" and "accum_ok s"
  shows "src_cfg s' = src_cfg s \<and> resume_hz s' = resume_hz s \<and> accum_ok s'"
  using assms(1)
proof (cases rule: open_source_cases)
  case (1 e)
  then show ?thesis using bind_udp_fields [OF 1(1)] assms(2) by (simp add: accum_ok_def)
next
  case (2 s1 w1 port e)
  then show ?thesis
    using bind_udp_fields [OF 2(1)] submit_task_Some [OF 2(2)] assms(2) by (simp add: accum_ok_def)
next
  case (3 s1 w1 port ctrl s2 w2)
  note f = bind_udp_fields [OF 3(1)] submit_task_Some [OF 3(2)]
  have "accum_ok s2" using f assms(2) by (simp add: accum_ok_def)
  then show ?thesis using finish_open_fields [OF 3(3)] f by simp
qed

lemma open_source_total:
  assumes "sweepable (src_cfg s)" and "resume_ok s"
  shows "open_source api env s w \<noteq> None"
proof -
  have sub: "submit_task api env s1 w1 \<noteq> None"
    if "src_cfg s1 = src_cfg s" "resume_hz s1 = resume_hz s" for s1 w1
  proof -
    have "resume_ok s1" using that assms(2) resume_ok_cong by blast
    moreover have "sweepable (src_cfg s1)" using that(1) assms(1) by simp
    ultimately obtain req where "build_scan_request s1 (env_now_ms env) (make_req_id (env_now_ns env)) = Some req"
      using build_total [of s1 "env_now_ms env" "make_req_id (env_now_ns env)"] by blast
    then show ?thesis by (simp add: submit_task_def Let_def split: prod.split)
  qed
  obtain r s1 w1 where b: "bind_udp (env_socket env) (env_bound env)
      (word_of_int (rx_port (receiver (src_cfg s)))) s w = (r, s1, w1)"
    by (metis prod_cases3)
  note f = bind_udp_fields [OF b]
  let ?port = "word_of_int (rx_port (receiver (src_cfg s))) :: 16 word"
  let ?local = "if ?port = 0 then env_sock_port env else ?port"
  have "submit_task api env (s1\<lparr>prebound_port := ?local\<rparr>) w1 \<noteq> None" using sub f by simp
  then obtain r2 s2 w2 where "submit_task api env (s1\<lparr>prebound_port := ?local\<rparr>) w1 = Some (r2, s2, w2)"
    by (metis not_Some_eq prod_cases3)
  then show ?thesis
    using b unfolding open_source_def Let_def
    by (cases r; cases r2; cases "finish_open env ?local (projr r2) s2 w2") simp_all
qed

lemma close_source_fields:
  assumes "close_source ns now_ms s w = (s', w')"
  shows "src_cfg s' = src_cfg s \<and> resume_hz s' = resume_hz s \<and> ch_accum s' = ch_accum s"
proof -
  obtain s1 w1 where st: "send_task_stop ns now_ms (s\<lparr>src_running := False\<rparr>) w = (s1, w1)" by fastforce
  have "close_fd s1 w1 = (s', w')" using assms st by (simp add: close_source_def)
  then show ?thesis using send_task_stop_fields [OF st] close_fd_fields by fastforce
qed

lemma next_dwell_resume:
  assumes "next_dwell wa es s = (r, s', rest)" and "accum_ok s" and "sweepable (src_cfg s)"
    and "centers_nonneg wa" and "resume_ok s"
  shows "resume_ok s' \<and> accum_ok s' \<and> src_cfg s' = src_cfg s \<and> udp_fd s' = udp_fd s \<and> task_id s' = task_id s"
  using next_loop_resume [of wa es 0 s r s' rest] next_loop_fields [of wa es 0 s r s' rest] assms
  by (simp add: next_dwell_def)

interpretation task_source: total_iq_source "task_open api" task_close "task_next wa" "fresh_sockets others"
  "task_inv wa cfg others" task_idle for api :: "'j json_api" and wa cfg others
proof unfold_locales
  fix st oe b st'
  assume *: "task_inv wa cfg others st" "task_idle st" "fresh_sockets others oe" "task_open api oe st = Some (b, st')"
  obtain s w q where st: "st = (s, w, q)" by (cases st)
  obtain r s' w' where run: "open_source api oe s w = Some (r, s', w')" and st': "st' = (s', w', [])"
    using *(4) by (auto simp: task_open_def st)
  have "owns others s' w'"
    using open_source_owns [OF _ _ _ _ run] * by (simp add: task_inv_def task_idle_def fresh_sockets_def st)
  then show "task_inv wa cfg others st'"
    using open_source_fields [OF run] *(1) by (auto simp: task_inv_def st st' resume_ok_def)
next
  fix st and k :: "nat \<times> int"
  assume *: "task_inv wa cfg others st"
  obtain s w q ns now_ms where st: "st = (s, w, q)" "k = (ns, now_ms)" by (cases st, cases k)
  obtain s' w' where cl: "close_source ns now_ms s w = (s', w')" by fastforce
  have "owns others s' w' \<and> udp_fd s' = None \<and> task_id s' = []"
    using close_source_owns [OF _ cl, of others] * by (simp add: task_inv_def st)
  then show "task_inv wa cfg others (task_close k st) \<and> task_idle (task_close k st)"
    using close_source_fields [OF cl] * cl
    by (auto simp: task_inv_def task_idle_def task_close_def st resume_ok_def accum_ok_def)
next
  fix st v r st'
  assume *: "task_inv wa cfg others st" "task_next wa v st = (r, st')"
  obtain s w q where st: "st = (s, w, q)" by (cases st)
  obtain s' q' where run: "next_dwell wa (q @ v) s = (r, s', q')" and st': "st' = (s', w, q')"
    using *(2) by (auto simp: task_next_def st split: prod.splits)
  show "task_inv wa cfg others st'"
    using next_dwell_resume [OF run] *(1) owns_cong [of s' s w w others] by (simp add: task_inv_def st st')
next
  fix st oe
  assume *: "task_inv wa cfg others st"
  obtain s w q where "st = (s, w, q)" by (cases st)
  then show "task_open api oe st \<noteq> None"
    using open_source_total [of s api oe w] * by (auto simp: task_inv_def task_open_def)
qed

subsection \<open>Properties of the loop\<close>

text \<open>C3. The sweep loop never gets stuck and never leaks. From a fresh source and a fresh scanner,
  for any sequence of broker answers, socket outcomes, packets and stop requests, the run is defined
  (no \<open>open\<close> diverges, no dwell reads outside its arrays), the scanner invariant holds at its end, and
  once the loop has left (\<open>Stopped\<close>) no socket is open, no task id is held and the source is not
  running any more; while it waits inside \<open>next\<close> it holds at most one socket.\<close>

theorem sweep_loop_total_and_clean:
  assumes "sweepable cfg" and "scannable cfg" and "centers_nonneg wa" and "new_scanner cfg = Inr sc"
    and "\<forall>r\<in>set rs. fresh_sockets (open_fds w) (rd_open r)"
  shows "\<exists>e dets sc' s' w' q.
     sweep_loop (task_open api) task_close (task_next wa) fft rs sc (new_source cfg dev required, w, []) =
       Some (e, dets, sc', s', w', q) \<and>
     scanner_ok sc' \<and> src_cfg s' = cfg \<and> open_fds w' - open_fds w \<subseteq> set_option (udp_fd s') \<and>
     (e = Stopped \<longrightarrow> open_fds w' = open_fds w \<and> udp_fd s' = None \<and> task_id s' = [])"
proof -
  let ?st = "(new_source cfg dev required, w, [] :: recv_event list)"
  have src: "src_cfg (new_source cfg dev required) = cfg" "udp_fd (new_source cfg dev required) = None"
    "task_id (new_source cfg dev required) = []" "accum_ok (new_source cfg dev required)"
    by (simp_all add: new_source_def)
  have inv: "task_inv wa cfg (open_fds w) ?st" and idle: "task_idle ?st"
    using assms(1,3) src new_source_resume by (simp_all add: task_inv_def task_idle_def owns_def)
  have sc: "scannable (sc_cfg sc)" "scanner_ok sc" using new_scanner_ok [OF assms(4)] assms(2) by simp_all
  obtain e dets sc' st' where
    run: "sweep_loop (task_open api) task_close (task_next wa) fft rs sc ?st = Some (e, dets, sc', st')"
    and ok: "scanner_ok sc'"
    using task_source.sweep_loop_total [OF inv idle assms(5) sc] by blast
  have after: "task_inv wa cfg (open_fds w) st' \<and> (e = Stopped \<longrightarrow> task_idle st')"
    by (rule task_source.sweep_loop_inv [OF inv idle assms(5) run])
  obtain s' w' q where st': "st' = (s', w', q)" by (cases st')
  have own: "owns (open_fds w) s' w'" "src_cfg s' = cfg"
    and left: "e = Stopped \<longrightarrow> udp_fd s' = None \<and> task_id s' = []"
    using after by (simp_all add: task_inv_def task_idle_def st')
  have "open_fds w' - open_fds w \<subseteq> set_option (udp_fd s')"
    using own by (auto simp: owns_def split: option.splits)
  moreover have "e = Stopped \<longrightarrow> open_fds w' = open_fds w \<and> udp_fd s' = None \<and> task_id s' = []"
    using own left by (auto simp: owns_def)
  ultimately show ?thesis using run ok own st' by blast
qed

lemma toy_centers: "centers_nonneg toy_wire"
  unfolding centers_nonneg_def toy_wire_def wire_api.simps iq_header.simps by (intro allI of_nat_0_le_iff)

theorem sweep_loop_total_and_clean_witness:
  "\<exists>sc e dets sc' s' w' q. new_scanner default_config = Inr sc \<and>
     sweep_loop (task_open (tree_api sample_reply)) task_close (task_next toy_wire) id
       [\<lparr>rd_open = sample_env, rd_close = (256, 1), rd_visits = [([RecvFailed], True, \<lambda>ch. 0)]\<rparr>] sc
       (new_source default_config [] False, empty_world, []) = Some (e, dets, sc', s', w', q) \<and>
     scanner_ok sc' \<and> (e \<noteq> Stopped \<or> open_fds w' = {})"
proof -
  obtain sc where sc: "new_scanner default_config = Inr sc"
    using new_scanner_Inr default_scannable by (auto simp: scannable_def)
  show ?thesis
    using sweep_loop_total_and_clean [OF default_sweepable default_scannable toy_centers sc,
        of "[\<lparr>rd_open = sample_env, rd_close = (256, 1), rd_visits = [([RecvFailed], True, \<lambda>ch. 0)]\<rparr>]"
          empty_world "tree_api sample_reply" id "[]" False] sc
    by (fastforce simp: fresh_sockets_def fresh_fd_def empty_world_def)
qed

end
