(* ===== verification/Publisher.thy ===== *)
theory Publisher
  imports Json Machine
begin

section \<open>The detection publisher (\<open>AmqpPublisher\<close>)\<close>

text \<open>
  \<open>publish\<close> is called from the scanners' threads and posts work to the broker thread, which is the only
  one that sends. A move of the machine is one call or one piece of posted work; posted work runs in
  the order it was posted. \<open>stop\<close> posts the closing of the connection behind what is there, and
  returns when the broker thread has ended. The base64 encoder is third-party code, a parameter.
\<close>

definition detection_doc :: "(real list \<Rightarrow> string) \<Rightarrow> detection \<Rightarrow> json" where
  "detection_doc b64 d = JObj
     ([(''msg_type'', JStr ''RF_DETECTION''), (''schema_version'', JStr schema_version),
       (''timestamp_ms'', JInt (to_ms (det_timestamp d))), (''scanner_id'', JStr (det_scanner_id d)),
       (''center_freq_hz'', JNum (center_freq_hz d)), (''bandwidth_hz'', JNum (det_bandwidth_hz d)),
       (''power_db'', JNum (power_db d)), (''snr_db'', JNum (snr_db d)), (''channel'', JInt (channel d))] @
      (case iq_snapshot d of None \<Rightarrow> [] | Some xs \<Rightarrow>
         if xs = [] then []
         else [(''iq_snapshot_b64'', JStr (b64 xs)),
               (''snapshot_sample_rate_sps'', JNum (snapshot_sample_rate_sps d))]))"

datatype pub_post = SendPost json | ClosePost

record publisher =
  pub_container :: bool
  pub_queue_open :: bool
  pub_stopping :: bool
  pub_closed :: bool
  posts :: "pub_post list"
  sent :: "json list"
  pub_accepted :: "json list"

definition new_publisher :: publisher where
  "new_publisher = \<lparr>pub_container = False, pub_queue_open = False, pub_stopping = False, pub_closed = False,
     posts = [], sent = [], pub_accepted = []\<rparr>"

datatype pub_action = StartPub | SenderOpen | Publish detection | RunPost | StopPub | JoinPub

text \<open>\<open>publish\<close>; \<open>pub_accepted\<close> is the history of what was posted.\<close>

definition publish :: "(real list \<Rightarrow> string) \<Rightarrow> detection \<Rightarrow> publisher \<Rightarrow> publisher" where
  "publish b64 d p =
     (if \<not> pub_queue_open p \<or> pub_stopping p then p
      else (let msg = detection_doc b64 d
            in p\<lparr>posts := posts p @ [SendPost msg], pub_accepted := pub_accepted p @ [msg]\<rparr>))"

text \<open>The broker thread: the sender is set before the queue is published, so a posted send finds it.\<close>

fun run_pub_post :: "pub_post \<Rightarrow> publisher \<Rightarrow> publisher" where
  "run_pub_post (SendPost msg) p = p\<lparr>sent := sent p @ [msg]\<rparr>"
| "run_pub_post ClosePost p = p\<lparr>pub_closed := True\<rparr>"

text \<open>\<open>stop\<close> up to the join: with a work queue the close is posted, without one the container is stopped.\<close>

definition stop_publisher :: "publisher \<Rightarrow> publisher" where
  "stop_publisher p = (let p = p\<lparr>pub_stopping := True\<rparr>
     in if \<not> pub_container p then p
        else if pub_queue_open p then p\<lparr>posts := posts p @ [ClosePost]\<rparr>
        else p\<lparr>pub_closed := True\<rparr>)"

definition pub_step :: "(real list \<Rightarrow> string) \<Rightarrow> pub_action \<Rightarrow> publisher \<Rightarrow> publisher option" where
  "pub_step b64 a p = (case a of
       StartPub \<Rightarrow> if pub_container p \<or> pub_stopping p then None else Some (p\<lparr>pub_container := True\<rparr>)
     | SenderOpen \<Rightarrow> if pub_container p \<and> \<not> pub_closed p then Some (p\<lparr>pub_queue_open := True\<rparr>) else None
     | Publish d \<Rightarrow> Some (publish b64 d p)
     | RunPost \<Rightarrow> (case posts p of [] \<Rightarrow> None
         | w # ws \<Rightarrow> if pub_container p \<and> \<not> pub_closed p then Some (run_pub_post w (p\<lparr>posts := ws\<rparr>)) else None)
     | StopPub \<Rightarrow> if pub_stopping p then None else Some (stop_publisher p)
     | JoinPub \<Rightarrow> if pub_stopping p \<and> pub_closed p \<and> pub_container p
         then Some (p\<lparr>pub_queue_open := False, pub_container := False\<rparr>) else None)"

inductive pub_reach :: "(real list \<Rightarrow> string) \<Rightarrow> publisher \<Rightarrow> bool" for b64 where
  pub_start: "pub_reach b64 new_publisher"
| pub_move: "pub_reach b64 p \<Longrightarrow> pub_step b64 a p = Some p' \<Longrightarrow> pub_reach b64 p'"

subsection \<open>Nothing accepted is lost\<close>

definition pending :: "publisher \<Rightarrow> json list" where
  "pending p = List.map_filter (\<lambda>w. case w of SendPost m \<Rightarrow> Some m | ClosePost \<Rightarrow> None) (posts p)"

lemma pending_posts [simp]:
  "posts p = [] \<Longrightarrow> pending p = []" "posts p = SendPost m # ws \<Longrightarrow> pending p = m # pending (p\<lparr>posts := ws\<rparr>)"
  "posts p = ClosePost # ws \<Longrightarrow> pending p = pending (p\<lparr>posts := ws\<rparr>)"
  "pending (p\<lparr>posts := posts p @ [SendPost m]\<rparr>) = pending p @ [m]"
  "pending (p\<lparr>posts := posts p @ [ClosePost]\<rparr>) = pending p"
  by (simp_all add: pending_def List.map_filter_simps List.map_filter_def)

lemma pending_cong: "posts p' = posts p \<Longrightarrow> pending p' = pending p"
  by (simp add: pending_def)

text \<open>A posted close is the last post, and nothing is posted before the queue is there or after the
  connection has closed.\<close>

definition publisher_inv :: "publisher \<Rightarrow> bool" where
  "publisher_inv p \<longleftrightarrow> sent p @ pending p = pub_accepted p \<and>
     (if pub_stopping p
      then (if pub_container p \<and> \<not> pub_closed p then \<exists>ms. posts p = map SendPost ms @ [ClosePost] else posts p = [])
      else \<not> pub_closed p \<and> (\<exists>ms. posts p = map SendPost ms)) \<and>
     (pub_queue_open p \<or> posts p = []) \<and> (pub_container p \<or> \<not> pub_queue_open p)"

lemma publish_inv:
  assumes "publisher_inv p"
  shows "publisher_inv (publish b64 d p)"
proof (cases "\<not> pub_queue_open p \<or> pub_stopping p")
  case True
  then show ?thesis using assms by (simp add: publish_def)
next
  case False
  obtain ms where ms: "posts p = map SendPost ms" using False assms by (auto simp: publisher_inv_def)
  let ?m = "detection_doc b64 d"
  have p': "publish b64 d p = p\<lparr>posts := posts p @ [SendPost ?m], pub_accepted := pub_accepted p @ [?m]\<rparr>"
    using False by (simp add: publish_def Let_def)
  have "posts p @ [SendPost ?m] = map SendPost (ms @ [?m])" using ms by simp
  then have "\<exists>ms. posts p @ [SendPost ?m] = map SendPost ms" by blast
  moreover have "pending (p\<lparr>posts := posts p @ [SendPost ?m], pub_accepted := pub_accepted p @ [?m]\<rparr>) = pending p @ [?m]"
    using pending_posts(4) [of p ?m] by (simp add: pending_def)
  ultimately show ?thesis using False assms
    unfolding p' publisher_inv_def by simp
qed

lemma run_post_inv:
  assumes "publisher_inv p" and "posts p = w # ws" and "pub_container p" and "\<not> pub_closed p"
  shows "publisher_inv (run_pub_post w (p\<lparr>posts := ws\<rparr>))"
proof (cases w)
  case (SendPost m)
  have tail: "\<exists>ms'. ws = map SendPost ms' @ [ClosePost]" if "w # ws = map SendPost ms @ [ClosePost]" for ms
    using that SendPost by (cases ms) auto
  have tail': "\<exists>ms'. ws = map SendPost ms'" if "w # ws = map SendPost ms" for ms
    using that by (cases ms) auto
  have "pending p = m # pending (p\<lparr>posts := ws\<rparr>)" using assms(2) SendPost by simp
  then have "sent p @ [m] @ pending (p\<lparr>posts := ws, sent := sent p @ [m]\<rparr>) = pub_accepted p"
    using assms(1) by (simp add: publisher_inv_def pending_def)
  then show ?thesis using assms tail tail' SendPost
    by (auto simp: publisher_inv_def)
next
  case ClosePost
  have "pub_stopping p" using assms ClosePost by (auto simp: publisher_inv_def Cons_eq_map_conv split: if_splits)
  then obtain ms where "w # ws = map SendPost ms @ [ClosePost]" using assms by (auto simp: publisher_inv_def)
  then have "ws = []" using ClosePost by (cases ms) auto
  then show ?thesis using assms ClosePost \<open>pub_stopping p\<close>
    by (auto simp: publisher_inv_def pending_def List.map_filter_simps)
qed

lemma stop_inv:
  assumes "publisher_inv p" and "\<not> pub_stopping p"
  shows "publisher_inv (stop_publisher p)"
proof -
  have "pending (p\<lparr>pub_stopping := True, posts := posts p @ [ClosePost]\<rparr>) = pending p"
    using pending_posts(5) [of p] by (simp add: pending_def)
  then show ?thesis using assms
    by (auto simp: stop_publisher_def publisher_inv_def Let_def pending_def)
qed

lemma step_inv:
  assumes "publisher_inv p" and "pub_step b64 a p = Some p'"
  shows "publisher_inv p'"
proof (cases a)
  case (Publish d)
  then have "p' = publish b64 d p" using assms(2) by (simp add: pub_step_def)
  then show ?thesis using publish_inv [OF assms(1)] by simp
next
  case RunPost
  then show ?thesis using assms run_post_inv by (auto simp: pub_step_def split: list.splits if_splits)
next
  case StopPub
  then show ?thesis using assms stop_inv by (auto simp: pub_step_def split: if_splits)
qed (use assms in \<open>auto simp: pub_step_def publisher_inv_def pending_def split: if_splits\<close>)

lemma reach_inv: "pub_reach b64 p \<Longrightarrow> publisher_inv p"
proof (induction rule: pub_reach.induct)
  case pub_start
  then show ?case by (simp add: publisher_inv_def new_publisher_def pending_def List.map_filter_simps)
next
  case (pub_move p a p')
  then show ?case using step_inv by blast
qed

fun pub_run :: "(real list \<Rightarrow> string) \<Rightarrow> pub_action list \<Rightarrow> publisher \<Rightarrow> publisher option" where
  "pub_run b64 [] p = Some p"
| "pub_run b64 (a # as) p = Option.bind (pub_step b64 a p) (pub_run b64 as)"

interpretation pubs: machine "pub_step b64" "pub_run b64" for b64
  by unfold_locales simp_all

lemma pub_reach_run: "pub_reach b64 p \<Longrightarrow> pub_run b64 as p = Some p' \<Longrightarrow> pub_reach b64 p'"
  by (rule pubs.run_keeps) (auto intro: pub_reach.pub_move)

text \<open>Every message is that of a detection \<open>publish\<close> was called with.\<close>

lemma step_messages:
  "pub_step b64 a p = Some p' \<Longrightarrow>
     set (pub_accepted p') \<subseteq> set (pub_accepted p) \<union> (case a of Publish d \<Rightarrow> {detection_doc b64 d} | _ \<Rightarrow> {})"
proof (cases a)
  case RunPost
  assume "pub_step b64 a p = Some p'"
  moreover have "pub_accepted (run_pub_post w q) = pub_accepted q" for w q by (cases w) simp_all
  ultimately show ?thesis using RunPost by (auto simp: pub_step_def split: list.splits if_splits)
qed (auto simp: pub_step_def publish_def stop_publisher_def Let_def split: if_splits)

lemma run_messages:
  assumes "pub_run b64 as p = Some p'"
  shows "set (pub_accepted p') \<subseteq> set (pub_accepted p) \<union> {detection_doc b64 d |d. Publish d \<in> set as}"
proof (rule pubs.run_keeps [OF assms])
  fix a q q' assume *: "a \<in> set as" "pub_step b64 a q = Some q'"
    and q: "set (pub_accepted q) \<subseteq> set (pub_accepted p) \<union> {detection_doc b64 d |d. Publish d \<in> set as}"
  show "set (pub_accepted q') \<subseteq> set (pub_accepted p) \<union> {detection_doc b64 d |d. Publish d \<in> set as}"
    using step_messages [OF *(2)] q *(1) by (cases a) auto
qed simp

lemma sent_messages:
  assumes "pub_run b64 as new_publisher = Some p" and "m \<in> set (sent p)"
  shows "\<exists>d. Publish d \<in> set as \<and> m = detection_doc b64 d"
proof -
  have "publisher_inv p" using reach_inv [OF pub_reach_run [OF pub_reach.pub_start assms(1)]] .
  then have "m \<in> set (pub_accepted p)" using assms(2) unfolding publisher_inv_def by (metis UnI1 set_append)
  then show ?thesis using run_messages [OF assms(1)] by (auto simp: new_publisher_def)
qed

lemma run_posts_closes:
  assumes "posts p = map SendPost ms @ [ClosePost]" and "pub_container p" and "\<not> pub_closed p"
  shows "\<exists>p'. pub_run b64 (replicate (length (posts p)) RunPost) p = Some p' \<and> pub_closed p'"
  using assms
proof (induction ms arbitrary: p)
  case (Cons m ms)
  let ?q = "run_pub_post (SendPost m) (p\<lparr>posts := map SendPost ms @ [ClosePost]\<rparr>)"
  have "pub_step b64 RunPost p = Some ?q" using Cons.prems by (simp add: pub_step_def)
  moreover have "\<exists>p'. pub_run b64 (replicate (length (posts ?q)) RunPost) ?q = Some p' \<and> pub_closed p'"
    using Cons.prems by (intro Cons.IH) simp_all
  ultimately show ?case using Cons.prems(1) by simp
qed (simp add: pub_step_def)

subsection \<open>Properties of the publisher\<close>



end
