(* ===== verification/Reports.thy ===== *)
theory Reports
  imports SweepLoop Publisher
begin

section \<open>Reports and the message schema (\<open>rf_detection.schema.json\<close>)\<close>

text \<open>
  What every detection of a scanner has in common, carried from \<open>processDwell\<close> through the sweep loop,
  and the types of the message that is made of it. The schema of the repository is a value of
  \<open>object_schema\<close>; \<open>accepts\<close> is the part of JSON Schema that file uses (types, \<open>const\<close>, bounds,
  \<open>required\<close>, \<open>additionalProperties\<close>, and one \<open>if\<close>/\<open>then\<close> between two keys).
\<close>

subsection \<open>Typed messages\<close>

datatype value_type = VString | VConst string | VInteger "int option" | VNumber | VPositive | VNumbers nat nat

record object_schema =
  properties :: "(string \<times> value_type) list"
  required_keys :: "string list"
  additional :: bool
  implied_keys :: "(string \<times> string) list"

fun number_value :: "json \<Rightarrow> real option" where
  "number_value (JInt i) = Some (of_int i)"
| "number_value (JNum x) = Some x"
| "number_value _ = None"

fun has_type :: "value_type \<Rightarrow> json \<Rightarrow> bool" where
  "has_type VString j = (case j of JStr _ \<Rightarrow> True | _ \<Rightarrow> False)"
| "has_type (VConst c) j = (case j of JStr s \<Rightarrow> s = c | _ \<Rightarrow> False)"
| "has_type (VInteger low) j = (case number_value j of None \<Rightarrow> False
     | Some x \<Rightarrow> x = of_int \<lfloor>x\<rfloor> \<and> (case low of None \<Rightarrow> True | Some m \<Rightarrow> of_int m \<le> x))"
| "has_type VNumber j = (number_value j \<noteq> None)"
| "has_type VPositive j = (case number_value j of None \<Rightarrow> False | Some x \<Rightarrow> 0 < x)"
| "has_type (VNumbers low high) j = (case j of
       JArr js \<Rightarrow> low \<le> length js \<and> length js \<le> high \<and> list_all (\<lambda>x. number_value x \<noteq> None) js
     | _ \<Rightarrow> False)"

fun accepts :: "object_schema \<Rightarrow> json \<Rightarrow> bool" where
  "accepts sch (JObj ms) =
     (distinct (map fst ms) \<and> list_all (\<lambda>k. k \<in> fst ` set ms) (required_keys sch) \<and>
      list_all (\<lambda>(k, v). case map_of (properties sch) k of None \<Rightarrow> additional sch | Some t \<Rightarrow> has_type t v) ms \<and>
      list_all (\<lambda>(a, b). a \<in> fst ` set ms \<longrightarrow> b \<in> fst ` set ms) (implied_keys sch))"
| "accepts sch _ = False"

text \<open>The schema file, and the same with the two members that version 1.2 of the message added.\<close>

definition schema_file :: object_schema where
  "schema_file = \<lparr>properties =
     [(''msg_type'', VConst ''RF_DETECTION''), (''schema_version'', VString), (''timestamp_ms'', VInteger None),
      (''scanner_id'', VString), (''center_freq_hz'', VNumber), (''bandwidth_hz'', VInteger (Some 1)),
      (''power_db'', VNumber), (''channel'', VInteger (Some 0)), (''iq_snapshot'', VNumbers 2 2048),
      (''snapshot_sample_rate_sps'', VPositive)],
     required_keys = [''msg_type'', ''schema_version'', ''timestamp_ms'', ''scanner_id'', ''center_freq_hz'',
       ''bandwidth_hz'', ''power_db'', ''channel''],
     additional = False, implied_keys = [(''iq_snapshot'', ''snapshot_sample_rate_sps'')]\<rparr>"

definition schema_1_2 :: object_schema where
  "schema_1_2 = schema_file\<lparr>properties := (''snr_db'', VNumber) # (''iq_snapshot_b64'', VString) # properties schema_file,
     required_keys := ''snr_db'' # required_keys schema_file,
     implied_keys := (''iq_snapshot_b64'', ''snapshot_sample_rate_sps'') # implied_keys schema_file\<rparr>"

subsection \<open>What a scanner reports\<close>

text \<open>The snapshot is part of the dwell: up to 1024 complex samples, interleaved.\<close>

definition snapshot_ok :: "real list \<Rightarrow> bool" where
  "snapshot_ok xs \<longleftrightarrow> xs \<noteq> [] \<and> length xs \<le> 2048 \<and> even (length xs)"

definition report_ok :: "sweep_config \<Rightarrow> detection \<Rightarrow> bool" where
  "report_ok cfg d \<longleftrightarrow> det_scanner_id d = scanner_id cfg \<and> 0 \<le> channel d \<and> channel d < rx_channels (device cfg) \<and>
     1 \<le> det_bandwidth_hz d \<and> det_bandwidth_hz d = of_int \<lfloor>det_bandwidth_hz d\<rfloor> \<and>
     snapshot_sample_rate_sps d = sample_rate (device cfg) \<and>
     (case iq_snapshot d of None \<Rightarrow> False | Some xs \<Rightarrow> snapshot_ok xs)"

lemma f64_integer: "f64 (of_int n) = of_int \<lfloor>f64 (of_int n)\<rfloor>"
proof (cases "\<bar>n\<bar> \<le> 2 ^ 53")
  case True
  then show ?thesis using r64.fl_int by simp
next
  case False
  have "\<bar>of_int n :: real\<bar> = of_int \<bar>n\<bar>" by simp
  then have big: "2 ^ 53 \<le> \<bar>of_int n :: real\<bar>"
    using False by (metis linorder_le_cases of_int_le_iff of_int_numeral of_int_power)
  have "53 < bexp (of_int n) + 1"
  proof (rule ccontr)
    assume "\<not> ?thesis"
    then have "(2::real) powi (bexp (of_int n) + 1) \<le> 2 powi 53" by (intro power_int_increasing) auto
    then show False using bexp_large [of "of_int n"] big by auto
  qed
  then have "0 \<le> lastplace 53 (- 1074) (of_int n)" by (simp add: lastplace_def)
  then obtain m where "lastplace 53 (- 1074) (of_int n) = int m" using nonneg_int_cases by blast
  then have "f64 (of_int n) = of_int (if n = 0 then 0 else rne (of_int n / 2 ^ m) * 2 ^ m)"
    by (simp add: f64_def rnd_def)
  then show ?thesis by (simp only: floor_of_int)
qed

lemma snapshot_is_ok: "samples \<noteq> [] \<Longrightarrow> snapshot_ok (snapshot samples)"
proof -
  assume "samples \<noteq> []"
  have "length (snapshot samples) = 2 * min 1024 (length samples)"
  proof -
    have "length (concat (map (\<lambda>z. [fst z, snd z]) zs)) = 2 * length zs" for zs :: "sample list"
      by (induction zs) auto
    then show ?thesis by (simp add: snapshot_def snap_samples_def min.commute)
  qed
  moreover have "0 < length samples" using \<open>samples \<noteq> []\<close> by simp
  ultimately show ?thesis unfolding snapshot_ok_def
    by (metis dvd_triv_left length_greater_0_conv min_less_iff_conj mult_le_mono2 min.cobounded1 nat_0_less_mult_iff
        numeral_times_numeral zero_less_numeral semiring_norm(12,13,14,11))
qed

lemma detection_of_ok:
  assumes "samples \<noteq> []" and "int ch < rx_channels (device cfg)"
  shows "report_ok cfg (detection_of cfg now ch (snapshot samples) c)"
proof -
  define n where "n = unat (cand_f_hi c - cand_f_lo c)"
  have "1 \<le> f64 (real n) \<and> f64 (real n) = of_int \<lfloor>f64 (real n)\<rfloor>" if "cand_f_lo c < cand_f_hi c"
  proof
    have "cand_f_hi c - cand_f_lo c \<noteq> 0" using that by auto
    then have "1 \<le> n" unfolding n_def by (metis One_nat_def Suc_leI unat_gt_0)
    then show "1 \<le> f64 (real n)" by (intro r64.fl_ge_fixed) simp_all
    show "f64 (real n) = of_int \<lfloor>f64 (real n)\<rfloor>" using f64_integer [of "int n"] by simp
  qed
  then show ?thesis using snapshot_is_ok [OF assms(1)] assms(2)
    by (simp add: report_ok_def detection_of_def default_detection_def n_def)
qed

lemma process_dwell_reports:
  assumes "process_dwell fft now ch center samples sc = Some (out, sc')" and "samples \<noteq> []"
    and "int ch < rx_channels (device (sc_cfg sc))"
  shows "list_all (report_ok (sc_cfg sc)) out \<and> sc_cfg sc' = sc_cfg sc \<and> length (processors sc') = length (processors sc)"
  using assms detection_of_ok
  by (auto simp: process_dwell_local channel_step_def put_channel_def list_all_iff Let_def split: option.splits)

text \<open>A scanner has at most one processor per configured channel, and reads whole frames only.\<close>

definition reporting :: "scanner \<Rightarrow> bool" where
  "reporting sc \<longleftrightarrow> int (length (processors sc)) \<le> max 0 (rx_channels (device (sc_cfg sc))) \<and> 0 < fft_size (sweep (sc_cfg sc))"

lemma process_channels_reports:
  assumes "process_channels fft now d chs sc = Some (out, sc')" and "reporting sc"
    and "\<forall>ch\<in>set chs. ch < length (processors sc)"
  shows "list_all (report_ok (sc_cfg sc)) out \<and> sc_cfg sc' = sc_cfg sc \<and> reporting sc'"
  using assms
proof (induction chs arbitrary: sc out)
  case (Cons ch chs)
  show ?case
  proof (cases "int (length (ch_samples d ! ch)) < fft_size (sweep (sc_cfg sc))")
    case True
    then show ?thesis using Cons by simp
  next
    case False
    then obtain out1 sc1 out2 where one: "process_dwell fft (now ch) ch (dwell_center_hz d) (ch_samples d ! ch) sc = Some (out1, sc1)"
      and rest: "process_channels fft now d chs sc1 = Some (out2, sc')" and out: "out = out1 @ out2"
      using Cons.prems(1) by (auto split: option.splits)
    have "ch_samples d ! ch \<noteq> []" "int ch < rx_channels (device (sc_cfg sc))"
      using False Cons.prems(2,3) by (auto simp: reporting_def)
    note first = process_dwell_reports [OF one this]
    then show ?thesis using Cons.IH [OF rest] Cons.prems(2,3) out by (auto simp: reporting_def)
  qed
qed simp

lemma process_dwell_all_reports:
  assumes "process_dwell_all fft now d sc = Some (out, sc')" and "reporting sc"
  shows "list_all (report_ok (sc_cfg sc)) out \<and> sc_cfg sc' = sc_cfg sc \<and> reporting sc'"
  using assms unfolding process_dwell_all_def Let_def by (intro process_channels_reports) auto

lemma dwell_loop_reports:
  assumes "dwell_loop nxt fft vs sc s = Some (e, dets, sc', s')" and "reporting sc"
  shows "list_all (report_ok (sc_cfg sc)) dets \<and> sc_cfg sc' = sc_cfg sc \<and> reporting sc'"
  using assms
proof (induction vs arbitrary: sc s e dets)
  case (Cons visit vs)
  obtain v running now where visit: "visit = (v, running, now)" by (cases visit)
  obtain r s1 where nx: "nxt v s = (r, s1)" by fastforce
  show ?case
  proof (cases "\<exists>d. r = Delivered d \<and> running")
    case True
    then obtain d where d: "r = Delivered d" running by blast
    obtain dets1 sc1 e2 dets2 where one: "process_dwell_all fft now d sc = Some (dets1, sc1)"
      and rest: "dwell_loop nxt fft vs sc1 s1 = Some (e2, dets2, sc', s')" and dets: "dets = dets1 @ dets2"
      using Cons.prems(1) visit nx d by (auto split: option.splits)
    show ?thesis using Cons.IH [OF rest] process_dwell_all_reports [OF one Cons.prems(2)] dets by simp
  next
    case False
    then show ?thesis using Cons.prems visit nx by (cases r) auto
  qed
qed simp

lemma sweep_loop_reports:
  assumes "sweep_loop opn cls nxt fft rs sc s = Some (e, dets, sc', s')" and "reporting sc"
  shows "list_all (report_ok (sc_cfg sc)) dets \<and> sc_cfg sc' = sc_cfg sc \<and> reporting sc'"
  using assms
proof (induction rs arbitrary: sc s e dets)
  case (Cons r rs)
  obtain b s1 where op: "opn (rd_open r) s = Some (b, s1)" using Cons.prems(1) by (auto split: option.splits)
  show ?case
  proof (cases b)
    case False
    then show ?thesis using Cons op by simp
  next
    case True
    then obtain e1 dets1 sc1 s2 where dl: "dwell_loop nxt fft (rd_visits r) sc s1 = Some (e1, dets1, sc1, s2)"
      using Cons.prems(1) op by (auto split: option.splits)
    note first = dwell_loop_reports [OF dl Cons.prems(2)]
    show ?thesis
    proof (cases e1)
      case InNext
      then show ?thesis using Cons.prems(1) op True dl first by simp
    next
      case Stopped
      then obtain dets2 where "sweep_loop opn cls nxt fft rs sc1 (cls (rd_close r) s2) = Some (e, dets2, sc', s')"
        and "dets = dets1 @ dets2"
        using Cons.prems(1) op True dl by auto
      then show ?thesis using Cons.IH first by fastforce
    qed
  qed
qed simp

lemma new_scanner_reporting: "new_scanner cfg = Inr sc \<Longrightarrow> 0 < fft_size (sweep cfg) \<Longrightarrow> reporting sc"
  using new_scanner_ok [of cfg sc] by (simp add: reporting_def)

subsection \<open>What is sent\<close>

lemma detection_doc_1_2:
  assumes "report_ok cfg d" and "0 < sample_rate (device cfg)"
  shows "accepts schema_1_2 (detection_doc b64 d)"
proof -
  obtain xs where "iq_snapshot d = Some xs" "xs \<noteq> []" using assms(1) by (auto simp: report_ok_def snapshot_ok_def split: option.splits)
  then show ?thesis using assms
    by (auto simp: detection_doc_def schema_1_2_def schema_file_def report_ok_def)
qed

lemma detection_doc_not_1_1: "\<not> accepts schema_file (detection_doc b64 d)"
  by (simp add: detection_doc_def schema_file_def)

end
