(* ===== verification/WorkQueue.thy ===== *)
theory WorkQueue
  imports Machine "HOL-Library.Sublist"
begin

section \<open>A queue, a worker thread and a condition variable\<close>

text \<open>
  Three classes hand work to a thread of their own through a \<open>std::queue\<close>, a mutex and a condition
  variable: \<open>AlertConsumer\<close>, \<open>P25GrantConsumer\<close> and \<open>DetectionDb\<close>. This theory is the machine they
  share; the record \<open>worker_code\<close> is what each of them writes differently, and it is filled in from
  its source in the theory of the class.

  The machine interleaves the worker, the producers and the thread that stops the object. A move is
  one critical section, or what happens between two of them. The worker holds the mutex across two
  moves in one place only, \<open>Deciding\<close>: it has found the condition of its wait false and is about to
  block, which is what \<open>wait\<close> does atomically with the release of the mutex. A notification finds
  the worker \<open>Blocked\<close> or is lost. Wake-ups without a notification are possible (\<open>Spurious\<close>), but
  nothing guarantees one.
\<close>

datatype 'a taken = Leave | Take "'a list" "'a list"

record 'a worker_code =
  loop_test :: "bool \<Rightarrow> bool"
  awake :: "bool \<Rightarrow> 'a list \<Rightarrow> bool"
  timed_wait :: bool
  take_work :: "bool \<Rightarrow> 'a list \<Rightarrow> 'a taken"
  last_batch :: "'a list \<Rightarrow> 'a list \<times> 'a list"
  push_work :: "'a \<Rightarrow> 'a list \<Rightarrow> 'a list"
  locked_stop :: bool
  producers_end_first :: bool

text \<open>
  After a wait whose condition is "work or stop": leave when stopped and nothing is left, else take
  the first element. The wait never ends with the flag down and an empty queue; that case takes
  nothing.
\<close>

definition take_one :: "bool \<Rightarrow> 'a list \<Rightarrow> 'a taken" where
  "take_one stopping q = (case q of [] \<Rightarrow> if stopping then Leave else Take [] [] | x # rest \<Rightarrow> Take [x] rest)"

lemma take_one_front: "take_one f q = Take b rest \<Longrightarrow> q = b @ rest"
  by (auto simp: take_one_def split: list.splits if_splits)

lemma take_one_leave: "take_one f q = Leave \<Longrightarrow> f \<and> q = []"
  by (auto simp: take_one_def split: list.splits if_splits)

lemma take_one_progress: "take_one True q = Take b rest \<Longrightarrow> length rest < length q"
  by (auto simp: take_one_def split: list.splits)

datatype 'a worker_pc = Head | Test | Deciding | Blocked | TimedOut | Handling "'a list" | Exited

datatype stop_pc = Serving | Flagged | Joining

text \<open>\<open>accepted\<close> and \<open>handled\<close> are the history: what was pushed, and the batches given to the handler.
  \<open>owed\<close> counts the producers between their push and their notification.\<close>

record 'a wq =
  items :: "'a list"
  stop_flag :: bool
  wpc :: "'a worker_pc"
  spc :: stop_pc
  producing :: bool
  owed :: nat
  accepted :: "'a list"
  handled :: "'a list list"

definition wq_init :: "'a wq" where
  "wq_init = \<lparr>items = [], stop_flag = False, wpc = Head, spc = Serving, producing = True, owed = 0,
     accepted = [], handled = []\<rparr>"

datatype 'a wq_action = Worker | Spurious | Push 'a | Notify | EndInput | SetFlag | NotifyStop

definition add_batch :: "'a list \<Rightarrow> 'a list list \<Rightarrow> 'a list list" where
  "add_batch b bs = (if b = [] then bs else bs @ [b])"

definition take_move :: "'a worker_code \<Rightarrow> 'a wq \<Rightarrow> 'a wq" where
  "take_move code s = (case take_work code (stop_flag s) (items s) of
       Leave \<Rightarrow> s\<lparr>wpc := Exited\<rparr>
     | Take b rest \<Rightarrow> s\<lparr>wpc := Handling b, items := rest\<rparr>)"

definition worker_move :: "'a worker_code \<Rightarrow> 'a wq \<Rightarrow> 'a wq option" where
  "worker_move code s = (case wpc s of
       Head \<Rightarrow> Some (if loop_test code (stop_flag s) then s\<lparr>wpc := Test\<rparr>
         else (case last_batch code (items s) of (b, rest) \<Rightarrow>
           s\<lparr>wpc := Exited, items := rest, handled := add_batch b (handled s)\<rparr>))
     | Test \<Rightarrow> Some (if awake code (stop_flag s) (items s) then take_move code s else s\<lparr>wpc := Deciding\<rparr>)
     | Deciding \<Rightarrow> Some (s\<lparr>wpc := Blocked\<rparr>)
     | Blocked \<Rightarrow> if timed_wait code then Some (s\<lparr>wpc := TimedOut\<rparr>) else None
     | TimedOut \<Rightarrow> Some (take_move code s)
     | Handling b \<Rightarrow> Some (s\<lparr>wpc := Head, handled := add_batch b (handled s)\<rparr>)
     | Exited \<Rightarrow> None)"

definition wake :: "'a wq \<Rightarrow> 'a wq" where
  "wake s = (if wpc s = Blocked then s\<lparr>wpc := Test\<rparr> else s)"

definition wq_move :: "'a worker_code \<Rightarrow> 'a wq_action \<Rightarrow> 'a wq \<Rightarrow> 'a wq option" where
  "wq_move code a s = (case a of
       Worker \<Rightarrow> worker_move code s
     | Spurious \<Rightarrow> if wpc s = Blocked then Some (wake s) else None
     | Push x \<Rightarrow> if producing s \<and> wpc s \<noteq> Deciding
         then Some (s\<lparr>items := push_work code x (items s), accepted := accepted s @ [x], owed := owed s + 1\<rparr>)
         else None
     | Notify \<Rightarrow> if owed s = 0 then None else Some (wake (s\<lparr>owed := owed s - 1\<rparr>))
     | EndInput \<Rightarrow> if producing s \<and> owed s = 0 \<and> (producers_end_first code \<or> spc s = Joining)
         then Some (s\<lparr>producing := False\<rparr>) else None
     | SetFlag \<Rightarrow> if spc s = Serving \<and> (producers_end_first code \<longrightarrow> \<not> producing s) \<and>
           (locked_stop code \<longrightarrow> wpc s \<noteq> Deciding)
         then Some (s\<lparr>stop_flag := True, spc := Flagged\<rparr>) else None
     | NotifyStop \<Rightarrow> if spc s = Flagged then Some (wake (s\<lparr>spc := Joining\<rparr>)) else None)"

fun wq_run :: "'a worker_code \<Rightarrow> 'a wq_action list \<Rightarrow> 'a wq \<Rightarrow> 'a wq option" where
  "wq_run code [] s = Some s"
| "wq_run code (a # as) s = Option.bind (wq_move code a s) (wq_run code as)"

interpretation wqs: machine "wq_move code" "wq_run code" for code :: "'a worker_code"
  by unfold_locales simp_all

inductive wq_reach :: "'a worker_code \<Rightarrow> 'a wq \<Rightarrow> bool" for code where
  start: "wq_reach code wq_init"
| move: "wq_reach code s \<Longrightarrow> wq_move code a s = Some s' \<Longrightarrow> wq_reach code s'"

lemma wq_reach_run: "wq_reach code s \<Longrightarrow> wq_run code as s = Some s' \<Longrightarrow> wq_reach code s'"
  by (rule wqs.run_keeps) (auto intro: wq_reach.move)

lemmas wq_moves = wq_move_def worker_move_def take_move_def wake_def

subsection \<open>Order\<close>

definition in_hand :: "'a wq \<Rightarrow> 'a list" where
  "in_hand s = (case wpc s of Handling b \<Rightarrow> b | _ \<Rightarrow> [])"

definition in_order :: "'a wq \<Rightarrow> 'a list" where
  "in_order s = concat (handled s) @ in_hand s @ items s"

lemma concat_add_batch [simp]: "concat (add_batch b bs) = concat bs @ b"
  by (simp add: add_batch_def)

text \<open>The worker takes from the front; a push appends, and may drop elements of the queue.\<close>

locale ordered_worker =
  fixes code :: "'a worker_code"
  assumes take_front: "take_work code f q = Take b rest \<Longrightarrow> q = b @ rest"
    and last_front: "last_batch code q = (b, rest) \<Longrightarrow> q = b @ rest"
    and push_subseq: "subseq (push_work code x q) (q @ [x])"
begin

lemma worker_in_order:
  assumes "worker_move code s = Some s'"
  shows "in_order s' = in_order s \<and> accepted s' = accepted s"
proof (cases "wpc s")
  case Head
  obtain b rest where lb: "last_batch code (items s) = (b, rest)" by fastforce
  then show ?thesis using assms Head last_front [OF lb]
    by (auto simp: worker_move_def in_order_def in_hand_def)
next
  case Test
  then show ?thesis using assms take_front [of "stop_flag s" "items s"]
    by (auto simp: worker_move_def take_move_def in_order_def in_hand_def split: taken.splits)
next
  case TimedOut
  then show ?thesis using assms take_front [of "stop_flag s" "items s"]
    by (auto simp: worker_move_def take_move_def in_order_def in_hand_def split: taken.splits)
qed (use assms in \<open>auto simp: worker_move_def in_order_def in_hand_def split: if_splits\<close>)

lemma wake_in_order [simp]: "in_order (wake s) = in_order s" "accepted (wake s) = accepted s"
  by (auto simp: wake_def in_order_def in_hand_def split: worker_pc.split)

lemma move_in_order:
  assumes "wq_move code a s = Some s'" and "\<forall>x. a \<noteq> Push x"
  shows "in_order s' = in_order s \<and> accepted s' = accepted s"
proof (cases a)
  case Worker
  then show ?thesis using worker_in_order assms(1) by (simp add: wq_move_def)
qed (use assms in \<open>auto simp: wq_move_def in_order_def in_hand_def wake_def split: if_splits worker_pc.splits\<close>)

lemma push_in_order:
  assumes "wq_move code (Push x) s = Some s'"
  shows "in_order s' = concat (handled s) @ in_hand s @ push_work code x (items s)"
    and "accepted s' = accepted s @ [x]"
  using assms by (auto simp: wq_move_def in_order_def in_hand_def split: if_splits)

lemma reach_subseq:
  assumes "wq_reach code s"
  shows "subseq (in_order s) (accepted s)"
  using assms
proof induction
  case start
  then show ?case by (simp add: wq_init_def in_order_def in_hand_def)
next
  case (move s a s')
  show ?case
  proof (cases "\<exists>x. a = Push x")
    case True
    then obtain x where a: "a = Push x" by blast
    have "subseq (in_order s') ((concat (handled s) @ in_hand s @ items s) @ [x])"
      unfolding push_in_order(1) [OF move(2) [unfolded a]] append_assoc
      by (intro list_emb_append_mono subseq_order.refl push_subseq)
    moreover have "subseq ((concat (handled s) @ in_hand s @ items s) @ [x]) (accepted s @ [x])"
      using list_emb_append_mono [OF move.IH [unfolded in_order_def] subseq_order.refl [of "[x]"]] by simp
    ultimately show ?thesis
      using push_in_order(2) [OF move(2) [unfolded a]] subseq_order.trans by fastforce
  next
    case False
    then show ?thesis using move.IH move_in_order [OF move(2)] by simp
  qed
qed

end

locale fifo_worker = ordered_worker +
  assumes push_append: "push_work code x q = q @ [x]"
begin

lemma reach_in_order: "wq_reach code s \<Longrightarrow> in_order s = accepted s"
proof (induction rule: wq_reach.induct)
  case start
  then show ?case by (simp add: wq_init_def in_order_def in_hand_def)
next
  case (move s a s')
  show ?case
  proof (cases "\<exists>x. a = Push x")
    case True
    then obtain x where a: "a = Push x" by blast
    show ?thesis
      using move.IH push_in_order [OF move(2) [unfolded a]] by (simp add: push_append in_order_def)
  next
    case False
    then show ?thesis using move.IH move_in_order [OF move(2)] by simp
  qed
qed

end

text \<open>A push that drops what is too much.\<close>

locale bounded_worker = ordered_worker +
  fixes limit :: nat
  assumes push_bound: "length q \<le> limit \<Longrightarrow> length (push_work code x q) \<le> limit"
begin

lemma take_bound: "length (items (take_move code s)) \<le> length (items s)"
  using take_front [of "stop_flag s" "items s"] by (auto simp: take_move_def split: taken.split)

lemma worker_bound:
  assumes "worker_move code s = Some s'"
  shows "length (items s') \<le> length (items s)"
proof (cases "wpc s")
  case Head
  obtain b rest where lb: "last_batch code (items s) = (b, rest)" by fastforce
  then show ?thesis using assms Head last_front [OF lb] by (auto simp: worker_move_def)
qed (use assms take_bound in \<open>auto simp: worker_move_def split: if_splits\<close>)

lemma reach_bound: "wq_reach code s \<Longrightarrow> length (items s) \<le> limit"
proof (induction rule: wq_reach.induct)
  case start
  then show ?case by (simp add: wq_init_def)
next
  case (move s a s')
  show ?case
  proof (cases a)
    case Worker
    then show ?thesis using move worker_bound [of s s'] by (simp add: wq_move_def)
  qed (use move push_bound in \<open>auto simp: wq_move_def wake_def split: if_splits\<close>)
qed

end

subsection \<open>Stopping\<close>

text \<open>The flag is up exactly while the object is being stopped.\<close>

lemma take_move_fields [simp]:
  "stop_flag (take_move code s) = stop_flag s" "spc (take_move code s) = spc s"
  "producing (take_move code s) = producing s"
  by (simp_all add: take_move_def split: taken.split)

lemma wake_fields [simp]:
  "stop_flag (wake s) = stop_flag s" "spc (wake s) = spc s" "producing (wake s) = producing s"
  "items (wake s) = items s"
  by (simp_all add: wake_def)

lemma worker_move_fields:
  "worker_move code s = Some s' \<Longrightarrow> stop_flag s' = stop_flag s \<and> spc s' = spc s \<and> producing s' = producing s"
  by (auto simp: worker_move_def split: worker_pc.splits if_splits prod.splits)

lemma reach_flag: "wq_reach code s \<Longrightarrow> stop_flag s \<longleftrightarrow> spc s \<noteq> Serving"
proof (induction rule: wq_reach.induct)
  case start
  then show ?case by (simp add: wq_init_def)
next
  case (move s a s')
  then show ?case
    by (cases a) (auto simp: wq_move_def dest!: worker_move_fields split: if_splits)
qed

text \<open>
  A worker that handles everything before it leaves: the producers have ended when the flag goes up,
  and neither way out of the loop leaves an element behind.
\<close>

locale draining_worker = fifo_worker +
  assumes ends_first: "producers_end_first code"
    and loop_on: "loop_test code False"
    and leave: "take_work code f q = Leave \<Longrightarrow> f \<and> q = []"
    and drains: "\<not> loop_test code f \<Longrightarrow> snd (last_batch code q) = []"
begin

lemma reach_ended: "wq_reach code s \<Longrightarrow> stop_flag s \<longrightarrow> \<not> producing s"
proof (induction rule: wq_reach.induct)
  case start
  then show ?case by (simp add: wq_init_def)
next
  case (move s a s')
  then show ?case using ends_first
    by (cases a) (auto simp: wq_move_def dest!: worker_move_fields split: if_splits)
qed

lemma take_move_exit:
  "wpc (take_move code s) = Exited \<Longrightarrow> stop_flag s \<and> items (take_move code s) = []"
  using leave [of "stop_flag s" "items s"] by (auto simp: take_move_def split: taken.splits)

lemma worker_exit:
  assumes "worker_move code s = Some s'" and "wpc s' = Exited"
  shows "stop_flag s' \<and> items s' = []"
proof (cases "wpc s")
  case Head
  obtain b rest where lb: "last_batch code (items s) = (b, rest)" by fastforce
  have "\<not> loop_test code (stop_flag s)" using assms Head lb by (auto simp: worker_move_def split: if_splits)
  then have "stop_flag s" "rest = []" using loop_on drains [of "stop_flag s" "items s"] lb by (metis, simp)
  then show ?thesis using assms Head lb by (auto simp: worker_move_def split: if_splits)
qed (use assms take_move_exit [of s] in \<open>auto simp: worker_move_def split: if_splits\<close>)

lemma reach_exited: "wq_reach code s \<Longrightarrow> wpc s = Exited \<longrightarrow> stop_flag s \<and> items s = []"
proof (induction rule: wq_reach.induct)
  case start
  then show ?case by (simp add: wq_init_def)
next
  case (move s a s')
  show ?case
  proof (cases a)
    case Worker
    then show ?thesis using move worker_exit [of s s'] by (simp add: wq_move_def)
  next
    case (Push x)
    then show ?thesis using move reach_ended [OF move(1)] by (auto simp: wq_move_def split: if_splits)
  qed (use move in \<open>auto simp: wq_move_def wake_def split: if_splits\<close>)
qed

lemma exited_all_handled:
  assumes "wq_reach code s" and "wpc s = Exited"
  shows "concat (handled s) = accepted s"
  using reach_in_order [OF assms(1)] reach_exited [OF assms(1)] assms(2)
  by (simp add: in_order_def in_hand_def)

end

text \<open>
  Once the flag is up, a worker that is not blocked, or that waits with a time-out, leaves by its own
  moves: the measure counts three moves per element and the distance to the exit.
\<close>

fun exit_rank :: "bool \<Rightarrow> 'a worker_pc \<Rightarrow> nat" where
  "exit_rank drain Head = (if drain then 2 else 1)"
| "exit_rank drain Test = (if drain then 1 else 3)"
| "exit_rank drain Deciding = 5"
| "exit_rank drain Blocked = 4"
| "exit_rank drain TimedOut = 3"
| "exit_rank drain (Handling b) = (if drain then 3 else 2)"
| "exit_rank drain Exited = 0"

definition exit_measure :: "'a worker_code \<Rightarrow> 'a wq \<Rightarrow> nat" where
  "exit_measure code s = 3 * length (items s) + exit_rank (loop_test code True) (wpc s)"

definition can_run :: "'a worker_code \<Rightarrow> 'a wq \<Rightarrow> bool" where
  "can_run code s \<longleftrightarrow> timed_wait code \<or> (wpc s \<noteq> Deciding \<and> wpc s \<noteq> Blocked)"

locale stopping_worker = ordered_worker +
  assumes awake_stop: "awake code True q"
    and take_progress: "\<lbrakk>loop_test code True; take_work code True q = Take b rest\<rbrakk> \<Longrightarrow> length rest < length q"
begin

lemma take_move_rank:
  assumes "stop_flag s"
  shows "exit_measure code (take_move code s) < 3 * length (items s) + (if loop_test code True then 1 else 3)"
    and "wpc (take_move code s) \<noteq> Deciding \<and> wpc (take_move code s) \<noteq> Blocked"
proof -
  have len: "length rest \<le> length (items s) \<and> (loop_test code True \<longrightarrow> length rest < length (items s))"
    if "take_work code True (items s) = Take b rest" for b rest
    using take_front [OF that] take_progress [OF _ that] by (metis length_append le_add2)
  show "exit_measure code (take_move code s) < 3 * length (items s) + (if loop_test code True then 1 else 3)"
    using len assms
    by (cases "take_work code True (items s)") (fastforce simp: take_move_def exit_measure_def)+
  show "wpc (take_move code s) \<noteq> Deciding \<and> wpc (take_move code s) \<noteq> Blocked"
    by (simp add: take_move_def split: taken.split)
qed

lemma worker_progress:
  assumes "stop_flag s" and "wpc s \<noteq> Exited" and "can_run code s"
  shows "\<exists>s'. worker_move code s = Some s' \<and> stop_flag s' \<and> can_run code s' \<and>
    exit_measure code s' < exit_measure code s"
proof (cases "wpc s")
  case Head
  obtain b rest where lb: "last_batch code (items s) = (b, rest)" by fastforce
  then show ?thesis using Head assms last_front [OF lb]
    by (auto simp: worker_move_def exit_measure_def can_run_def)
next
  case Test
  then show ?thesis using assms take_move_rank [OF assms(1)]
    by (auto simp: worker_move_def exit_measure_def can_run_def awake_stop)
next
  case TimedOut
  then show ?thesis using assms take_move_rank [OF assms(1)]
    by (auto simp: worker_move_def exit_measure_def can_run_def split: if_splits)
qed (use assms in \<open>auto simp: worker_move_def exit_measure_def can_run_def\<close>)

lemma worker_exits:
  assumes "stop_flag s" and "can_run code s"
  shows "\<exists>n s'. n \<le> exit_measure code s \<and> wq_run code (replicate n Worker) s = Some s' \<and> wpc s' = Exited"
proof -
  have "\<exists>n s'. n \<le> exit_measure code s \<and> wq_run code (replicate n Worker) s = Some s' \<and>
      (stop_flag s' \<and> can_run code s') \<and> wpc s' = Exited"
    by (rule wqs.runs_to_end) (use assms worker_progress in \<open>auto simp: wq_move_def\<close>)
  then show ?thesis by blast
qed

end

text \<open>Setting the flag under the mutex: the worker cannot be about to block when it goes up, so the
  notification that follows finds it blocked, or it sees the flag.\<close>

locale locked_worker = stopping_worker +
  assumes locked: "locked_stop code"
begin

lemma reach_not_lost:
  "wq_reach code s \<Longrightarrow> stop_flag s \<longrightarrow> wpc s \<noteq> Deciding \<and> (wpc s = Blocked \<longrightarrow> spc s = Flagged)"
proof (induction rule: wq_reach.induct)
  case start
  then show ?case by (simp add: wq_init_def)
next
  case (move s a s')
  show ?case
  proof (cases a)
    case Worker
    then have w: "worker_move code s = Some s'" using move by (simp add: wq_move_def)
    note f = worker_move_fields [OF w]
    show ?thesis
    proof
      assume "stop_flag s'"
      then have s: "stop_flag s" using f by simp
      then show "wpc s' \<noteq> Deciding \<and> (wpc s' = Blocked \<longrightarrow> spc s' = Flagged)"
        using w f move.IH take_move_rank(2) [OF s]
        by (auto simp: worker_move_def awake_stop split: worker_pc.splits if_splits prod.splits)
    qed
  qed (use move locked in \<open>auto simp: wq_move_def wake_def split: if_splits\<close>)
qed

lemma joining_can_run: "wq_reach code s \<Longrightarrow> spc s = Joining \<Longrightarrow> stop_flag s \<and> can_run code s"
  using reach_not_lost [of s] reach_flag [of code s] by (auto simp: can_run_def)

end

subsection \<open>What a worker implements\<close>

text \<open>
  The service all of them implement, without threads: what arrives waits, up to a limit beyond which
  the oldest is lost; a batch from the front is served when nothing else is; and it has been served.
  \<open>view\<close> forgets the threads, the flags and the notifications of the machine.
\<close>

record 'a service =
  waiting :: "'a list"
  serving :: "'a list"
  served :: "'a list"

definition limited :: "nat option \<Rightarrow> 'a list \<Rightarrow> 'a list" where
  "limited limit xs = (case limit of None \<Rightarrow> xs | Some n \<Rightarrow> keep_last n xs)"

definition idle_service :: "'a service" where
  "idle_service = \<lparr>waiting = [], serving = [], served = []\<rparr>"

definition view :: "'a wq \<Rightarrow> 'a service" where
  "view s = \<lparr>waiting = items s, serving = in_hand s, served = concat (handled s)\<rparr>"

definition fits :: "nat option \<Rightarrow> 'a list \<Rightarrow> bool" where
  "fits limit xs \<longleftrightarrow> (case limit of None \<Rightarrow> True | Some n \<Rightarrow> length xs \<le> n)"

lemma limited_fits: "fits limit (limited limit xs)"
  by (simp add: fits_def limited_def split: option.split)

lemma fits_shorter: "length ys \<le> length xs \<Longrightarrow> fits limit xs \<Longrightarrow> fits limit ys"
  by (auto simp: fits_def split: option.splits)

text \<open>A run of the service with the arrivals so far.\<close>

inductive service_run :: "nat option \<Rightarrow> 'a list \<Rightarrow> 'a service \<Rightarrow> bool" for limit where
  idle: "service_run limit [] idle_service"
| arrive: "service_run limit xs v \<Longrightarrow> service_run limit (xs @ [x]) (v\<lparr>waiting := limited limit (waiting v @ [x])\<rparr>)"
| begin_service: "\<lbrakk>service_run limit xs v; serving v = []; waiting v = b @ rest\<rbrakk> \<Longrightarrow>
    service_run limit xs (v\<lparr>waiting := rest, serving := b\<rparr>)"
| end_service: "service_run limit xs v \<Longrightarrow> service_run limit xs (v\<lparr>serving := [], served := served v @ serving v\<rparr>)"

text \<open>What the specification promises by itself: the limit, the order, and that an unlimited service loses
  nothing.\<close>

lemma limited_subseq: "subseq (limited limit xs) xs"
  by (simp add: limited_def keep_last_def suffix_drop suffix_imp_subseq split: option.split)

lemma idle_service_fits [simp]: "fits limit (waiting idle_service)"
  by (simp add: idle_service_def fits_def split: option.split)

lemma service_fits: "service_run limit xs v \<Longrightarrow> fits limit (waiting v)"
  by (induction rule: service_run.induct) (auto simp: limited_fits intro: fits_shorter [rotated])

lemma service_subseq: "service_run limit xs v \<Longrightarrow> subseq (served v @ serving v @ waiting v) xs"
proof (induction rule: service_run.induct)
  case (arrive xs v x)
  have "subseq ((served v @ serving v) @ limited limit (waiting v @ [x])) ((served v @ serving v) @ waiting v @ [x])"
    by (intro list_emb_append_mono subseq_order.refl limited_subseq)
  moreover have "subseq ((served v @ serving v @ waiting v) @ [x]) (xs @ [x])"
    by (intro list_emb_append_mono arrive.IH subseq_order.refl)
  ultimately show ?case using subseq_order.trans by fastforce
qed (auto simp: idle_service_def)

lemma service_complete: "service_run None xs v \<Longrightarrow> served v @ serving v @ waiting v = xs"
  by (induction rule: service_run.induct) (auto simp: idle_service_def limited_def)

lemma serve_at_once:
  assumes "service_run limit xs v" and "serving v = []" and "waiting v = b @ rest"
  shows "service_run limit xs (v\<lparr>waiting := rest, served := served v @ b\<rparr>)"
  using end_service [OF begin_service [OF assms]] assms(2) by (cases v) simp

lemma view_wake [simp]: "view (wake s) = view s"
  by (auto simp: view_def wake_def in_hand_def split: worker_pc.split)

subsection \<open>What was pushed\<close>

definition pushes :: "'a wq_action list \<Rightarrow> 'a list" where
  "pushes as = concat (map (\<lambda>a. case a of Push x \<Rightarrow> [x] | _ \<Rightarrow> []) as)"

lemma pushes_simps [simp]: "pushes [] = []" "pushes (as @ bs) = pushes as @ pushes bs"
  "pushes (a # as) = (case a of Push x \<Rightarrow> [x] | _ \<Rightarrow> []) @ pushes as"
  by (simp_all add: pushes_def)

lemma move_accepted:
  assumes "wq_move code a s = Some s'"
  shows "accepted s' = accepted s @ pushes [a]"
proof (cases a)
  case Worker
  then show ?thesis using assms
    by (auto simp: wq_move_def worker_move_def take_move_def split: worker_pc.splits if_splits prod.splits taken.splits)
qed (use assms in \<open>auto simp: wq_move_def wake_def split: if_splits\<close>)

lemma run_accepted: "wq_run code as s = Some s' \<Longrightarrow> accepted s' = accepted s @ pushes as"
  using wqs.run_traced [of code as s s' "\<lambda>pre t. accepted t = accepted s @ pushes pre" "[]"] move_accepted by fastforce

locale serving_worker = ordered_worker +
  fixes limit :: "nat option"
  assumes push_limited: "fits limit q \<Longrightarrow> push_work code x q = limited limit (q @ [x])"
begin

lemma take_refines:
  assumes "service_run limit xs (view s)" and "in_hand s = []"
  shows "service_run limit xs (view (take_move code s))"
proof (cases "take_work code (stop_flag s) (items s)")
  case Leave
  then show ?thesis using assms by (simp add: take_move_def view_def in_hand_def)
next
  case (Take b rest)
  then have "view (take_move code s) = (view s)\<lparr>waiting := rest, serving := b\<rparr>"
    by (simp add: take_move_def view_def in_hand_def)
  moreover have "service_run limit xs ((view s)\<lparr>waiting := rest, serving := b\<rparr>)"
    using assms take_front [OF Take] by (intro begin_service) (simp_all add: view_def)
  ultimately show ?thesis by simp
qed

lemma worker_refines:
  assumes "service_run limit xs (view s)" and "worker_move code s = Some s'"
  shows "service_run limit xs (view s')"
proof (cases "wpc s")
  case Head
  obtain b rest where lb: "last_batch code (items s) = (b, rest)" by fastforce
  have "service_run limit xs ((view s)\<lparr>waiting := rest, served := served (view s) @ b\<rparr>)"
    using last_front [OF lb] Head assms(1) by (intro serve_at_once) (simp_all add: view_def in_hand_def)
  then show ?thesis using assms Head lb
    by (auto simp: worker_move_def view_def in_hand_def)
next
  case Test
  then show ?thesis using assms take_refines [of xs s]
    by (auto simp: worker_move_def view_def in_hand_def split: if_splits)
next
  case TimedOut
  then show ?thesis using assms take_refines [of xs s]
    by (auto simp: worker_move_def in_hand_def)
next
  case (Handling b)
  have "view s' = (view s)\<lparr>serving := [], served := served (view s) @ serving (view s)\<rparr>"
    using assms(2) Handling by (auto simp: worker_move_def view_def in_hand_def)
  then show ?thesis using end_service [OF assms(1)] by simp
qed (use assms in \<open>auto simp: worker_move_def view_def in_hand_def split: if_splits\<close>)

lemma move_refines:
  assumes "service_run limit xs (view s)" and "wq_move code a s = Some s'"
  shows "service_run limit (xs @ pushes [a]) (view s')"
proof (cases a)
  case Worker
  then show ?thesis using worker_refines [OF assms(1)] assms(2) by (simp add: wq_move_def)
next
  case (Push x)
  have "fits limit (items s)" using service_fits [OF assms(1)] by (simp add: view_def)
  then have "view s' = (view s)\<lparr>waiting := limited limit (waiting (view s) @ [x])\<rparr>"
    using assms(2) Push push_limited
    by (auto simp: wq_move_def view_def in_hand_def split: if_splits)
  then show ?thesis using arrive [OF assms(1), of x] Push by simp
qed (use assms in \<open>auto simp: wq_move_def view_def wake_def in_hand_def split: if_splits worker_pc.splits\<close>)

lemma run_refines:
  assumes "service_run limit xs (view s)" and "wq_run code as s = Some s'"
  shows "service_run limit (xs @ pushes as) (view s')"
  using wqs.run_traced [of code as s s' "\<lambda>pre t. service_run limit (xs @ pushes pre) (view t)" "[]"] assms move_refines
  by fastforce

lemma run_implements: "wq_run code as wq_init = Some s \<Longrightarrow> service_run limit (pushes as) (view s)"
proof -
  assume run: "wq_run code as wq_init = Some s"
  have "view (wq_init :: 'a wq) = idle_service" by (simp add: view_def wq_init_def in_hand_def idle_service_def)
  then show ?thesis using run_refines [OF _ run, of "[]"] by (simp add: service_run.idle)
qed

end

subsection \<open>What the workers do with the database\<close>

text \<open>How a transaction ended: \<open>ConnectionLost\<close> carries whether the reconnection worked.\<close>

datatype tx_outcome = Committed | ConnectionLost bool | TxFailed

end
