(* ===== verification/SignalDb.thy ===== *)
theory SignalDb
  imports Types WorkQueue
begin

section \<open>The detection writer (\<open>DetectionDb\<close>)\<close>

text \<open>
  \<open>push\<close> queues a detection; a worker thread takes batches and writes each in one transaction to the
  table \<open>signals\<close>. The statements of \<open>flush\<close> are modelled on a table that is a list of rows, with the
  arithmetic of the query in double precision. Times in the table are microseconds. SQL leaves open
  which of several equally near rows a query with LIMIT 1 returns: \<open>tie\<close> is that choice. The columns
  the program never reads or writes are represented by \<open>modulation\<close> and \<open>classified\<close>.
\<close>

subsection \<open>The worker\<close>

definition push_detection :: "detection \<Rightarrow> detection list \<Rightarrow> detection list" where
  "push_detection d q = q @ [d]"

text \<open>The batch size is an \<open>int\<close>; the wait ends with the time-out too, and the loop is left without
  looking at the queue, which is then taken as a whole.\<close>

definition db_worker :: "int \<Rightarrow> detection worker_code" where
  "db_worker batch_size = \<lparr>loop_test = (\<lambda>stopped. \<not> stopped),
     awake = (\<lambda>stopped q. batch_size \<le> int (length q) \<or> stopped), timed_wait = True,
     take_work = (\<lambda>stopped q. Take (take (nat batch_size) q) (drop (nat batch_size) q)),
     last_batch = (\<lambda>q. (q, [])), push_work = push_detection, locked_stop = False, producers_end_first = True\<rparr>"

lemma db_worker_simps [simp]:
  "loop_test (db_worker n) f \<longleftrightarrow> \<not> f" "awake (db_worker n) f q \<longleftrightarrow> n \<le> int (length q) \<or> f"
  "timed_wait (db_worker n)" "take_work (db_worker n) f q = Take (take (nat n) q) (drop (nat n) q)"
  "last_batch (db_worker n) q = (q, [])" "push_work (db_worker n) d q = q @ [d]"
  "\<not> locked_stop (db_worker n)" "producers_end_first (db_worker n)"
  by (simp_all add: db_worker_def push_detection_def)

interpretation db: draining_worker "db_worker n" for n
  by unfold_locales auto

interpretation db: stopping_worker "db_worker n" for n
  by unfold_locales auto

interpretation db: serving_worker "db_worker n" None for n
  by unfold_locales (simp add: limited_def)

lemma db_can_run: "can_run (db_worker n) s"
  by (simp add: can_run_def)

text \<open>The batches have at most the configured size, up to the one drained at the end.\<close>

definition batches_ok :: "nat \<Rightarrow> detection wq \<Rightarrow> bool" where
  "batches_ok n s \<longleftrightarrow> list_all (\<lambda>b. b \<noteq> []) (handled s) \<and> length (in_hand s) \<le> n \<and>
     list_all (\<lambda>b. length b \<le> n) (if wpc s = Exited then butlast (handled s) else handled s)"

lemma list_all_butlast: "list_all P xs \<Longrightarrow> list_all P (butlast xs)"
  by (auto simp: list_all_iff dest: in_set_butlastD)

lemma reach_batches: "wq_reach (db_worker n) s \<Longrightarrow> batches_ok (nat n) s"
proof (induction rule: wq_reach.induct)
  case start
  then show ?case by (simp add: wq_init_def batches_ok_def in_hand_def)
next
  case (move s a s')
  show ?case
  proof (cases a)
    case Worker
    then have "worker_move (db_worker n) s = Some s'" using move by (simp add: wq_move_def)
    then show ?thesis using move.IH
      by (auto simp: worker_move_def take_move_def batches_ok_def in_hand_def add_batch_def list_all_butlast
          split: worker_pc.splits if_splits)
  qed (use move in \<open>auto simp: wq_move_def wake_def batches_ok_def in_hand_def split: if_splits worker_pc.splits\<close>)
qed

subsection \<open>The table\<close>

record signal_row =
  sig_id :: nat
  first_seen :: int
  last_seen :: int
  sig_freq_hz :: real
  sig_freq_mhz :: real
  sig_bandwidth :: "real option"
  sig_power :: "real option"
  sig_scanner_id :: string
  sig_channel :: int
  sig_hits :: int
  sig_lat :: "real option"
  sig_lon :: "real option"
  sig_alt :: "real option"
  modulation :: string
  classified :: bool

record signal_table =
  rows :: "signal_row list"
  next_id :: nat

definition bw_param :: "detection \<Rightarrow> real option" where
  "bw_param d = (if 0 < det_bandwidth_hz d then Some (det_bandwidth_hz d) else None)"

definition freq_gap :: "real \<Rightarrow> signal_row \<Rightarrow> real" where
  "freq_gap f r = \<bar>f64 (sig_freq_hz r - f)\<bar>"

text \<open>\<open>NULL\<close> in a comparison is not true.\<close>

definition bandwidth_similar :: "real option \<Rightarrow> real option \<Rightarrow> bool" where
  "bandwidth_similar param col = (case (param, col) of
       (Some b, Some c) \<Rightarrow> f64 (\<bar>f64 (c - b)\<bar> / max c 1000) < 1 / 2
     | _ \<Rightarrow> True)"

definition recent :: "int \<Rightarrow> int \<Rightarrow> bool" where
  "recent now_us t \<longleftrightarrow> now_us - 600000000 < t"

definition same_signal :: "int \<Rightarrow> detection \<Rightarrow> signal_row \<Rightarrow> bool" where
  "same_signal now_us d r \<longleftrightarrow> freq_gap (center_freq_hz d) r < 10000 \<and>
     bandwidth_similar (bw_param d) (sig_bandwidth r) \<and> recent now_us (last_seen r)"

definition nearest :: "real \<Rightarrow> signal_row list \<Rightarrow> signal_row list" where
  "nearest f rs = filter (\<lambda>r. list_all (\<lambda>q. freq_gap f r \<le> freq_gap f q) rs) rs"

definition existing :: "(signal_row list \<Rightarrow> signal_row) \<Rightarrow> int \<Rightarrow> detection \<Rightarrow> signal_table \<Rightarrow> signal_row option" where
  "existing tie now_us d t = (let rs = filter (same_signal now_us d) (rows t)
     in if rs = [] then None else Some (tie (nearest (center_freq_hz d) rs)))"

definition seen_again :: "detection \<Rightarrow> signal_row \<Rightarrow> signal_row" where
  "seen_again d r = r\<lparr>last_seen := to_ms (det_timestamp d) * 1000,
     sig_power := Some (case sig_power r of None \<Rightarrow> power_db d | Some p \<Rightarrow> max p (power_db d)),
     sig_hits := sig_hits r + 1\<rparr>"

definition new_row :: "nat \<Rightarrow> detection \<Rightarrow> signal_row" where
  "new_row i d = \<lparr>sig_id = i, first_seen = to_ms (det_timestamp d) * 1000, last_seen = to_ms (det_timestamp d) * 1000,
     sig_freq_hz = center_freq_hz d, sig_freq_mhz = f64 (center_freq_hz d / 1000000), sig_bandwidth = bw_param d,
     sig_power = Some (power_db d), sig_scanner_id = det_scanner_id d, sig_channel = channel d, sig_hits = 1,
     sig_lat = lat d, sig_lon = lon d, sig_alt = map_option f32 (alt_m d), modulation = [], classified = False\<rparr>"

definition upsert :: "(signal_row list \<Rightarrow> signal_row) \<Rightarrow> int \<Rightarrow> signal_table \<Rightarrow> detection \<Rightarrow> signal_table" where
  "upsert tie now_us t d = (case existing tie now_us d t of
       Some e \<Rightarrow> t\<lparr>rows := map (\<lambda>r. if sig_id r = sig_id e then seen_again d r else r) (rows t)\<rparr>
     | None \<Rightarrow> t\<lparr>rows := rows t @ [new_row (next_id t) d], next_id := next_id t + 1\<rparr>)"

text \<open>One transaction; \<open>now()\<close> is its start. Without a commit the rows stay (the sequence does not go
  back). The worker forgets the batch whatever the outcome.\<close>

definition flush :: "(signal_row list \<Rightarrow> signal_row) \<Rightarrow> bool \<Rightarrow> int \<Rightarrow> detection list \<Rightarrow> signal_table \<Rightarrow> signal_table" where
  "flush tie commits now_us batch t = (let t' = foldl (upsert tie now_us) t batch
     in if commits then t' else t\<lparr>next_id := next_id t'\<rparr>)"

text \<open>The batches the worker hands over, each with the outcome and the start time of its transaction.\<close>

definition write_batches :: "(signal_row list \<Rightarrow> signal_row) \<Rightarrow> (bool \<times> int) list \<Rightarrow> detection list list \<Rightarrow>
   signal_table \<Rightarrow> signal_table" where
  "write_batches tie txs bs t = foldl (\<lambda>t ((commits, now_us), b). flush tie commits now_us b t) t (zip txs bs)"

subsection \<open>What the statements keep\<close>

definition tie_ok :: "(signal_row list \<Rightarrow> signal_row) \<Rightarrow> bool" where
  "tie_ok tie \<longleftrightarrow> (\<forall>rs. rs \<noteq> [] \<longrightarrow> tie rs \<in> set rs)"

definition table_ok :: "signal_table \<Rightarrow> bool" where
  "table_ok t \<longleftrightarrow> distinct (map sig_id (rows t)) \<and> list_all (\<lambda>i. i < next_id t) (map sig_id (rows t))"

definition total_hits :: "signal_table \<Rightarrow> int" where
  "total_hits t = sum_list (map sig_hits (rows t))"

text \<open>A row that was only counted again: nothing but the time, the power and the hits may differ.\<close>

definition fixed_columns :: "signal_row \<Rightarrow> (nat \<times> int \<times> real \<times> real \<times> real option) \<times>
   (string \<times> int \<times> real option \<times> real option \<times> real option) \<times> string \<times> bool" where
  "fixed_columns r = ((sig_id r, first_seen r, sig_freq_hz r, sig_freq_mhz r, sig_bandwidth r),
     (sig_scanner_id r, sig_channel r, sig_lat r, sig_lon r, sig_alt r), modulation r, classified r)"

definition only_counters :: "signal_row \<Rightarrow> signal_row \<Rightarrow> bool" where
  "only_counters r r' \<longleftrightarrow> fixed_columns r' = fixed_columns r \<and> sig_hits r \<le> sig_hits r'"

lemma nearest_nonempty: "rs \<noteq> [] \<Longrightarrow> nearest f rs \<noteq> []"
proof -
  assume rs: "rs \<noteq> []"
  obtain r where "r \<in> set rs" "\<forall>q\<in>set rs. freq_gap f r \<le> freq_gap f q"
    using ex_min_if_finite [of "freq_gap f ` set rs"] rs by (fastforce simp: not_less)
  then show ?thesis by (auto simp: nearest_def filter_empty_conv list_all_iff)
qed

lemma existing_some:
  assumes "existing tie now_us d t = Some e" and "tie_ok tie"
  shows "e \<in> set (rows t) \<and> same_signal now_us d e"
proof -
  let ?rs = "filter (same_signal now_us d) (rows t)"
  have "?rs \<noteq> []" and e: "e = tie (nearest (center_freq_hz d) ?rs)"
    using assms(1) by (auto simp: existing_def Let_def split: if_splits)
  then have "e \<in> set (nearest (center_freq_hz d) ?rs)"
    using assms(2) nearest_nonempty by (simp add: tie_ok_def)
  then show ?thesis by (auto simp: nearest_def)
qed

lemma existing_none_iff: "existing tie now_us d t = None \<longleftrightarrow> (\<forall>r\<in>set (rows t). \<not> same_signal now_us d r)"
  by (auto simp: existing_def Let_def filter_empty_conv)

lemma upsert_new:
  "existing tie now_us d t = None \<Longrightarrow>
     upsert tie now_us t d = t\<lparr>rows := rows t @ [new_row (next_id t) d], next_id := next_id t + 1\<rparr>"
  by (simp add: upsert_def)

lemma only_counters_refl [simp]: "only_counters r r"
  by (simp add: only_counters_def)

lemma only_counters_seen [simp]: "only_counters r (seen_again d r)"
  by (simp add: only_counters_def seen_again_def fixed_columns_def)

lemma only_counters_trans: "only_counters r q \<Longrightarrow> only_counters q p \<Longrightarrow> only_counters r p"
  by (simp add: only_counters_def)

lemma list_all2_only_counters_trans:
  assumes "list_all2 only_counters as bs" and "list_all2 only_counters bs cs"
  shows "list_all2 only_counters as cs"
proof (rule list_all2_trans)
  show "only_counters x y \<Longrightarrow> only_counters y z \<Longrightarrow> only_counters x z" for x y z
    by (rule only_counters_trans)
qed (fact assms)+

lemma seen_again_id [simp]: "sig_id (seen_again d r) = sig_id r"
  by (simp add: seen_again_def)

lemma upsert_ok:
  assumes "table_ok t" and "tie_ok tie"
  shows "table_ok (upsert tie now_us t d) \<and> total_hits (upsert tie now_us t d) = total_hits t + 1 \<and>
    length (rows t) \<le> length (rows (upsert tie now_us t d)) \<and>
    list_all2 only_counters (rows t) (take (length (rows t)) (rows (upsert tie now_us t d)))"
proof (cases "existing tie now_us d t")
  case None
  then show ?thesis using assms(1)
    by (auto simp: upsert_def table_ok_def total_hits_def new_row_def list_all_iff list_all2_refl)
next
  case (Some e)
  let ?u = "\<lambda>r. if sig_id r = sig_id e then seen_again d r else r"
  obtain new where new: "new = map ?u (rows t)" by blast
  then have up: "upsert tie now_us t d = t\<lparr>rows := new\<rparr>" using Some by (simp add: upsert_def)
  have e: "e \<in> set (rows t)" using existing_some [OF Some assms(2)] by blast
  have "map sig_id new = map sig_id (rows t)" "length new = length (rows t)" by (simp_all add: new)
  moreover have "total_hits (t\<lparr>rows := new\<rparr>) = total_hits t + 1"
    using sum_update_one [of sig_id "rows t" e sig_hits "seen_again d"] assms(1) e
    by (simp add: table_ok_def total_hits_def seen_again_def new comp_def)
  moreover have "list_all2 only_counters (rows t) new"
    by (simp add: new list_all2_conv_all_nth)
  ultimately show ?thesis using assms(1) by (simp add: up table_ok_def)
qed

lemma upserts_ok:
  assumes "table_ok t" and "tie_ok tie"
  shows "table_ok (foldl (upsert tie now_us) t ds) \<and>
    total_hits (foldl (upsert tie now_us) t ds) = total_hits t + int (length ds) \<and>
    length (rows t) \<le> length (rows (foldl (upsert tie now_us) t ds)) \<and>
    list_all2 only_counters (rows t) (take (length (rows t)) (rows (foldl (upsert tie now_us) t ds)))"
  using assms(1)
proof (induction ds rule: rev_induct)
  case Nil
  then show ?case by (simp add: list_all2_refl)
next
  case (snoc d ds)
  let ?t = "foldl (upsert tie now_us) t ds"
  let ?n = "length (rows t)"
  have ih: "table_ok ?t" "total_hits ?t = total_hits t + int (length ds)" "?n \<le> length (rows ?t)"
    "list_all2 only_counters (rows t) (take ?n (rows ?t))"
    using snoc by blast+
  note one = upsert_ok [OF ih(1) assms(2), of now_us d]
  let ?new = "rows (upsert tie now_us ?t d)"
  have "list_all2 only_counters (rows ?t) (take (length (rows ?t)) ?new)" using one by blast
  then have "list_all2 only_counters (take ?n (rows ?t)) (take ?n (take (length (rows ?t)) ?new))"
    by (rule list_all2_takeI)
  then have "list_all2 only_counters (take ?n (rows ?t)) (take ?n ?new)"
    using ih(3) by (simp only: take_take min_absorb1)
  then have "list_all2 only_counters (rows t) (take ?n (rows (upsert tie now_us ?t d)))"
    using ih(4) list_all2_only_counters_trans by blast
  then show ?case using one ih by simp
qed

lemma flush_ok:
  assumes "table_ok t" and "tie_ok tie"
  shows "table_ok (flush tie commits now_us b t) \<and>
    total_hits (flush tie commits now_us b t) = total_hits t + (if commits then int (length b) else 0)"
proof (cases commits)
  case False
  have "next_id t \<le> next_id (foldl (upsert tie now_us) t b)"
  proof (induction b rule: rev_induct)
    case (snoc d b)
    then show ?case by (simp add: upsert_def split: option.split)
  qed simp
  then have "list_all (\<lambda>i. i < next_id (foldl (upsert tie now_us) t b)) (map sig_id (rows t))"
    using assms(1) by (auto simp: table_ok_def list_all_iff)
  then show ?thesis using False assms(1) by (simp add: flush_def Let_def table_ok_def total_hits_def)
qed (use upserts_ok [OF assms, of now_us b] in \<open>simp add: flush_def Let_def\<close>)

text \<open>The detections of the batches that were committed.\<close>

definition committed :: "(bool \<times> int) list \<Rightarrow> detection list list \<Rightarrow> detection list" where
  "committed txs bs = concat (map snd (filter (\<lambda>p. fst (fst p)) (zip txs bs)))"

lemma write_batches_ok:
  assumes "table_ok t" and "tie_ok tie"
  shows "table_ok (write_batches tie txs bs t) \<and>
    total_hits (write_batches tie txs bs t) = total_hits t + int (length (committed txs bs))"
  using assms(1) unfolding write_batches_def committed_def
proof (induction "zip txs bs" arbitrary: t txs bs)
  case (Cons p ps)
  obtain c now_us b txs' bs' where z: "txs = (c, now_us) # txs'" "bs = b # bs'" "p = ((c, now_us), b)" "ps = zip txs' bs'"
    using Cons.hyps(2) by (cases txs; cases bs) auto
  note one = flush_ok [OF Cons.prems assms(2), of c now_us b]
  show ?case using Cons.hyps(1) [OF z(4), of "flush tie c now_us b t"] one by (simp add: z)
qed auto

lemma committed_all: "length txs = length bs \<Longrightarrow> list_all fst txs \<Longrightarrow> committed txs bs = concat bs"
  unfolding committed_def
proof (induction txs bs rule: list_induct2)
  case (Cons t txs b bs)
  then show ?case by (cases t) simp
qed simp

text \<open>Where the rows come from: each describes a detection of the set, but for the counters.\<close>

definition rows_from :: "detection set \<Rightarrow> signal_table \<Rightarrow> bool" where
  "rows_from ds t \<longleftrightarrow> (\<forall>r\<in>set (rows t). \<exists>d\<in>ds. \<exists>i. only_counters (new_row i d) r)"

lemma upsert_rows_from:
  assumes "rows_from ds t" and "d \<in> ds"
  shows "rows_from ds (upsert tie now_us t d)"
proof (cases "existing tie now_us d t")
  case None
  moreover have "\<exists>d'\<in>ds. \<exists>i. only_counters (new_row i d') (new_row (next_id t) d)"
    using assms(2) only_counters_refl by blast
  ultimately show ?thesis using assms(1) by (auto simp: upsert_def rows_from_def)
next
  case (Some e)
  have "\<exists>d'\<in>ds. \<exists>i. only_counters (new_row i d') (seen_again d r)" if "r \<in> set (rows t)" for r
    using assms(1) that only_counters_trans [OF _ only_counters_seen] by (fastforce simp: rows_from_def)
  then show ?thesis using assms(1) Some by (auto simp: upsert_def rows_from_def)
qed

lemma flush_rows_from:
  assumes "rows_from ds t" and "set b \<subseteq> ds"
  shows "rows_from ds (flush tie commits now_us b t)"
proof -
  have "rows_from ds (foldl (upsert tie now_us) t b)"
    using assms by (induction b arbitrary: t) (simp_all add: upsert_rows_from)
  then show ?thesis using assms(1) by (simp add: flush_def Let_def rows_from_def)
qed

lemma write_batches_rows_from:
  assumes "rows_from ds t" and "set (concat bs) \<subseteq> ds"
  shows "rows_from ds (write_batches tie txs bs t)"
  using assms unfolding write_batches_def
proof (induction "zip txs bs" arbitrary: t txs bs)
  case (Cons p ps)
  obtain c now_us b txs' bs' where z: "txs = (c, now_us) # txs'" "bs = b # bs'" "ps = zip txs' bs'"
    using Cons.hyps(2) by (cases txs; cases bs) auto
  show ?case using Cons.hyps(1) [OF z(3), of "flush tie c now_us b t"] Cons.prems flush_rows_from [of ds t b] z by auto
qed auto

lemma row_after_upsert:
  assumes "tie_ok tie" and "recent now_us (to_ms (det_timestamp d) * 1000)"
  shows "\<exists>r\<in>set (rows (upsert tie now_us t d)). same_signal now_us d r"
proof (cases "existing tie now_us d t")
  case None
  have "freq_gap f (new_row i d) < 10000" if "f = center_freq_hz d" for f i
    using that by (simp add: freq_gap_def new_row_def)
  then have "same_signal now_us d (new_row (next_id t) d)"
    using assms(2) by (auto simp: same_signal_def new_row_def bandwidth_similar_def split: option.split)
  then show ?thesis using None by (simp add: upsert_def)
next
  case (Some e)
  then have e: "e \<in> set (rows t)" "same_signal now_us d e" using existing_some assms(1) by blast+
  then have "same_signal now_us d (seen_again d e)"
    using assms(2) by (simp add: same_signal_def seen_again_def freq_gap_def)
  then show ?thesis using Some e(1) by (auto simp: upsert_def)
qed

lemma same_signal_cong:
  "center_freq_hz d' = center_freq_hz d \<Longrightarrow> det_bandwidth_hz d' = det_bandwidth_hz d \<Longrightarrow>
     same_signal now_us d' = same_signal now_us d"
  by (simp add: same_signal_def bw_param_def fun_eq_iff)

subsection \<open>Properties of the writer\<close>

text \<open>C10. The writer hands over every detection exactly once and in order: what was flushed, what is in hand
  and what is queued are the pushed detections; no batch but the one drained at the end exceeds the
  batch size, and none is empty. From any reachable state in which the flag is up, the thread ends by
  its own moves (the wait times out), with everything flushed, although the flag is raised without
  the mutex.\<close>

theorem db_worker_hands_over_all:
  assumes "wq_reach (db_worker n) s"
  shows "in_order s = accepted s \<and> batches_ok (nat n) s \<and>
    (stop_flag s \<longrightarrow> (\<exists>k s'. k \<le> 3 * length (items s) + 5 \<and>
       wq_run (db_worker n) (replicate k Worker) s = Some s' \<and> wpc s' = Exited \<and> concat (handled s') = accepted s'))"
proof -
  have "exit_measure (db_worker n) s \<le> 3 * length (items s) + 5"
    by (cases "wpc s") (simp_all add: exit_measure_def)
  moreover have "\<exists>k s'. k \<le> exit_measure (db_worker n) s \<and> wq_run (db_worker n) (replicate k Worker) s = Some s' \<and>
      wpc s' = Exited \<and> concat (handled s') = accepted s'" if flag: "stop_flag s"
  proof -
    obtain k s' where k: "k \<le> exit_measure (db_worker n) s"
      and run: "wq_run (db_worker n) (replicate k Worker) s = Some s'" and ex: "wpc s' = Exited"
      using db.worker_exits [OF flag db_can_run] by blast
    have "concat (handled s') = accepted s'"
      by (rule db.exited_all_handled [OF wq_reach_run [OF assms run] ex])
    then show ?thesis using k run ex by blast
  qed
  ultimately show ?thesis using db.reach_in_order [OF assms] reach_batches [OF assms] le_trans by blast
qed

theorem db_worker_hands_over_all_witness:
  "\<exists>s k s'. wq_run (db_worker 2) [Worker, Worker, Push default_detection, Push default_detection] wq_init = None \<and>
     wq_run (db_worker 2) [Worker, Push default_detection, Push default_detection, Push default_detection, Notify, Notify,
       Notify, Worker, EndInput, SetFlag] wq_init = Some s \<and>
     wq_run (db_worker 2) (replicate k Worker) s = Some s' \<and> concat (handled s') = replicate 3 default_detection"
proof -
  obtain s where run: "wq_run (db_worker 2) [Worker, Push default_detection, Push default_detection,
      Push default_detection, Notify, Notify, Notify, Worker, EndInput, SetFlag] wq_init = Some s"
    and f: "stop_flag s" and acc: "accepted s = replicate 3 default_detection"
    by (simp add: wq_moves wq_init_def numeral_3_eq_3)
  have blocked: "wq_run (db_worker 2) [Worker, Worker, Push default_detection, Push default_detection] wq_init = None"
    by (simp add: wq_moves wq_init_def)
  have r: "wq_reach (db_worker 2) s" by (rule wq_reach_run [OF wq_reach.start run])
  then obtain k s' where run': "wq_run (db_worker 2) (replicate k Worker) s = Some s'"
    and all: "concat (handled s') = accepted s'"
    using db_worker_hands_over_all [OF r] f by blast
  have "accepted s' = accepted s" using run' 
  proof (induction k arbitrary: s)
    case (Suc k)
    then show ?case using db.worker_in_order by (auto simp: wq_move_def split: bind_splits)
  qed simp
  then show ?thesis using run run' all acc blocked by metis
qed

text \<open>C30. A committed batch counts every detection exactly once: the hits of the table grow by the size of
  the batch, the ids stay distinct, no row disappears, and in the rows that were there before nothing
  but the last time, the power and the hits can change (the classification is left alone).\<close>

theorem flush_counts_every_detection:
  assumes "table_ok t" and "tie_ok tie" and "t' = flush tie True now_us batch t"
  shows "table_ok t' \<and> total_hits t' = total_hits t + int (length batch) \<and> length (rows t) \<le> length (rows t') \<and>
    list_all2 only_counters (rows t) (take (length (rows t)) (rows t'))"
  using upserts_ok [OF assms(1,2), of now_us batch] assms(3) by (simp add: flush_def)

theorem flush_counts_every_detection_witness:
  "table_ok \<lparr>rows = [new_row 0 default_detection], next_id = 1\<rparr> \<and> tie_ok hd \<and>
   total_hits (flush hd True 0 [default_detection, default_detection]
     \<lparr>rows = [new_row 0 default_detection], next_id = 1\<rparr>) = 3"
proof -
  let ?t = "\<lparr>rows = [new_row 0 default_detection], next_id = 1\<rparr>"
  have ok: "table_ok ?t" "tie_ok hd" by (simp_all add: table_ok_def new_row_def tie_ok_def)
  have "total_hits ?t = 1" by (simp add: total_hits_def new_row_def)
  then show ?thesis
    using flush_counts_every_detection [OF ok refl, of 0 "[default_detection, default_detection]"] ok by simp
qed

text \<open>A signal that is reported again makes no second row: after a detection has been written, another
  one of the same frequency and bandwidth only updates a row, if the first one's time is less than
  ten minutes behind the database's.\<close>

theorem repeated_detection_updates:
  assumes "tie_ok tie" and "recent now_us (to_ms (det_timestamp d) * 1000)"
    and "center_freq_hz d' = center_freq_hz d" and "det_bandwidth_hz d' = det_bandwidth_hz d"
  shows "length (rows (upsert tie now_us (upsert tie now_us t d) d')) = length (rows (upsert tie now_us t d))"
proof -
  have "existing tie now_us d' (upsert tie now_us t d) \<noteq> None"
    using row_after_upsert [OF assms(1,2), of t] same_signal_cong [OF assms(3,4)]
    by (simp add: existing_none_iff)
  then show ?thesis by (auto simp: upsert_def [of tie now_us "upsert tie now_us t d"])
qed

theorem repeated_detection_updates_witness:
  "length (rows (upsert hd 0 (upsert hd 0 \<lparr>rows = [], next_id = 0\<rparr> default_detection) (default_detection\<lparr>power_db := 3\<rparr>))) =
   length (rows (upsert hd 0 \<lparr>rows = [], next_id = 0\<rparr> default_detection)) \<and>
   length (rows (upsert hd 0 \<lparr>rows = [], next_id = 0\<rparr> default_detection)) = 1"
proof -
  have "recent 0 (to_ms (det_timestamp default_detection) * 1000)" "tie_ok hd"
    by (simp_all add: recent_def to_ms_def default_detection_def tie_ok_def)
  moreover have "length (rows (upsert hd 0 \<lparr>rows = [], next_id = 0\<rparr> default_detection)) = 1"
    by (simp add: upsert_def existing_def)
  ultimately show ?thesis
    using repeated_detection_updates [of hd 0 default_detection "default_detection\<lparr>power_db := 3\<rparr>"] by simp
qed

text \<open>A scanner whose clock is ten minutes or more behind the database's gets a new row for every
  detection: the row it has just written is already too old to be found.\<close>

theorem stale_clock_duplicates:
  assumes "\<not> recent now_us (to_ms (det_timestamp d) * 1000)" and "existing tie now_us d t = None"
  shows "length (rows (foldl (upsert tie now_us) t (replicate k d))) = length (rows t) + k"
proof -
  have "existing tie now_us d (foldl (upsert tie now_us) t (replicate k d)) = None \<and>
      length (rows (foldl (upsert tie now_us) t (replicate k d))) = length (rows t) + k"
  proof (induction k)
    case (Suc k)
    let ?t = "foldl (upsert tie now_us) t (replicate k d)"
    have "\<not> same_signal now_us d (new_row (next_id ?t) d)"
      using assms(1) by (simp add: same_signal_def new_row_def)
    moreover have "upsert tie now_us ?t d = ?t\<lparr>rows := rows ?t @ [new_row (next_id ?t) d], next_id := next_id ?t + 1\<rparr>"
      by (rule upsert_new [OF conjunct1 [OF Suc]])
    ultimately have "existing tie now_us d (upsert tie now_us ?t d) = None"
      "length (rows (upsert tie now_us ?t d)) = Suc (length (rows ?t))"
      using Suc by (auto simp: existing_none_iff)
    moreover have "foldl (upsert tie now_us) t (replicate (Suc k) d) = upsert tie now_us ?t d"
      by (simp add: replicate_append_same [symmetric])
    ultimately show ?case using Suc by simp
  qed (simp add: assms(2))
  then show ?thesis by blast
qed

theorem stale_clock_duplicates_witness:
  "length (rows (foldl (upsert hd 600000000) \<lparr>rows = [], next_id = 0\<rparr> (replicate 4 default_detection))) = 4"
proof -
  have "\<not> recent 600000000 (to_ms (det_timestamp default_detection) * 1000)"
    by (simp add: recent_def to_ms_def default_detection_def)
  moreover have "existing hd 600000000 default_detection \<lparr>rows = [], next_id = 0\<rparr> = None"
    by (simp add: existing_def)
  ultimately show ?thesis
    using stale_clock_duplicates [of 600000000 default_detection hd "\<lparr>rows = [], next_id = 0\<rparr>" 4] by simp
qed

end
