(* ===== verification/Alerts.thy ===== *)
theory Alerts
  imports Types WorkQueue
begin

section \<open>Threat alerts (\<open>RfAlert.hpp\<close>, \<open>AlertConsumer\<close>, \<open>AlertStore\<close>)\<close>

text \<open>
  \<open>AlertConsumer\<close> reads alert messages, picks their fields out with string searches (it avoids a JSON
  library on purpose), queues them and lets a worker thread store them. \<open>AlertStore\<close> writes one SQL
  statement per alert. The broker library and the database are outside: a message is its text, a
  transaction has an outcome.
\<close>

subsection \<open>The record\<close>

datatype alert_severity = Low | Medium | High | Critical

datatype alert_type = GpsJamming | GpsSpoofing | AdsbSpoofing | AdsbJamming | AisSpoofing | EasSpoofing
  | DscSpoofing | P25RogueSite

fun alert_type_name :: "alert_type \<Rightarrow> string" where
  "alert_type_name GpsJamming = ''GPS_JAMMING''"
| "alert_type_name GpsSpoofing = ''GPS_SPOOFING''"
| "alert_type_name AdsbSpoofing = ''ADSB_SPOOFING''"
| "alert_type_name AdsbJamming = ''ADSB_JAMMING''"
| "alert_type_name AisSpoofing = ''AIS_SPOOFING''"
| "alert_type_name EasSpoofing = ''EAS_SPOOFING''"
| "alert_type_name DscSpoofing = ''DSC_SPOOFING''"
| "alert_type_name P25RogueSite = ''P25_ROGUE_SITE''"

fun severity_name :: "alert_severity \<Rightarrow> string" where
  "severity_name Low = ''LOW''"
| "severity_name Medium = ''MEDIUM''"
| "severity_name High = ''HIGH''"
| "severity_name Critical = ''CRITICAL''"

text \<open>Enumerators are ordered by their declaration.\<close>

fun severity_rank :: "alert_severity \<Rightarrow> nat" where
  "severity_rank Low = 0"
| "severity_rank Medium = 1"
| "severity_rank High = 2"
| "severity_rank Critical = 3"

lemma severity_rank_inject [simp]: "severity_rank s = severity_rank t \<longleftrightarrow> s = t"
  by (cases s; cases t) simp_all

instantiation alert_severity :: linorder
begin

definition less_eq_alert_severity :: "alert_severity \<Rightarrow> alert_severity \<Rightarrow> bool" where
  "s \<le> t \<longleftrightarrow> severity_rank s \<le> severity_rank t"

definition less_alert_severity :: "alert_severity \<Rightarrow> alert_severity \<Rightarrow> bool" where
  "s < t \<longleftrightarrow> severity_rank s < severity_rank t"

instance
  by standard (auto simp: less_eq_alert_severity_def less_alert_severity_def)

end

record rf_alert =
  al_type :: alert_type
  al_severity :: alert_severity
  al_freq_hz :: real
  al_power_db :: real
  al_baseline_db :: real
  al_details :: string
  al_timestamp_ms :: int
  al_scanner_id :: string

subsection \<open>Reading a message\<close>

definition quote_char :: char where
  "quote_char = CHR 0x22"

definition str_key :: "string \<Rightarrow> string" where
  "str_key key = [quote_char] @ key @ [quote_char, CHR '':'', quote_char]"

definition num_key :: "string \<Rightarrow> string" where
  "num_key key = [quote_char] @ key @ [quote_char, CHR '':'']"

definition json_str :: "string \<Rightarrow> string \<Rightarrow> string" where
  "json_str body key = (case after_first (str_key key) body of None \<Rightarrow> []
     | Some rest \<Rightarrow> (case upto_char quote_char rest of None \<Rightarrow> [] | Some v \<Rightarrow> v))"

definition json_double :: "string \<Rightarrow> string \<Rightarrow> real" where
  "json_double body key = (case after_first (num_key key) body of None \<Rightarrow> 0
     | Some rest \<Rightarrow> (case stod rest of None \<Rightarrow> 0 | Some v \<Rightarrow> v))"

definition type_map :: "(string \<times> alert_type) list" where
  "type_map = [(''GPS_JAMMING'', GpsJamming), (''GPS_SPOOFING'', GpsSpoofing), (''ADSB_SPOOFING'', AdsbSpoofing),
     (''ADSB_JAMMING'', AdsbJamming), (''AIS_SPOOFING'', AisSpoofing), (''EAS_SPOOFING'', EasSpoofing),
     (''DSC_SPOOFING'', DscSpoofing), (''P25_ROGUE_SITE'', P25RogueSite)]"

definition severity_of :: "string \<Rightarrow> alert_severity" where
  "severity_of s = (if s = ''LOW'' then Low else if s = ''HIGH'' then High
     else if s = ''CRITICAL'' then Critical else Medium)"

text \<open>The body of \<open>on_message\<close> up to the queue; None is an early return.\<close>

definition parse_alert :: "string \<Rightarrow> rf_alert option" where
  "parse_alert body =
     (if body = [] then None
      else case map_of type_map (json_str body ''type'') of None \<Rightarrow> None
      | Some t \<Rightarrow> Some \<lparr>al_type = t, al_severity = severity_of (json_str body ''severity''),
          al_freq_hz = json_double body ''freq_hz'', al_power_db = 0, al_baseline_db = 0,
          al_details = json_str body ''details'', al_timestamp_ms = 0, al_scanner_id = []\<rparr>)"

text \<open>The queue and the worker. A message body that is no string throws and is ignored (None).\<close>

definition push_alert :: "rf_alert \<Rightarrow> rf_alert list \<Rightarrow> rf_alert list" where
  "push_alert a q = q @ [a]"

definition on_alert_message :: "string option \<Rightarrow> rf_alert list \<Rightarrow> rf_alert list" where
  "on_alert_message body q = (case body of None \<Rightarrow> q
     | Some b \<Rightarrow> (case parse_alert b of None \<Rightarrow> q | Some a \<Rightarrow> push_alert a q))"

text \<open>\<open>workerLoop\<close>: wait for work or for the flag, leave when the flag is up and nothing is left, else
  take one alert. \<open>stop\<close> ends the broker thread first and raises the flag under the mutex.\<close>

definition alert_worker :: "rf_alert worker_code" where
  "alert_worker = \<lparr>loop_test = (\<lambda>stopping. True),
     awake = (\<lambda>stopping q. q \<noteq> [] \<or> stopping), timed_wait = False,
     take_work = (\<lambda>stopping q. take_one stopping q),
     last_batch = (\<lambda>q. ([], q)), push_work = push_alert, locked_stop = True, producers_end_first = True\<rparr>"

subsection \<open>Storing\<close>

text \<open>\<open>std::to_string\<close> of a double: six decimals, the exact value rounded to nearest even.\<close>

definition pad6 :: "nat \<Rightarrow> string" where
  "pad6 n = (let s = show_nat n in replicate (6 - length s) (CHR ''0'') @ s)"

definition to_string_f :: "real \<Rightarrow> string" where
  "to_string_f x = (let n = nat (rne (\<bar>x\<bar> * 10 ^ 6))
     in (if x < 0 then ''-'' else '''') @ show_nat (n div 10 ^ 6) @ ''.'' @ pad6 (n mod 10 ^ 6))"

definition insert_sql :: "(string \<Rightarrow> string) \<Rightarrow> rf_alert \<Rightarrow> string" where
  "insert_sql quote a =
     ''INSERT INTO rf_alerts (alert_type, severity, freq_mhz, power_db, baseline_db, scanner_id, details) VALUES ('' @
     quote (alert_type_name (al_type a)) @ '','' @ quote (severity_name (al_severity a)) @ '','' @
     (if 0 < al_freq_hz a then to_string_f (f64 (al_freq_hz a / 1000000)) else ''NULL'') @ '','' @
     (if al_power_db a \<noteq> 0 then to_string_f (al_power_db a) else ''NULL'') @ '','' @
     (if al_baseline_db a \<noteq> 0 then to_string_f (al_baseline_db a) else ''NULL'') @ '','' @
     (if al_scanner_id a = [] then ''NULL'' else quote (al_scanner_id a)) @ '','' @
     quote (al_details a) @ '')''"

record alert_store =
  store_connections :: nat
  stored :: "string list"

definition alert_insert :: "(string \<Rightarrow> string) \<Rightarrow> tx_outcome \<Rightarrow> rf_alert \<Rightarrow> alert_store \<Rightarrow> alert_store" where
  "alert_insert quote out a st = (case out of
       Committed \<Rightarrow> st\<lparr>stored := stored st @ [insert_sql quote a]\<rparr>
     | ConnectionLost reconnected \<Rightarrow>
         if reconnected then st\<lparr>store_connections := store_connections st + 1\<rparr> else st
     | TxFailed \<Rightarrow> st)"

text \<open>What the worker does with the alerts it takes, one after the other.\<close>

definition store_alerts :: "(string \<Rightarrow> string) \<Rightarrow> (rf_alert \<times> tx_outcome) list \<Rightarrow> alert_store \<Rightarrow> alert_store" where
  "store_alerts quote as st = foldl (\<lambda>st (a, out). alert_insert quote out a st) st as"

subsection \<open>The worker is a draining worker\<close>

lemma alert_worker_simps [simp]:
  "loop_test alert_worker f" "awake alert_worker f q \<longleftrightarrow> q \<noteq> [] \<or> f" "\<not> timed_wait alert_worker"
  "take_work alert_worker f q = take_one f q"
  "last_batch alert_worker q = ([], q)" "push_work alert_worker a q = q @ [a]"
  "locked_stop alert_worker" "producers_end_first alert_worker"
  by (simp_all add: alert_worker_def push_alert_def)

interpretation alerts: draining_worker alert_worker
  by unfold_locales (auto simp: take_one_front dest: take_one_leave)

interpretation alerts: locked_worker alert_worker
  by unfold_locales (auto dest: take_one_progress)

interpretation alerts: serving_worker alert_worker None
  by unfold_locales (simp add: limited_def)

subsection \<open>Messages without white space are read back\<close>

text \<open>A JSON object with string and number members, written without white space, as
  \<open>nlohmann::json::dump\<close> does; the keys may come in any order.\<close>

datatype member = StrMember string string | NumMember string string

fun member_key :: "member \<Rightarrow> string" where
  "member_key (StrMember k v) = k"
| "member_key (NumMember k v) = k"

fun member_value :: "member \<Rightarrow> string" where
  "member_value (StrMember k v) = v"
| "member_value (NumMember k v) = v"

fun member_text :: "member \<Rightarrow> string" where
  "member_text (StrMember k v) = str_key k @ v @ [quote_char]"
| "member_text (NumMember k v) = num_key k @ v"

fun members_text :: "member list \<Rightarrow> string" where
  "members_text [] = []"
| "members_text [m] = member_text m"
| "members_text (m # ms) = member_text m @ '','' @ members_text ms"

definition compact_message :: "member list \<Rightarrow> string" where
  "compact_message ms = ''{'' @ members_text ms @ ''}''"

definition plain_key :: "string \<Rightarrow> bool" where
  "plain_key k \<longleftrightarrow> quote_char \<notin> set k \<and> k \<noteq> [] \<and> hd k \<notin> set '':,}''"

definition plain_members :: "member list \<Rightarrow> bool" where
  "plain_members ms \<longleftrightarrow> distinct (map member_key ms) \<and>
     list_all (\<lambda>m. plain_key (member_key m) \<and> quote_char \<notin> set (member_value m)) ms"

text \<open>What the searches look for: a key in quotes followed by a colon.\<close>

definition key_pat :: "string \<Rightarrow> string \<Rightarrow> string" where
  "key_pat key ps = quote_char # key @ quote_char # CHR '':'' # ps"

lemma key_pats: "str_key key = key_pat key [quote_char]" "num_key key = key_pat key []"
  by (simp_all add: str_key_def num_key_def key_pat_def)

lemma starts_with_quoted:
  assumes "quote_char \<notin> set key" and "quote_char \<notin> set k"
  shows "starts_with (key @ quote_char # p) (k @ quote_char # t) \<longleftrightarrow> key = k \<and> starts_with p t"
  using assms
proof (induction key arbitrary: k)
  case Nil
  then show ?case by (cases k) auto
next
  case (Cons c key)
  then show ?case by (cases k) auto
qed

lemma starts_with_plain:
  assumes "plain_key key" and "c \<in> set '':,}''"
  shows "\<not> starts_with (key @ p) (c # t)"
  using assms by (cases key) (auto simp: plain_key_def)

lemma after_first_no_quote:
  assumes "quote_char \<notin> set v"
  shows "after_first (quote_char # pat) (v @ s) = after_first (quote_char # pat) s"
  using assms by (induction v) auto

lemma after_first_quote:
  "after_first (quote_char # pat) (quote_char # s) =
     (if starts_with pat s then Some (drop (length pat) s) else after_first (quote_char # pat) s)"
  by simp

lemma after_first_other:
  "c \<noteq> quote_char \<Longrightarrow> after_first (quote_char # pat) (c # s) = after_first (quote_char # pat) s"
  by simp

text \<open>A search passes over a member with another key.\<close>

lemma skip_member:
  assumes "plain_key key" and "plain_key (member_key m)" and "quote_char \<notin> set (member_value m)"
    and "key \<noteq> member_key m" and c: "c \<in> set '',}''"
  shows "after_first (key_pat key ps) (member_text m @ c # s) = after_first (key_pat key ps) (c # s)"
proof -
  have qk: "quote_char \<notin> set key" "quote_char \<notin> set (member_key m)" using assms(1,2) by (simp_all add: plain_key_def)
  have colon: "\<not> starts_with (key @ quote_char # CHR '':'' # ps) (CHR '':'' # t)" for t
    by (rule starts_with_plain [OF assms(1)]) simp
  have sep: "\<not> starts_with (key @ quote_char # CHR '':'' # ps) (c # s)"
    by (rule starts_with_plain [OF assms(1)]) (use c in auto)
  have q: "quote_char \<noteq> CHR '':''" "c \<noteq> CHR '':''" using c by (auto simp: quote_char_def)
  show ?thesis
  proof (cases m)
    case (StrMember k v)
    then have v: "quote_char \<notin> set k" "quote_char \<notin> set v" "key \<noteq> k" using assms(3,4) qk by simp_all
    show ?thesis unfolding StrMember key_pat_def
      using q by (simp add: str_key_def after_first_quote after_first_no_quote after_first_other starts_with_quoted
          qk v colon sep del: after_first.simps)
  next
    case (NumMember k v)
    then have v: "quote_char \<notin> set k" "quote_char \<notin> set v" "key \<noteq> k" using assms(3,4) qk by simp_all
    show ?thesis unfolding NumMember key_pat_def
      using q by (simp add: num_key_def after_first_quote after_first_no_quote after_first_other starts_with_quoted
          qk v colon del: after_first.simps)
  qed
qed

text \<open>What a search finds: the text after its own member's key.\<close>

lemma members_text_Cons:
  "\<exists>c\<in>set '',}''. members_text (m # ms) @ ''}'' =
     member_text m @ c # (if ms = [] then [] else members_text ms @ ''}'')"
  by (cases ms) auto

lemma find_member:
  assumes "plain_members ms" and "m \<in> set ms" and "key_pat (member_key m) ps @ w = member_text m"
  shows "\<exists>c t. c \<in> set '',}'' \<and>
    after_first (key_pat (member_key m) ps) (members_text ms @ ''}'') = Some (w @ c # t)"
  using assms(1,2)
proof (induction ms)
  case (Cons a ms)
  obtain c where c: "c \<in> set '',}''"
    and eqn: "members_text (a # ms) @ ''}'' = member_text a @ c # (if ms = [] then [] else members_text ms @ ''}'')"
    using members_text_Cons [of a ms] by blast
  show ?case
  proof (cases "a = m")
    case True
    have "members_text (a # ms) @ ''}'' =
        key_pat (member_key m) ps @ (w @ c # (if ms = [] then [] else members_text ms @ ''}''))"
      using eqn True assms(3) by simp
    then show ?thesis using after_first_here c by metis
  next
    case False
    then have m: "m \<in> set ms" using Cons.prems by simp
    then have "member_key a \<noteq> member_key m" using Cons.prems by (auto simp: plain_members_def)
    moreover have "plain_key (member_key m)" "plain_key (member_key a)" "quote_char \<notin> set (member_value a)"
      using Cons.prems m by (auto simp: plain_members_def list_all_iff)
    ultimately have "after_first (key_pat (member_key m) ps) (members_text (a # ms) @ ''}'') =
        after_first (key_pat (member_key m) ps) (c # (if ms = [] then [] else members_text ms @ ''}''))"
      using eqn skip_member [of "member_key m" a c ps] c by auto
    moreover have "c \<noteq> quote_char" using c by (auto simp: quote_char_def)
    moreover have "plain_members ms" using Cons.prems by (simp add: plain_members_def)
    moreover have "ms \<noteq> []" using m by auto
    ultimately show ?thesis using Cons.IH m by (simp add: key_pat_def)
  qed
qed simp

lemma find_in_message:
  assumes "plain_members ms" and "m \<in> set ms" and "key_pat (member_key m) ps @ w = member_text m"
  shows "\<exists>c t. c \<in> set '',}'' \<and> after_first (key_pat (member_key m) ps) (compact_message ms) = Some (w @ c # t)"
  using find_member [OF assms] by (simp add: compact_message_def key_pat_def quote_char_def)

lemma json_str_member:
  assumes "plain_members ms" and "StrMember k v \<in> set ms"
  shows "json_str (compact_message ms) k = v"
proof -
  obtain c t where "after_first (key_pat k [quote_char]) (compact_message ms) = Some ((v @ [quote_char]) @ c # t)"
    using find_in_message [OF assms, of "[quote_char]" "v @ [quote_char]"] by (auto simp: key_pats)
  moreover have "quote_char \<notin> set v" using assms by (auto simp: plain_members_def list_all_iff)
  ultimately show ?thesis by (simp add: json_str_def key_pats upto_char_append)
qed

text \<open>\<open>std::stod\<close> stops at a comma or a brace.\<close>

lemma takeWhile_stop: "\<not> P c \<Longrightarrow> takeWhile P (t @ c # r) = takeWhile P t"
  by (induction t) auto

lemma dropWhile_stop: "\<not> P c \<Longrightarrow> dropWhile P (t @ c # r) = dropWhile P t @ c # r"
  by (induction t) auto

lemma split_sign_stop:
  "c \<in> set '',}'' \<Longrightarrow> split_sign (t @ c # r) = (let (neg, u) = split_sign t in (neg, u @ c # r))"
  by (cases t) (auto simp: split_sign_def)

lemma stop_chars: "c \<in> set '',}'' \<Longrightarrow> \<not> is_digit c \<and> \<not> is_space c \<and> c \<noteq> CHR ''.'' \<and> c \<noteq> CHR ''e'' \<and> c \<noteq> CHR ''E''"
  by (auto simp: is_digit_def is_space_def)

lemma split_exponent_stop:
  assumes "c \<in> set '',}''"
  shows "split_exponent (t @ c # r) = split_exponent t"
proof (cases t)
  case Nil
  then show ?thesis using stop_chars [OF assms] by (simp add: split_exponent_def)
next
  case (Cons a u)
  obtain neg v where "split_sign u = (neg, v)" by fastforce
  then show ?thesis
    using Cons stop_chars [OF assms] split_sign_stop [OF assms, of u r]
    by (simp add: split_exponent_def takeWhile_stop)
qed

text \<open>What \<open>stod\<close> reads: the sign, the digits before and after the point, the exponent.\<close>

definition fraction :: "string \<Rightarrow> string \<times> string" where
  "fraction q = (case q of [] \<Rightarrow> ([], []) | c # u \<Rightarrow>
     if c = CHR ''.'' then (takeWhile is_digit u, dropWhile is_digit u) else ([], q))"

definition numeral_value :: "bool \<Rightarrow> string \<Rightarrow> string \<Rightarrow> int \<Rightarrow> real option" where
  "numeral_value neg ip fp e = (let m = real (digits_val (ip @ fp)) * 10 powi (e - int (length fp));
       x = (if neg then - m else m); v = f64 x
     in if ip = [] \<and> fp = [] then None
        else if \<bar>v\<bar> < 2 ^ 1024 \<and> (v = x \<or> 2 powi (-1022) \<le> \<bar>v\<bar>) then Some v else None)"

lemma stod_parts:
  "split_sign (skip_ws s) = (neg, t) \<Longrightarrow> fraction (dropWhile is_digit t) = (fp, q) \<Longrightarrow>
     stod s = numeral_value neg (takeWhile is_digit t) fp (split_exponent q)"
  by (simp add: stod_def fraction_def numeral_value_def Let_def)

lemma fraction_stop:
  assumes "c \<in> set '',}''" and "fraction q = (fp, e)"
  shows "\<exists>e'. fraction (q @ c # r) = (fp, e') \<and> split_exponent e' = split_exponent e"
proof (cases q)
  case Nil
  then show ?thesis using assms stop_chars [OF assms(1)] by (simp add: fraction_def split_exponent_def)
next
  case (Cons a u)
  have "\<not> is_digit c" using stop_chars [OF assms(1)] by simp
  then show ?thesis
    using Cons assms(2) split_exponent_stop [OF assms(1)]
    by (auto simp: fraction_def takeWhile_stop dropWhile_stop split_exponent_stop [OF assms(1), of "a # u" r, simplified]
        split: if_splits)
qed

lemma stod_stop:
  assumes "c \<in> set '',}''"
  shows "stod (s @ c # r) = stod s"
proof -
  note stop = stop_chars [OF assms]
  then have nd: "\<not> is_digit c" by simp
  obtain neg t where t: "split_sign (skip_ws s) = (neg, t)" by fastforce
  have sign: "split_sign (skip_ws (s @ c # r)) = (neg, t @ c # r)"
    using t stop split_sign_stop [OF assms, of "skip_ws s" r] by (simp add: skip_ws_def dropWhile_stop)
  obtain fp q where f: "fraction (dropWhile is_digit t) = (fp, q)" by fastforce
  obtain q' where f': "fraction (dropWhile is_digit (t @ c # r)) = (fp, q')"
    and e: "split_exponent q' = split_exponent q"
    using fraction_stop [OF assms f, of r] nd by (auto simp: dropWhile_stop)
  show ?thesis
    using stod_parts [OF t f] stod_parts [OF sign f'] e nd by (simp add: takeWhile_stop)
qed

lemma json_double_member:
  assumes "plain_members ms" and "NumMember k v \<in> set ms"
  shows "json_double (compact_message ms) k = (case stod v of None \<Rightarrow> 0 | Some x \<Rightarrow> x)"
proof -
  obtain c t where "c \<in> set '',}''" and "after_first (key_pat k []) (compact_message ms) = Some (v @ c # t)"
    using find_in_message [OF assms, of "[]" v] by (auto simp: key_pats)
  then show ?thesis using stod_stop [of c v t] by (simp add: json_double_def key_pats)
qed

lemma type_map_name: "map_of type_map (alert_type_name t) = Some t"
  by (cases t) (simp_all add: type_map_def)

lemma severity_of_name: "severity_of (severity_name s) = s"
  by (cases s) (simp_all add: severity_of_def)

lemma compact_message_nonempty [simp]: "compact_message ms \<noteq> []"
  by (simp add: compact_message_def)

subsection \<open>Properties of the alerts\<close>

text \<open>C31. A message written without white space is read back, whatever the order of its members: the type
  and severity named by \<open>alertTypeName\<close> and \<open>severityName\<close>, the frequency its number denotes and
  the details, provided no value contains a quote.\<close>

theorem alert_round_trip:
  assumes "plain_members ms" and "StrMember ''type'' (alert_type_name t) \<in> set ms"
    and "StrMember ''severity'' (severity_name sv) \<in> set ms" and "NumMember ''freq_hz'' f \<in> set ms"
    and "stod f = Some x" and "StrMember ''details'' d \<in> set ms"
  shows "parse_alert (compact_message ms) = Some \<lparr>al_type = t, al_severity = sv, al_freq_hz = x, al_power_db = 0,
     al_baseline_db = 0, al_details = d, al_timestamp_ms = 0, al_scanner_id = []\<rparr>"
proof -
  note fields = json_str_member [OF assms(1,2)] json_str_member [OF assms(1,3)] json_str_member [OF assms(1,6)]
    json_double_member [OF assms(1,4)]
  show ?thesis unfolding parse_alert_def fields by (simp add: type_map_name severity_of_name assms(5))
qed

theorem alert_round_trip_witness:
  "parse_alert (compact_message [StrMember ''details'' ''ICAO ABCDEF'', NumMember ''freq_hz'' ''1090000000'',
     NumMember ''power_db'' ''-72.5'', StrMember ''severity'' ''HIGH'', StrMember ''type'' ''ADSB_SPOOFING'']) =
   Some \<lparr>al_type = AdsbSpoofing, al_severity = High, al_freq_hz = 1090000000, al_power_db = 0,
     al_baseline_db = 0, al_details = ''ICAO ABCDEF'', al_timestamp_ms = 0, al_scanner_id = []\<rparr>"
proof -
  let ?ms = "[StrMember ''details'' ''ICAO ABCDEF'', NumMember ''freq_hz'' ''1090000000'',
     NumMember ''power_db'' ''-72.5'', StrMember ''severity'' ''HIGH'', StrMember ''type'' ''ADSB_SPOOFING'']"
  have "plain_members ?ms" by (simp add: plain_members_def plain_key_def quote_char_def)
  moreover have "stod ''1090000000'' = Some 1090000000"
    by (simp add: stod_def split_sign_def skip_ws_def is_space_def is_digit_def digits_val_def digit_val_def
        split_exponent_def float_simps)
  ultimately show ?thesis using alert_round_trip [of ?ms AdsbSpoofing High _ _ "''ICAO ABCDEF''"] by simp
qed

text \<open>The message the header documents is not accepted: it has white space after the colons, which the
  search for the key does not allow, so the type is not found and the alert is dropped.\<close>

theorem documented_message_rejected:
  "parse_alert ([CHR ''{''] @ [quote_char] @ ''type'' @ [quote_char] @ '': '' @ [quote_char] @ ''ADSB_SPOOFING'' @
     [quote_char] @ '', '' @ [quote_char] @ ''severity'' @ [quote_char] @ '': '' @ [quote_char] @ ''HIGH'' @
     [quote_char] @ ''}'') = None"
  by (simp add: parse_alert_def json_str_def str_key_def quote_char_def type_map_def)

text \<open>C11. No alert is lost and stopping returns. The alerts stored, the one in hand and those queued are at
  any time exactly the accepted ones, in order; and once \<open>stop\<close> waits for the worker, the worker ends
  by its own moves (at most three per queued alert and five), with every accepted alert handled.\<close>

theorem alert_stop_drains:
  assumes "wq_reach alert_worker s"
  shows "in_order s = accepted s \<and>
    (spc s = Joining \<longrightarrow> (\<exists>n s'. n \<le> 3 * length (items s) + 5 \<and>
       wq_run alert_worker (replicate n Worker) s = Some s' \<and> wpc s' = Exited \<and> concat (handled s') = accepted s'))"
proof -
  have "exit_measure alert_worker s \<le> 3 * length (items s) + 5"
    by (cases "wpc s") (simp_all add: exit_measure_def)
  moreover have "\<exists>n s'. n \<le> exit_measure alert_worker s \<and> wq_run alert_worker (replicate n Worker) s = Some s' \<and>
      wpc s' = Exited \<and> concat (handled s') = accepted s'" if j: "spc s = Joining"
  proof -
    have "stop_flag s" "can_run alert_worker s" using alerts.joining_can_run [OF assms j] by blast+
    then obtain n s' where n: "n \<le> exit_measure alert_worker s"
      and run: "wq_run alert_worker (replicate n Worker) s = Some s'" and ex: "wpc s' = Exited"
      using alerts.worker_exits by blast
    have "concat (handled s') = accepted s'"
      by (rule alerts.exited_all_handled [OF wq_reach_run [OF assms run] ex])
    then show ?thesis using n run ex by blast
  qed
  ultimately show ?thesis using alerts.reach_in_order [OF assms] le_trans by blast
qed

lemmas wq_eval = wq_moves wq_init_def take_one_def add_batch_def

theorem alert_stop_drains_witness:
  "\<forall>a b. \<exists>s n s'. wq_run alert_worker [Worker, Worker, Worker, Push a, Push b, Notify, Notify, EndInput, SetFlag, NotifyStop]
       wq_init = Some s \<and> spc s = Joining \<and> n \<le> 3 * length (items s) + 5 \<and>
     wq_run alert_worker (replicate n Worker) s = Some s' \<and> wpc s' = Exited \<and> concat (handled s') = accepted s'"
proof (intro allI)
  fix a b
  obtain s where run: "wq_run alert_worker [Worker, Worker, Worker, Push a, Push b, Notify, Notify, EndInput, SetFlag,
      NotifyStop] wq_init = Some s" and j: "spc s = Joining"
    by (simp add: wq_eval)
  have "wq_reach alert_worker s" by (rule wq_reach_run [OF wq_reach.start run])
  then show "\<exists>s n s'. wq_run alert_worker [Worker, Worker, Worker, Push a, Push b, Notify, Notify, EndInput, SetFlag,
      NotifyStop] wq_init = Some s \<and> spc s = Joining \<and> n \<le> 3 * length (items s) + 5 \<and>
     wq_run alert_worker (replicate n Worker) s = Some s' \<and> wpc s' = Exited \<and> concat (handled s') = accepted s'"
    using alert_stop_drains [of s] run j by blast
qed

subsection \<open>From the broker to the store\<close>

text \<open>The alerts among the message bodies, in order: what the handler of the broker thread puts on the queue.\<close>

definition alerts_in :: "string option list \<Rightarrow> rf_alert list" where
  "alerts_in bodies = List.map_filter (\<lambda>b. Option.bind b parse_alert) bodies"

lemma alerts_in_simps [simp]:
  "alerts_in [] = []"
  "alerts_in (b # bs) = (case Option.bind b parse_alert of None \<Rightarrow> alerts_in bs | Some a \<Rightarrow> a # alerts_in bs)"
  by (simp_all add: alerts_in_def List.map_filter_def split: option.split)

lemma messages_queue_received: "fold on_alert_message bodies q = q @ alerts_in bodies"
  by (induction bodies arbitrary: q) (auto simp: on_alert_message_def push_alert_def split: option.split)

lemma stored_alerts:
  "stored (store_alerts quote as st) = stored st @ map (\<lambda>(a, out). insert_sql quote a) (filter (\<lambda>(a, out). out = Committed) as)"
proof (induction as arbitrary: st)
  case (Cons p as)
  show ?case using Cons [of "alert_insert quote (snd p) (fst p) st"]
    by (cases "snd p") (auto simp: store_alerts_def alert_insert_def case_prod_beta)
qed (simp add: store_alerts_def)

text \<open>C16. From the broker to the table. When the worker has ended after any interleaving in which the bodies
  came in, the statements that took effect are, in order and once each, the inserts of the alerts the
  bodies contain, less those whose own transaction failed; with no failure, all of them.\<close>

theorem alerts_are_stored:
  assumes "wq_run alert_worker as wq_init = Some s" and "wpc s = Exited"
    and "pushes as = fold on_alert_message bodies []" and "length outs = length (alerts_in bodies)"
  shows "stored (store_alerts quote (zip (concat (handled s)) outs) st) =
       stored st @ map (insert_sql quote \<circ> fst) (filter (\<lambda>(a, out). out = Committed) (zip (alerts_in bodies) outs)) \<and>
     (list_all (\<lambda>out. out = Committed) outs \<longrightarrow>
       stored (store_alerts quote (zip (concat (handled s)) outs) st) = stored st @ map (insert_sql quote) (alerts_in bodies))"
proof -
  have "concat (handled s) = accepted s"
    by (rule alerts.exited_all_handled [OF wq_reach_run [OF wq_reach.start assms(1)] assms(2)])
  then have h: "concat (handled s) = alerts_in bodies"
    using run_accepted [OF assms(1)] assms(3) by (simp add: messages_queue_received wq_init_def)
  have "filter (\<lambda>(a, out). out = Committed) (zip xs outs) = zip xs outs"
    if "list_all (\<lambda>out. out = Committed) outs" for xs :: "rf_alert list"
    using that by (auto simp: filter_id_conv list_all_iff dest: set_zip_rightD)
  moreover have "map2 (\<lambda>a out. insert_sql quote a) xs outs = map (insert_sql quote) xs" if "length xs = length outs" for xs
    using that by (induction xs outs rule: list_induct2) simp_all
  ultimately show ?thesis using assms(4) by (auto simp: h stored_alerts comp_def case_prod_beta)
qed


definition jamming_message :: string where
  "jamming_message = compact_message [StrMember ''type'' ''GPS_JAMMING'', StrMember ''severity'' ''HIGH'']"

lemma jamming_parses: "\<exists>a. parse_alert jamming_message = Some a \<and> al_type a = GpsJamming \<and> al_severity a = High"
  by (simp add: parse_alert_def jamming_message_def compact_message_def json_str_def str_key_def quote_char_def type_map_def severity_of_def)

theorem alerts_are_stored_witness:
  "\<exists>a s. parse_alert jamming_message = Some a \<and>
     wq_run alert_worker [Worker, Push a, Notify, Worker, Worker, EndInput, SetFlag, NotifyStop, Worker, Worker] wq_init = Some s \<and>
     wpc s = Exited \<and> stored (store_alerts id (zip (concat (handled s)) [Committed]) \<lparr>store_connections = 1, stored = []\<rparr>) = [insert_sql id a]"
proof -
  obtain a where a: "parse_alert jamming_message = Some a" using jamming_parses by blast
  let ?as = "[Worker, Push a, Notify, Worker, Worker, EndInput, SetFlag, NotifyStop, Worker, Worker]"
  obtain s where run: "wq_run alert_worker ?as wq_init = Some s" and s: "wpc s = Exited" by (simp add: wq_eval)
  have "parse_alert ''x'' = None" by (simp add: parse_alert_def json_str_def str_key_def quote_char_def type_map_def)
  then have bodies: "alerts_in [None, Some jamming_message, Some ''x''] = [a]" by (simp add: a)
  have p: "pushes ?as = fold on_alert_message [None, Some jamming_message, Some ''x''] []"
    unfolding messages_queue_received bodies by (simp add: pushes_def)
  have "length [Committed] = length (alerts_in [None, Some jamming_message, Some ''x''])" unfolding bodies by simp
  from alerts_are_stored [OF run s p this, of id "\<lparr>store_connections = 1, stored = []\<rparr>"]
  have "stored (store_alerts id (zip (concat (handled s)) [Committed]) \<lparr>store_connections = 1, stored = []\<rparr>) = [insert_sql id a]"
    unfolding bodies by simp
  then show ?thesis using a run s by blast
qed

end
