(* ===== verification/Gps.thy ===== *)
theory Gps
  imports Json Alerts Fft
begin

section \<open>GPS position and GPS threats (\<open>GpsCache\<close>, \<open>GpsMonitor\<close>)\<close>

text \<open>
  \<open>GpsCache\<close> keeps the last position a broker message gave. \<open>GpsMonitor\<close> asks for short captures at
  the GPS frequencies, follows the noise level and raises alerts; its float arithmetic is rounded
  operation by operation as the source has it. The captures (a callback) and the store are outside.
\<close>

subsection \<open>The cache\<close>

record gps_fix =
  fix_lat :: real
  fix_lon :: real
  fix_alt_m :: real

definition parse_fix :: "'j json_api \<Rightarrow> string \<Rightarrow> gps_fix option" where
  "parse_fix api s =
     Option.bind (json_parse api s) (\<lambda>j.
     Option.bind (value_num api j ''latitude_deg'' 0) (\<lambda>la.
     Option.bind (value_num api j ''longitude_deg'' 0) (\<lambda>lo.
     Option.bind (value_num api j ''altitude_m'' 0) (\<lambda>al.
     Some \<lparr>fix_lat = la, fix_lon = lo, fix_alt_m = al\<rparr>))))"

text \<open>A message is its body, None when it is no string; the cache is the field \<open>fix_\<close>.\<close>

definition on_gps_message :: "'j json_api \<Rightarrow> string option \<Rightarrow> gps_fix option \<Rightarrow> gps_fix option" where
  "on_gps_message api body cache = (case body of None \<Rightarrow> cache
     | Some b \<Rightarrow> (case parse_fix api b of None \<Rightarrow> cache | Some f \<Rightarrow> Some f))"

definition gps_get :: "gps_fix option \<Rightarrow> gps_fix option" where
  "gps_get cache = cache"

definition gps_messages :: "'j json_api \<Rightarrow> string option list \<Rightarrow> gps_fix option" where
  "gps_messages api ms = foldl (\<lambda>cache m. on_gps_message api m cache) None ms"

text \<open>The cache with its container: messages arrive while it runs; \<open>start\<close> is called once, \<open>stop\<close> also by
  the destructor.\<close>

record gps_cache =
  cached_fix :: "gps_fix option"
  gps_container :: bool
  gps_stopping :: bool

datatype gps_event = GpsStart | GpsMessage "string option" | GpsStop

definition new_gps_cache :: gps_cache where
  "new_gps_cache = \<lparr>cached_fix = None, gps_container = False, gps_stopping = False\<rparr>"

definition gps_event_step :: "'j json_api \<Rightarrow> gps_cache \<Rightarrow> gps_event \<Rightarrow> gps_cache" where
  "gps_event_step api c e = (case e of
       GpsStart \<Rightarrow> c\<lparr>gps_container := True\<rparr>
     | GpsMessage m \<Rightarrow> if gps_container c then c\<lparr>cached_fix := on_gps_message api m (cached_fix c)\<rparr> else c
     | GpsStop \<Rightarrow> c\<lparr>gps_stopping := True, gps_container := False\<rparr>)"

subsection \<open>The monitor\<close>

record gps_config =
  jammer_threshold_db :: real
  spoof_detectable_dbm :: real
  baseline_alpha :: real
  check_interval_s :: real
  gps_scanner_id :: string

definition default_gps_config :: gps_config where
  "default_gps_config = \<lparr>jammer_threshold_db = 20, spoof_detectable_dbm = - 110, baseline_alpha = f64 (5 / 100),
     check_interval_s = 30, gps_scanner_id = []\<rparr>"

record band_state =
  bs_freq_hz :: real
  bs_name :: string
  baseline_db :: real
  last_check_s :: real

definition new_band :: "real \<Rightarrow> string \<Rightarrow> band_state" where
  "new_band f name = \<lparr>bs_freq_hz = f, bs_name = name, baseline_db = - 120, last_check_s = - 9999\<rparr>"

text \<open>The constructor initialises the configuration, the callback and the store; \<open>bands_\<close> is left as a
  vector's default, empty.\<close>

record gps_monitor =
  gps_cfg :: gps_config
  mon_bands :: "band_state list"

definition new_monitor :: "gps_config \<Rightarrow> gps_monitor" where
  "new_monitor cfg = \<lparr>gps_cfg = cfg, mon_bands = []\<rparr>"

text \<open>\<open>computePower\<close>, on interleaved samples; an odd last value is ignored.\<close>

fun energy :: "real list \<Rightarrow> real \<Rightarrow> real" where
  "energy (i # q # iq) s = energy iq (f64 (s + f64 (f64 (i * i) + f64 (q * q))))"
| "energy _ s = s"

definition compute_power :: "real list \<Rightarrow> real" where
  "compute_power iq =
     (if length iq < 2 then - 999
      else let rms = f64 (sqrt (f64 (energy iq 0 / real (length iq div 2))))
           in if f64 (1 / 10 ^ 12) < rms then f32 (f64 (20 * f64 (log 10 rms))) else - 120)"

text \<open>\<open>computeBandwidthMHz\<close>: a direct transform of at most 512 samples in single precision.\<close>

definition std_cosf :: "real \<Rightarrow> real" where
  "std_cosf x = f32 (cos x)"

definition std_sinf :: "real \<Rightarrow> real" where
  "std_sinf x = f32 (sin x)"

definition dft_angle :: "nat \<Rightarrow> nat \<Rightarrow> nat \<Rightarrow> real" where
  "dft_angle big_n k n = f32 (f32 (f32 (f32 (- 2 * f32 (314159265 / 100000000)) * real k) * real n) / real big_n)"

definition dft_step :: "real list \<Rightarrow> nat \<Rightarrow> nat \<Rightarrow> real \<times> real \<Rightarrow> nat \<Rightarrow> real \<times> real" where
  "dft_step iq big_n k acc n = (case acc of (re, im) \<Rightarrow>
     let a = dft_angle big_n k n; i = iq ! (2 * n); q = iq ! (2 * n + 1)
     in (f32 (re + f32 (f32 (i * std_cosf a) - f32 (q * std_sinf a))),
         f32 (im + f32 (f32 (i * std_sinf a) + f32 (q * std_cosf a)))))"

definition dft_power :: "real list \<Rightarrow> nat \<Rightarrow> nat \<Rightarrow> real" where
  "dft_power iq big_n k = (case foldl (dft_step iq big_n k) (0, 0) [0..<big_n] of (re, im) \<Rightarrow>
     f32 (f32 (re * re) + f32 (im * im)))"

definition compute_bandwidth_mhz :: "real list \<Rightarrow> real \<Rightarrow> real" where
  "compute_bandwidth_mhz iq sr_hz =
     (let big_n = min 512 (length iq div 2)
      in if big_n < 32 then 0
         else let psd = map (dft_power iq big_n) [0..<big_n];
                  peak = foldl (\<lambda>p v. if p < v then v else p) (- 1000000000) psd;
                  half = f32 (peak / 2);
                  above = length (filter (\<lambda>v. half \<le> v) psd);
                  bin_hz = f64 (sr_hz / real big_n)
              in f32 (f64 (f64 (real above * bin_hz) / 1000000)))"

subsection \<open>The text of an alert\<close>

text \<open>An \<open>ostream\<close> with \<open>fixed\<close> and precision 1, and one with precision 1 only: one significant digit,
  in scientific notation from 10 on.\<close>

definition show_fixed1 :: "real \<Rightarrow> string" where
  "show_fixed1 x = (let n = nat (rne (\<bar>x\<bar> * 10))
     in (if x < 0 then ''-'' else '''') @ show_nat (n div 10) @ ''.'' @ show_nat (n mod 10))"

definition show_exp :: "int \<Rightarrow> string" where
  "show_exp e = (if e < 0 then ''e-'' else ''e+'') @ (if \<bar>e\<bar> < 10 then ''0'' else '''') @ show_nat (nat \<bar>e\<bar>)"

definition show_digit1 :: "real \<Rightarrow> string" where
  "show_digit1 x =
     (if x = 0 then ''0''
      else let e0 = \<lfloor>log 10 \<bar>x\<bar>\<rfloor>; d0 = rne (\<bar>x\<bar> / 10 powi e0);
               (d, e) = (if d0 = 10 then (1, e0 + 1) else (d0, e0));
               sign = (if x < 0 then ''-'' else '''')
           in if e < - 4 \<or> 1 \<le> e then sign @ show_nat (nat d) @ show_exp e
              else if e = 0 then sign @ show_nat (nat d)
              else sign @ ''0.'' @ replicate (nat (- e) - 1) (CHR ''0'') @ show_nat (nat d))"

subsection \<open>Checking a band\<close>

definition update_baseline :: "gps_config \<Rightarrow> real \<Rightarrow> real \<Rightarrow> real" where
  "update_baseline cfg pw base =
     (if pw < f32 (base + 10)
      then f32 (f64 (f64 (f64 (1 - baseline_alpha cfg) * base) + f64 (baseline_alpha cfg * pw)))
      else base)"

text \<open>The decision, on the measured power, the distance to the baseline and the bandwidth.\<close>

definition classify :: "gps_config \<Rightarrow> real \<Rightarrow> real \<Rightarrow> real \<Rightarrow> (alert_type \<times> alert_severity) option" where
  "classify cfg pw delta bw_mhz =
     (if pw < f32 (spoof_detectable_dbm cfg) \<and> delta < f32 (jammer_threshold_db cfg) then None
      else if f32 (spoof_detectable_dbm cfg) < pw \<and> 1 / 2 < bw_mhz \<and> bw_mhz < 5 then Some (GpsSpoofing, Critical)
      else if f32 (jammer_threshold_db cfg) \<le> delta then Some (GpsJamming, if 40 < delta then Critical else High)
      else None)"

definition alert_details :: "string \<Rightarrow> alert_type \<Rightarrow> real \<Rightarrow> real \<Rightarrow> real \<Rightarrow> real \<Rightarrow> string" where
  "alert_details name t pw delta bw_mhz base =
     (if t = GpsSpoofing
      then name @ '' spoofing suspect: detectable signal at '' @ show_fixed1 pw @ '' dBm, '' @ ''BW='' @
        show_fixed1 bw_mhz @ '' MHz (GPS C/A = 2.046 MHz). '' @ ''Real GPS is always below noise floor.''
      else name @ '' jammer detected: +'' @ show_digit1 delta @ '' dB above baseline, BW='' @ show_digit1 bw_mhz @
        '' MHz. '' @ ''Baseline='' @ show_digit1 base @ '' dBm.'')"

definition capture_rate :: real where
  "capture_rate = 5000000"

definition check_band :: "gps_config \<Rightarrow> real list \<Rightarrow> band_state \<Rightarrow> band_state \<times> rf_alert option" where
  "check_band cfg iq band =
     (if iq = [] then (band, None)
      else let pw = compute_power iq;
               base = update_baseline cfg pw (baseline_db band);
               delta = f32 (pw - base);
               bw = compute_bandwidth_mhz iq capture_rate
           in (band\<lparr>baseline_db := base\<rparr>,
               case classify cfg pw delta bw of None \<Rightarrow> None
               | Some (t, sev) \<Rightarrow> Some \<lparr>al_type = t, al_severity = sev, al_freq_hz = bs_freq_hz band,
                   al_power_db = pw, al_baseline_db = base, al_details = alert_details (bs_name band) t pw delta bw base,
                   al_timestamp_ms = 0, al_scanner_id = gps_scanner_id cfg\<rparr>))"

text \<open>One band of \<open>tick\<close>: the alert and whether a capture was made.\<close>

definition tick_band :: "gps_config \<Rightarrow> (real \<Rightarrow> real list) \<Rightarrow> real \<Rightarrow> band_state \<Rightarrow> band_state \<times> rf_alert option \<times> bool" where
  "tick_band cfg fetch now_s band =
     (if f64 (now_s - last_check_s band) < check_interval_s cfg then (band, None, False)
      else case check_band cfg (fetch (bs_freq_hz band)) (band\<lparr>last_check_s := now_s\<rparr>) of
        (band, a) \<Rightarrow> (band, a, True))"

fun tick_bands :: "gps_config \<Rightarrow> (real \<Rightarrow> real list) \<Rightarrow> real \<Rightarrow> band_state list \<Rightarrow> band_state list \<times> rf_alert list" where
  "tick_bands cfg fetch now_s [] = ([], [])"
| "tick_bands cfg fetch now_s (b # bs) = (case tick_band cfg fetch now_s b of (b', a, _) \<Rightarrow>
     case tick_bands cfg fetch now_s bs of (bs', as) \<Rightarrow> (b' # bs', (case a of None \<Rightarrow> as | Some x \<Rightarrow> x # as)))"

definition tick :: "(real \<Rightarrow> real list) \<Rightarrow> real \<Rightarrow> gps_monitor \<Rightarrow> gps_monitor \<times> rf_alert list" where
  "tick fetch now_s m = (case tick_bands (gps_cfg m) fetch now_s (mon_bands m) of (bs, as) \<Rightarrow> (m\<lparr>mon_bands := bs\<rparr>, as))"

fun run_ticks :: "((real \<Rightarrow> real list) \<times> real) list \<Rightarrow> gps_monitor \<Rightarrow> gps_monitor \<times> rf_alert list" where
  "run_ticks [] m = (m, [])"
| "run_ticks ((fetch, now_s) # ts) m = (case tick fetch now_s m of (m, as) \<Rightarrow>
     case run_ticks ts m of (m, as') \<Rightarrow> (m, as @ as'))"

text \<open>The times at which a band is captured over a sequence of ticks.\<close>

fun capture_times :: "gps_config \<Rightarrow> ((real \<Rightarrow> real list) \<times> real) list \<Rightarrow> band_state \<Rightarrow> real list" where
  "capture_times cfg [] b = []"
| "capture_times cfg ((fetch, now_s) # ts) b = (case tick_band cfg fetch now_s b of (b', _, captured) \<Rightarrow>
     (if captured then [now_s] else []) @ capture_times cfg ts b')"

lemma check_band_fields:
  "check_band cfg iq b = (b', a) \<Longrightarrow> last_check_s b' = last_check_s b \<and> bs_freq_hz b' = bs_freq_hz b \<and> bs_name b' = bs_name b"
  by (auto simp: check_band_def Let_def split: if_splits)

lemma tick_band_cases:
  assumes "tick_band cfg fetch now_s b = (b', a, captured)"
  shows "if captured then last_check_s b' = now_s \<and> \<not> f64 (now_s - last_check_s b) < check_interval_s cfg
    else b' = b \<and> a = None"
  using assms by (auto simp: tick_band_def dest: check_band_fields split: if_splits prod.splits)

text \<open>A stronger jammer is never reported as less severe.\<close>

lemma jammer_severity_mono:
  assumes "classify cfg pw delta bw = Some (GpsJamming, sv)" and "classify cfg pw' delta' bw' = Some (GpsJamming, sv')"
    and "delta \<le> delta'"
  shows "sv \<le> sv'"
  using assms by (auto simp: classify_def less_eq_alert_severity_def split: if_splits)

subsection \<open>Properties of the position cache and the monitor\<close>

text \<open>The cache holds the position of the last message that parsed; messages that are no string, no JSON
  or have a field of the wrong type leave it as it was.\<close>

theorem gps_cache_last_fix:
  "gps_get (gps_messages api ms) =
     (case List.map_filter (\<lambda>m. Option.bind m (parse_fix api)) ms of [] \<Rightarrow> None | fs \<Rightarrow> Some (last fs))"
proof -
  let ?p = "\<lambda>m. Option.bind m (parse_fix api)"
  have step: "on_gps_message api m cache = (case ?p m of None \<Rightarrow> cache | Some f \<Rightarrow> Some f)" for m cache
    by (cases m) (simp_all add: on_gps_message_def)
  have "foldl (\<lambda>cache m. on_gps_message api m cache) c ms =
      (case List.map_filter ?p ms of [] \<Rightarrow> c | fs \<Rightarrow> Some (last fs))" for c
    unfolding step
    by (induction ms arbitrary: c) (auto simp: List.map_filter_simps split: option.split list.split)
  then show ?thesis by (simp add: gps_get_def gps_messages_def)
qed

text \<open>What counts are the messages between \<open>start\<close> and \<open>stop\<close>; \<open>get\<close> still answers after the stop.\<close>

lemma running_cache:
  "gps_container c \<Longrightarrow> foldl (gps_event_step api) c (map GpsMessage ms) =
     c\<lparr>cached_fix := foldl (\<lambda>cache m. on_gps_message api m cache) (cached_fix c) ms\<rparr>"
  by (induction ms arbitrary: c) (simp_all add: gps_event_step_def)

lemma stopped_cache: "\<not> gps_container c \<Longrightarrow> foldl (gps_event_step api) c (map GpsMessage ms) = c"
  by (induction ms) (simp_all add: gps_event_step_def)

lemma cache_holds_running_messages:
  "gps_get (cached_fix (foldl (gps_event_step api) new_gps_cache
     (map GpsMessage before @ [GpsStart] @ map GpsMessage ms @ [GpsStop] @ map GpsMessage after))) =
   gps_get (gps_messages api ms)"
proof -
  let ?up = "new_gps_cache\<lparr>gps_container := True\<rparr>"
  have "foldl (gps_event_step api) new_gps_cache (map GpsMessage before @ [GpsStart]) = ?up"
    by (simp add: stopped_cache new_gps_cache_def) (simp add: gps_event_step_def)
  moreover have "foldl (gps_event_step api) ?up (map GpsMessage ms) = ?up\<lparr>cached_fix := gps_messages api ms\<rparr>"
    by (simp add: running_cache new_gps_cache_def gps_messages_def)
  ultimately have "foldl (gps_event_step api) new_gps_cache
      (map GpsMessage before @ [GpsStart] @ map GpsMessage ms @ [GpsStop] @ map GpsMessage after) =
      ?up\<lparr>cached_fix := gps_messages api ms, gps_stopping := True, gps_container := False\<rparr>"
    by (simp add: stopped_cache gps_event_step_def)
  then show ?thesis by (simp add: gps_get_def)
qed

text \<open>Captures of a band are at least the check interval apart, and the first comes no earlier than the
  interval after the band's last check.\<close>

theorem captures_rate_limited:
  "successively (\<lambda>a b. check_interval_s cfg \<le> f64 (b - a)) (last_check_s b # capture_times cfg ts b)"
proof (induction ts arbitrary: b)
  case (Cons t ts)
  obtain fetch now_s where t: "t = (fetch, now_s)" by (cases t)
  obtain b' a captured where tb: "tick_band cfg fetch now_s b = (b', a, captured)" by (metis prod_cases3)
  show ?case
    using Cons.IH [of b'] tick_band_cases [OF tb] tb by (cases captured) (auto simp: t)
qed simp

text \<open>What an alert says is what was measured: its power is that of a capture that was not empty, its
  baseline the one the band keeps, a spoofing alert is critical and means a detectable signal of 0.5
  to 5 MHz, and a jamming alert means a power of at least the threshold above the baseline, critical
  above 40 dB.\<close>

theorem alert_has_cause:
  assumes "check_band cfg iq b = (b', Some a)"
  shows "iq \<noteq> [] \<and> al_power_db a = compute_power iq \<and> al_baseline_db a = baseline_db b' \<and> al_freq_hz a = bs_freq_hz b \<and>
    (case al_type a of
       GpsSpoofing \<Rightarrow> al_severity a = Critical \<and> f32 (spoof_detectable_dbm cfg) < al_power_db a \<and>
         1 / 2 < compute_bandwidth_mhz iq capture_rate \<and> compute_bandwidth_mhz iq capture_rate < 5
     | GpsJamming \<Rightarrow> f32 (jammer_threshold_db cfg) \<le> f32 (al_power_db a - al_baseline_db a) \<and>
         (al_severity a = Critical \<longleftrightarrow> 40 < f32 (al_power_db a - al_baseline_db a))
     | _ \<Rightarrow> False)"
proof -
  let ?pw = "compute_power iq"
  let ?base = "update_baseline cfg ?pw (baseline_db b)"
  let ?delta = "f32 (?pw - ?base)" and ?bw = "compute_bandwidth_mhz iq capture_rate"
  have ne: "iq \<noteq> []" using assms by (auto simp: check_band_def)
  obtain t sev where cl: "classify cfg ?pw ?delta ?bw = Some (t, sev)"
    and a: "al_type a = t" "al_severity a = sev" "al_power_db a = ?pw" "al_baseline_db a = ?base"
      "al_freq_hz a = bs_freq_hz b" "baseline_db b' = ?base"
    using assms ne by (auto simp: check_band_def Let_def split: option.splits)
  show ?thesis using cl ne unfolding a classify_def
    by (auto simp del: not_less split: if_splits)
qed

theorem alert_has_cause_witness:
  "\<exists>b' a. check_band default_gps_config [1, 0] (new_band 1575420000 ''GPS-L1'') = (b', Some a) \<and>
     al_type a = GpsJamming \<and> al_severity a = Critical \<and> al_power_db a = compute_power [1, 0]"
proof -
  have "f64 (1 / 2) = (1 / 2 :: real)" by (simp add: round_eval)
  then have "f64 (1 / 1000000000000) \<le> 1 / 2" by (intro r64.fl_le_fixed) simp_all
  then have pw: "compute_power [1, 0] = 0" by (simp add: compute_power_def Let_def float_simps)
  have bw: "compute_bandwidth_mhz [1, 0] capture_rate = 0" by (simp add: compute_bandwidth_mhz_def)
  have base: "update_baseline default_gps_config 0 (- 120) = - 120"
    by (simp add: update_baseline_def float_simps)
  have cl: "classify default_gps_config 0 120 0 = Some (GpsJamming, Critical)"
    by (simp add: classify_def default_gps_config_def float_simps)
  have "f32 120 = 120" by (simp add: float_simps)
  then obtain b' a where run: "check_band default_gps_config [1, 0] (new_band 1575420000 ''GPS-L1'') = (b', Some a)"
    and t: "al_type a = GpsJamming" "al_severity a = Critical"
    by (simp add: check_band_def Let_def pw bw base cl new_band_def)
  show ?thesis using alert_has_cause [OF run] run t by blast
qed

lemma classify_eq:
  "classify cfg pw delta bw =
     (if f32 (spoof_detectable_dbm cfg) < pw \<and> 1 / 2 < bw \<and> bw < 5 then Some (GpsSpoofing, Critical)
      else if f32 (jammer_threshold_db cfg) \<le> delta then Some (GpsJamming, if 40 < delta then Critical else High)
      else None)"
  by (auto simp: classify_def)



text \<open>The monitor never looks at anything: nothing fills its list of bands, so whatever the ticks and the
  captures are, no alert is raised and the state stays as constructed.\<close>

theorem monitor_never_checks:
  "run_ticks ts (new_monitor cfg) = (new_monitor cfg, [])"
  by (induction ts) (auto simp: tick_def new_monitor_def)

lemma floor_log10:
  assumes "10 powi e \<le> x" and "x < 10 powi (e + 1)"
  shows "\<lfloor>log 10 x\<rfloor> = e"
proof -
  have pos: "0 < x" using assms(1) by (smt (verit) zero_less_power_int)
  have p: "(10 :: real) powi k = 10 powr of_int k" for k by (simp add: powr_real_of_int' )
  have "of_int e \<le> log 10 x" using assms(1) pos by (simp add: p le_log_iff)
  moreover have "log 10 x < of_int (e + 1)" using assms(2) pos unfolding p by (subst log_less_iff) auto
  ultimately show ?thesis by (simp add: floor_eq_iff)
qed

lemma show_nat_digit: "show_nat 1 = ''1''" "show_nat 4 = ''4''" "show_nat 9 = ''9''"
  by code_simp+

lemma show_digit1_ten:
  assumes "10 \<le> \<bar>x\<bar>" and "\<bar>x\<bar> < 95" and "d = rne (\<bar>x\<bar> / 10)" and "d \<noteq> 10"
  shows "show_digit1 x = (if x < 0 then ''-'' else '''') @ show_nat (nat d) @ ''e+01''"
proof -
  have "\<lfloor>log 10 \<bar>x\<bar>\<rfloor> = 1" using assms(1,2) by (intro floor_log10) simp_all
  moreover have "show_exp 1 = ''e+01''" using show_nat_digit(1) by (simp add: show_exp_def)
  ultimately show ?thesis using assms by (auto simp: show_digit1_def Let_def)
qed

text \<open>The numbers in the details of a jamming alert have one significant digit: the stream has a precision of
  1 but is not set to \<open>fixed\<close>, so 35.25 dB over a baseline of -85.25 dBm reads as 4e+01 and -9e+01.\<close>

theorem jammer_details_one_digit:
  "\<exists>bw. alert_details ''GPS-L1'' GpsJamming pw 35.25 bw_mhz (- 85.25) =
     ''GPS-L1 jammer detected: +4e+01 dB above baseline, BW='' @ bw @ '' MHz. Baseline=-9e+01 dBm.''"
proof -
  have r: "rne (141 / 40) = 4" "rne (341 / 40) = 9" by (simp_all add: rne_def)
  have "show_digit1 (141 / 4) = ''4e+01''"
    using show_digit1_ten [of "141 / 4", OF _ _ refl] r show_nat_digit(2) by simp
  moreover have "show_digit1 (- (341 / 4)) = ''-9e+01''"
    using show_digit1_ten [of "- (341 / 4)", OF _ _ refl] r show_nat_digit(3) by simp
  moreover have "(35.25 :: real) = 141 / 4" "(85.25 :: real) = 341 / 4" by simp_all
  ultimately show ?thesis by (simp only: alert_details_def) simp
qed

end
