(* ===== verification/P25.thy ===== *)
theory P25
  imports Json WorkQueue
begin

section \<open>P25 channel grants (\<open>P25GrantConsumer\<close>, \<open>P25Db\<close>)\<close>

text \<open>
  The consumer parses grant messages, keeps the newest few in a queue and lets a worker thread call
  the handler (the one \<open>main\<close> installs is in theory App). \<open>P25Db\<close> keeps one row per voice channel and
  one per control channel; the statements are modelled on a list of rows.
\<close>

subsection \<open>Grants\<close>

record p25_grant =
  talk_group :: "32 word"
  source_id :: "32 word"
  gr_freq_hz :: real
  encrypted :: bool
  emergency :: bool
  ts_ms :: int
  alg_id :: "8 word"
  key_id :: "16 word"
  alg_name :: string

text \<open>\<open>on_message\<close> up to \<open>enqueue\<close>; None is an early return or a caught exception. The message is
  accepted in every case.\<close>

definition read_grant :: "'j json_api \<Rightarrow> 'j \<Rightarrow> p25_grant option" where
  "read_grant api j =
     Option.bind (value_u32 api j ''talk_group'' 0) (\<lambda>tg.
     Option.bind (value_u32 api j ''source_id'' 0) (\<lambda>src.
     Option.bind (value_num api j ''freq_hz'' 0) (\<lambda>f.
     Option.bind (value_bool api j ''encrypted'' False) (\<lambda>enc.
     Option.bind (value_bool api j ''emergency'' False) (\<lambda>emg.
     Option.bind (value_i64 api j ''timestamp_ms'' 0) (\<lambda>ts.
     Option.bind (value_int api j ''alg_id'' 255) (\<lambda>alg.
     Option.bind (value_int api j ''key_id'' 0) (\<lambda>key.
     Option.bind (value_str api j ''alg_name'' []) (\<lambda>name.
     Some \<lparr>talk_group = tg, source_id = src, gr_freq_hz = f, encrypted = enc, emergency = emg, ts_ms = ts,
       alg_id = word_of_int alg, key_id = word_of_int key, alg_name = name\<rparr>)))))))))"

definition parse_grant :: "'j json_api \<Rightarrow> string \<Rightarrow> p25_grant option" where
  "parse_grant api body =
     Option.bind (json_parse api body) (\<lambda>j.
     Option.bind (value_str api j ''msg_type'' []) (\<lambda>t.
     if t \<noteq> ''P25_CHANNEL_GRANT'' then None
     else Option.bind (read_grant api j) (\<lambda>g. if gr_freq_hz g \<le> 0 then None else Some g)))"

text \<open>\<open>enqueue\<close>: a queue of more than four loses its oldest element first.\<close>

definition enqueue :: "p25_grant \<Rightarrow> p25_grant list \<Rightarrow> p25_grant list" where
  "enqueue g q = (if 4 < length q then tl q else q) @ [g]"

definition on_grant_message :: "'j json_api \<Rightarrow> string \<Rightarrow> p25_grant list \<Rightarrow> p25_grant list" where
  "on_grant_message api body q = (case parse_grant api body of None \<Rightarrow> q | Some g \<Rightarrow> enqueue g q)"

text \<open>\<open>worker_loop\<close>: the loop is left, whatever is queued, as soon as \<open>running_\<close> is false at its head.
  \<open>stop\<close> clears \<open>running_\<close> and notifies without the mutex, then ends the broker thread.\<close>

definition p25_worker :: "p25_grant worker_code" where
  "p25_worker = \<lparr>loop_test = (\<lambda>stopped. \<not> stopped), awake = (\<lambda>stopped q. q \<noteq> [] \<or> stopped),
     timed_wait = False, take_work = take_one, last_batch = (\<lambda>q. ([], q)), push_work = enqueue,
     locked_stop = False, producers_end_first = False\<rparr>"

lemma p25_worker_simps [simp]:
  "loop_test p25_worker f \<longleftrightarrow> \<not> f" "awake p25_worker f q \<longleftrightarrow> q \<noteq> [] \<or> f" "\<not> timed_wait p25_worker"
  "take_work p25_worker = take_one" "last_batch p25_worker q = ([], q)" "push_work p25_worker = enqueue"
  "\<not> locked_stop p25_worker" "\<not> producers_end_first p25_worker"
  by (simp_all add: p25_worker_def)

lemma enqueue_keeps_last: "length q \<le> 5 \<Longrightarrow> enqueue g q = keep_last 5 (q @ [g])"
  by (cases "length q = 5") (auto simp: enqueue_def keep_last_def drop_Suc)

lemma subseq_tl: "subseq (tl q) q"
  by (cases q) auto

interpretation p25: bounded_worker p25_worker 5
proof unfold_locales
  show "subseq (push_work p25_worker g q) (q @ [g])" for g q
    using list_emb_append_mono [OF subseq_tl [of q], of "[g]" "[g]"] by (simp add: enqueue_def)
qed (auto simp: take_one_front enqueue_def)

interpretation p25: stopping_worker p25_worker
  by unfold_locales auto

interpretation p25: serving_worker p25_worker "Some 5"
  by unfold_locales (simp add: limited_def fits_def enqueue_keeps_last)

subsection \<open>The channel table\<close>

record p25_row =
  ch_freq_hz :: real
  ch_wacn :: int
  ch_sys_id :: int
  ch_rfss_id :: int
  ch_site_id :: int
  ch_iden :: "int option"
  ch_num :: "int option"
  is_control :: bool
  ch_talk_group :: "int option"
  ch_source_id :: "int option"
  ch_encrypted :: bool
  ch_emergency :: bool
  ch_alg_id :: "int option"
  ch_alg_name :: "string option"
  ch_key_id :: "int option"
  grant_count :: int
  ch_first_seen :: int
  ch_last_seen :: int

definition nonneg_opt :: "int \<Rightarrow> int option" where
  "nonneg_opt i = (if 0 \<le> i then Some i else None)"

text \<open>The site part of a call: \<open>wacn\<close>, \<open>sys_id\<close>, \<open>rfss_id\<close>, \<open>site_id\<close>, \<open>channel_iden\<close>, \<open>channel_num\<close>.\<close>

record p25_site =
  st_wacn :: int
  st_sys_id :: int
  st_rfss_id :: int
  st_site_id :: int
  st_iden :: int
  st_num :: int

definition default_site :: p25_site where
  "default_site = \<lparr>st_wacn = 0, st_sys_id = 0, st_rfss_id = 0, st_site_id = 0, st_iden = - 1, st_num = - 1\<rparr>"

text \<open>\<open>INSERT ... ON CONFLICT DO UPDATE\<close>: the first row the constraint matches is updated, else the new
  row is added. A null \<open>talk_group\<close> conflicts with nothing.\<close>

definition insert_or_update :: "('r \<Rightarrow> bool) \<Rightarrow> ('r \<Rightarrow> 'r) \<Rightarrow> 'r \<Rightarrow> 'r list \<Rightarrow> 'r list" where
  "insert_or_update conflict upd new rs =
     (if list_ex conflict rs then map (\<lambda>r. if conflict r then upd r else r) rs else rs @ [new])"

definition control_row :: "int \<Rightarrow> real \<Rightarrow> p25_site \<Rightarrow> p25_row" where
  "control_row now_us f st = \<lparr>ch_freq_hz = f, ch_wacn = st_wacn st, ch_sys_id = st_sys_id st,
     ch_rfss_id = st_rfss_id st, ch_site_id = st_site_id st, ch_iden = nonneg_opt (st_iden st),
     ch_num = nonneg_opt (st_num st), is_control = True, ch_talk_group = None, ch_source_id = None,
     ch_encrypted = False, ch_emergency = False, ch_alg_id = None, ch_alg_name = None, ch_key_id = None,
     grant_count = 1, ch_first_seen = now_us, ch_last_seen = now_us\<rparr>"

definition upsert_control :: "int \<Rightarrow> real \<Rightarrow> p25_site \<Rightarrow> p25_row list \<Rightarrow> p25_row list" where
  "upsert_control now_us f st = insert_or_update (\<lambda>r. is_control r \<and> ch_freq_hz r = f)
     (\<lambda>r. r\<lparr>ch_last_seen := now_us, ch_wacn := st_wacn st, ch_sys_id := st_sys_id st,
        ch_rfss_id := st_rfss_id st, ch_site_id := st_site_id st, grant_count := grant_count r + 1\<rparr>)
     (control_row now_us f st)"

definition voice_row :: "int \<Rightarrow> p25_grant \<Rightarrow> p25_site \<Rightarrow> p25_row" where
  "voice_row now_us g st = \<lparr>ch_freq_hz = gr_freq_hz g, ch_wacn = st_wacn st, ch_sys_id = st_sys_id st,
     ch_rfss_id = st_rfss_id st, ch_site_id = st_site_id st, ch_iden = nonneg_opt (st_iden st),
     ch_num = nonneg_opt (st_num st), is_control = False, ch_talk_group = Some (sint (talk_group g)),
     ch_source_id = Some (sint (source_id g)), ch_encrypted = encrypted g, ch_emergency = emergency g,
     ch_alg_id = (if encrypted g then Some (int (unat (alg_id g))) else None),
     ch_alg_name = (if encrypted g then Some (alg_name g) else None),
     ch_key_id = (if encrypted g \<and> key_id g \<noteq> 0 then Some (int (unat (key_id g))) else None),
     grant_count = 1, ch_first_seen = now_us, ch_last_seen = now_us\<rparr>"

definition coalesce :: "'a option \<Rightarrow> 'a option \<Rightarrow> 'a option" where
  "coalesce a b = (case a of None \<Rightarrow> b | Some _ \<Rightarrow> a)"

definition upsert_grant :: "int \<Rightarrow> p25_grant \<Rightarrow> p25_site \<Rightarrow> p25_row list \<Rightarrow> p25_row list" where
  "upsert_grant now_us g st = (let new = voice_row now_us g st in
     insert_or_update (\<lambda>r. ch_freq_hz r = ch_freq_hz new \<and> ch_talk_group r = ch_talk_group new)
     (\<lambda>r. r\<lparr>ch_last_seen := now_us, ch_source_id := ch_source_id new, ch_encrypted := ch_encrypted new,
        ch_emergency := ch_emergency new, ch_alg_id := coalesce (ch_alg_id new) (ch_alg_id r),
        ch_alg_name := coalesce (ch_alg_name new) (ch_alg_name r),
        ch_key_id := coalesce (ch_key_id new) (ch_key_id r), grant_count := grant_count r + 1\<rparr>) new)"

text \<open>A call of \<open>P25Db\<close>: the statement takes effect when its transaction commits; a lost connection is
  reopened. No exception leaves it.\<close>

datatype p25_call = Control real p25_site | Grant p25_grant p25_site

record p25_db =
  p25_rows :: "p25_row list"
  p25_connections :: nat

definition p25_statement :: "int \<Rightarrow> p25_call \<Rightarrow> p25_row list \<Rightarrow> p25_row list" where
  "p25_statement now_us c = (case c of Control f st \<Rightarrow> upsert_control now_us f st
     | Grant g st \<Rightarrow> upsert_grant now_us g st)"

definition commit_call :: "tx_outcome \<Rightarrow> int \<Rightarrow> p25_call \<Rightarrow> p25_db \<Rightarrow> p25_db" where
  "commit_call out now_us c d = (case out of
       Committed \<Rightarrow> d\<lparr>p25_rows := p25_statement now_us c (p25_rows d)\<rparr>
     | ConnectionLost reconnected \<Rightarrow>
         if reconnected then d\<lparr>p25_connections := p25_connections d + 1\<rparr> else d
     | TxFailed \<Rightarrow> d)"

subsection \<open>What the statements keep\<close>

definition p25_key :: "p25_row \<Rightarrow> real \<times> int option" where
  "p25_key r = (ch_freq_hz r, ch_talk_group r)"

text \<open>The constraints of the table, and that exactly the control rows have no talk group.\<close>

definition p25_ok :: "p25_row list \<Rightarrow> bool" where
  "p25_ok rs \<longleftrightarrow> distinct (map p25_key rs) \<and> list_all (\<lambda>r. is_control r \<longleftrightarrow> ch_talk_group r = None) rs"

definition total_grants :: "p25_row list \<Rightarrow> int" where
  "total_grants rs = sum_list (map grant_count rs)"

lemma insert_or_update_ok:
  assumes ok: "p25_ok rs" and conflict: "\<And>r. r \<in> set rs \<Longrightarrow> conflict r \<longleftrightarrow> p25_key r = p25_key new"
    and upd: "\<And>r. p25_key (upd r) = p25_key r \<and> is_control (upd r) = is_control r \<and> grant_count (upd r) = grant_count r + 1"
    and new: "grant_count new = 1" "is_control new \<longleftrightarrow> ch_talk_group new = None"
  shows "p25_ok (insert_or_update conflict upd new rs) \<and>
    total_grants (insert_or_update conflict upd new rs) = total_grants rs + 1"
proof (cases "list_ex conflict rs")
  case True
  then obtain e where e: "e \<in> set rs" "conflict e" by (auto simp: list_ex_iff)
  then have k: "p25_key e = p25_key new" using conflict by blast
  have res: "insert_or_update conflict upd new rs = map (\<lambda>r. if p25_key r = p25_key e then upd r else r) rs"
    using True conflict k by (simp add: insert_or_update_def)
  have keys: "map (p25_key \<circ> (\<lambda>r. if p25_key r = p25_key e then upd r else r)) rs = map p25_key rs"
    using upd by simp
  have "ch_talk_group (upd r) = ch_talk_group r" for r
    using upd [of r] by (simp add: p25_key_def)
  then have roles: "list_all (\<lambda>r. is_control r \<longleftrightarrow> ch_talk_group r = None)
      (map (\<lambda>r. if p25_key r = p25_key e then upd r else r) rs)"
    using ok upd by (auto simp: p25_ok_def list_all_iff)
  have "distinct (map p25_key (map (\<lambda>r. if p25_key r = p25_key e then upd r else r) rs))"
    using ok unfolding map_map keys by (simp add: p25_ok_def)
  then have "p25_ok (insert_or_update conflict upd new rs)" using roles by (simp add: res p25_ok_def)
  moreover have "total_grants (insert_or_update conflict upd new rs) = total_grants rs + 1"
    using sum_update_one [of p25_key rs e grant_count upd] ok e upd
    by (simp add: res total_grants_def p25_ok_def comp_def)
  ultimately show ?thesis by blast
next
  case False
  then have "p25_key new \<notin> p25_key ` set rs" using conflict by (auto simp: list_ex_iff)
  then show ?thesis using ok new False by (simp add: insert_or_update_def p25_ok_def total_grants_def)
qed

lemma p25_statement_ok:
  assumes "p25_ok rs"
  shows "p25_ok (p25_statement now_us c rs) \<and> total_grants (p25_statement now_us c rs) = total_grants rs + 1"
proof (cases c)
  case (Control f st)
  have "is_control r \<and> ch_freq_hz r = f \<longleftrightarrow> p25_key r = p25_key (control_row now_us f st)" if "r \<in> set rs" for r
    using assms that by (auto simp: p25_ok_def list_all_iff p25_key_def control_row_def)
  then show ?thesis unfolding Control p25_statement_def p25_call.case upsert_control_def
    by (intro insert_or_update_ok [OF assms]) (simp_all add: p25_key_def control_row_def)
next
  case (Grant g st)
  show ?thesis unfolding Grant p25_statement_def p25_call.case upsert_grant_def Let_def
    by (intro insert_or_update_ok [OF assms]) (simp_all add: p25_key_def voice_row_def)
qed

subsection \<open>Properties of grants\<close>

text \<open>C27. At most five grants wait, and the grants handled, in hand and queued are, in order, a subsequence of
  those received: a full queue loses its oldest grants and nothing is reordered or handled twice.\<close>

theorem p25_queue_bounded_in_order:
  assumes "wq_reach p25_worker s"
  shows "length (items s) \<le> 5 \<and> subseq (concat (handled s) @ in_hand s @ items s) (accepted s)"
  using p25.reach_bound [OF assms] p25.reach_subseq [OF assms] by (simp add: in_order_def)

definition sample_grant :: p25_grant where
  "sample_grant = \<lparr>talk_group = 101, source_id = 7, gr_freq_hz = 851012500, encrypted = False, emergency = False,
     ts_ms = 0, alg_id = 255, key_id = 0, alg_name = []\<rparr>"

lemmas p25_eval = wq_moves wq_init_def take_one_def enqueue_def add_batch_def

theorem p25_queue_bounded_in_order_witness:
  "\<exists>s. wq_run p25_worker (map Push [sample_grant\<lparr>talk_group := 1\<rparr>, sample_grant\<lparr>talk_group := 2\<rparr>,
       sample_grant\<lparr>talk_group := 3\<rparr>, sample_grant\<lparr>talk_group := 4\<rparr>, sample_grant\<lparr>talk_group := 5\<rparr>,
       sample_grant\<lparr>talk_group := 6\<rparr>]) wq_init = Some s \<and> length (accepted s) = 6 \<and>
     length (items s) \<le> 5 \<and> subseq (concat (handled s) @ in_hand s @ items s) (accepted s)"
proof -
  let ?gs = "[sample_grant\<lparr>talk_group := 1\<rparr>, sample_grant\<lparr>talk_group := 2\<rparr>, sample_grant\<lparr>talk_group := 3\<rparr>,
    sample_grant\<lparr>talk_group := 4\<rparr>, sample_grant\<lparr>talk_group := 5\<rparr>, sample_grant\<lparr>talk_group := 6\<rparr>]"
  obtain s where run: "wq_run p25_worker (map Push ?gs) wq_init = Some s" and n: "length (accepted s) = 6"
    by (simp add: p25_eval)
  have "wq_reach p25_worker s" by (rule wq_reach_run [OF wq_reach.start run])
  then show ?thesis using p25_queue_bounded_in_order [of s] run n by blast
qed

text \<open>Stopping the consumer can hang. \<open>stop\<close> clears \<open>running_\<close> and notifies without holding the mutex,
  so both can fall between the worker's test of its condition and its wait: a state is reachable in
  which \<open>stop\<close> waits for the worker, the worker is blocked, the broker thread has ended, and nothing
  but a spurious wake-up can happen any more.\<close>

theorem p25_stop_can_hang:
  "\<exists>s. wq_reach p25_worker s \<and> stop_flag s \<and> spc s = Joining \<and> wpc s = Blocked \<and>
     (\<forall>a. a = Spurious \<or> wq_move p25_worker a s = None)"
proof -
  let ?as = "[Worker, Worker, SetFlag, NotifyStop, Worker, EndInput] :: p25_grant wq_action list"
  let ?s = "wq_init\<lparr>stop_flag := True, wpc := Blocked, spc := Joining, producing := False\<rparr> :: p25_grant wq"
  have "wq_run p25_worker ?as wq_init = Some ?s" by (simp add: p25_eval)
  then have "wq_reach p25_worker ?s" by (rule wq_reach_run [OF wq_reach.start])
  moreover have "a = Spurious \<or> wq_move p25_worker a ?s = None" for a
    by (cases a) (simp_all add: p25_eval)
  ultimately show ?thesis by fastforce
qed

text \<open>C29. Each committed call counts once, and the table keeps one row per frequency and talk group and one
  control row per frequency; a call whose transaction fails changes no row.\<close>

theorem p25_rows_unique_and_counted:
  assumes "p25_ok (p25_rows d)"
  shows "p25_ok (p25_rows (commit_call out now_us c d)) \<and>
    total_grants (p25_rows (commit_call out now_us c d)) = total_grants (p25_rows d) + (if out = Committed then 1 else 0)"
  using p25_statement_ok [OF assms, of now_us c] assms
  by (cases out) (simp_all add: commit_call_def)

theorem p25_rows_unique_and_counted_witness:
  "let d = \<lparr>p25_rows = [control_row 0 851000000 default_site, voice_row 0 sample_grant default_site], p25_connections = 1\<rparr>
   in p25_ok (p25_rows d) \<and> total_grants (p25_rows (commit_call Committed 1 (Grant sample_grant default_site) d)) = 3"
proof -
  let ?d = "\<lparr>p25_rows = [control_row 0 851000000 default_site, voice_row 0 sample_grant default_site], p25_connections = 1\<rparr>"
  have ok: "p25_ok (p25_rows ?d)" by (simp add: p25_ok_def p25_key_def control_row_def voice_row_def)
  moreover have "total_grants (p25_rows ?d) = 2" by (simp add: total_grants_def control_row_def voice_row_def)
  ultimately show ?thesis
    using p25_rows_unique_and_counted [OF ok, of Committed 1 "Grant sample_grant default_site"] by simp
qed

text \<open>A grant whose algorithm is not known yet (255 and an empty name, the defaults of the message)
  erases the algorithm the row already had: \<open>COALESCE\<close> only keeps the old value for a null, and an
  encrypted grant never sends one.\<close>

theorem unknown_algorithm_overwrites_known:
  "\<exists>r. upsert_grant later (g\<lparr>encrypted := True, alg_id := 255, alg_name := []\<rparr>) st'
       (upsert_grant earlier (g\<lparr>encrypted := True, alg_id := 4, alg_name := ''AES-256''\<rparr>) st []) = [r] \<and>
     ch_alg_id r = Some 255 \<and> ch_alg_name r = Some []"
  by (simp add: upsert_grant_def insert_or_update_def voice_row_def coalesce_def Let_def)

end
