(* ===== verification/Grants.thy ===== *)
theory Grants
  imports Reports P25
begin

section \<open>Following P25 grants (the handler in \<open>main.cpp\<close>)\<close>

text \<open>
  The handler \<open>main\<close> gives to the grant consumer: it records the grant, makes a scanner with a
  configuration of its own and lets it run on the source of the voice captures until the capture time
  is over. That source is constructed once; a capture is a run of the sweep loop on it, whose rounds
  are what happens during the capture time. The worker of the consumer calls the handler for one
  grant after the other.
\<close>

definition voice_source :: "sweep_config \<Rightarrow> task_src" where
  "voice_source cfg = new_source cfg [] False"

definition voice_cfg :: "sweep_config \<Rightarrow> p25_grant \<Rightarrow> sweep_config" where
  "voice_cfg cfg g = cfg\<lparr>sweep := (sweep cfg)\<lparr>start_hz := f64 (gr_freq_hz g - 6250), stop_hz := f64 (gr_freq_hz g + 6250)\<rparr>,
     scanner_id := scanner_id cfg @ ''-tg'' @ show_nat (unat (talk_group g))\<rparr>"

type_synonym voice_round = "(open_env, nat \<times> int, recv_event list) round"

text \<open>One call: the row, then the capture. \<open>Inl\<close> is the exception of the scanner's constructor, which the worker
  logs; the capture of \<open>Inr\<close> is None where the loop is.\<close>

record grant_call =
  gc_grant :: p25_grant
  gc_tx :: tx_outcome
  gc_now_us :: int
  gc_rounds :: "voice_round list"

definition grant_handler :: "sweep_config \<Rightarrow> bool \<Rightarrow> 'j json_api \<Rightarrow> wire_api \<Rightarrow> (sample list \<Rightarrow> sample list) \<Rightarrow>
   grant_call \<Rightarrow> task_state \<Rightarrow> p25_db \<Rightarrow>
   p25_db \<times> (fft_error, (loop_end \<times> detection list \<times> scanner \<times> task_state) option) result" where
  "grant_handler cfg has_db api wa fft c st d =
     (if has_db then commit_call (gc_tx c) (gc_now_us c) (Grant (gc_grant c) default_site) d else d,
      bind_result (new_scanner (voice_cfg cfg (gc_grant c)))
        (\<lambda>sc. Inr (sweep_loop (task_open api) task_close (task_next wa) fft (gc_rounds c) sc st)))"

text \<open>The worker: the captures so far, and whether the last one is still waiting inside \<open>next\<close>.\<close>

fun handle_grants :: "sweep_config \<Rightarrow> bool \<Rightarrow> 'j json_api \<Rightarrow> wire_api \<Rightarrow> (sample list \<Rightarrow> sample list) \<Rightarrow>
   grant_call list \<Rightarrow> task_state \<Rightarrow> p25_db \<Rightarrow>
   (loop_end \<times> (p25_grant \<times> detection list) list \<times> task_state \<times> p25_db) option" where
  "handle_grants cfg has_db api wa fft [] st d = Some (Stopped, [], st, d)"
| "handle_grants cfg has_db api wa fft (c # cs) st d =
     (case grant_handler cfg has_db api wa fft c st d of
        (d, Inl _) \<Rightarrow> handle_grants cfg has_db api wa fft cs st d
      | (d, Inr None) \<Rightarrow> None
      | (d, Inr (Some (InNext, dets, sc, st))) \<Rightarrow> Some (InNext, [(gc_grant c, dets)], st, d)
      | (d, Inr (Some (Stopped, dets, sc, st))) \<Rightarrow>
          map_option (\<lambda>(e, caps, r). (e, (gc_grant c, dets) # caps, r)) (handle_grants cfg has_db api wa fft cs st d))"

subsection \<open>A capture is within the bounds of the scanner\<close>

text \<open>A frequency a receiver can be tuned to; the parser only checks that it is positive.\<close>

definition tunable :: "p25_grant \<Rightarrow> bool" where
  "tunable g \<longleftrightarrow> 0 < gr_freq_hz g \<and> gr_freq_hz g \<le> 2 ^ 43"

lemma voice_range:
  assumes "tunable g"
  shows "f64 (gr_freq_hz g - 6250) < f64 (gr_freq_hz g + 6250)"
proof -
  have b: "\<bar>x\<bar> \<le> 2 ^ 44 \<Longrightarrow> \<bar>f64 x - x\<bar> \<le> 1" for x
  proof -
    assume "\<bar>x\<bar> \<le> 2 ^ 44"
    then have "\<bar>x\<bar> / 2 ^ 53 \<le> 2 ^ 44 / 2 ^ 53" by (intro divide_right_mono) auto
    moreover have "(2::real) ^ 44 / 2 ^ 53 + 1 / 2 ^ 1000 \<le> 1" by simp
    ultimately show ?thesis using f64_error [of x] by linarith
  qed
  have "\<bar>gr_freq_hz g - 6250\<bar> \<le> 2 ^ 44" "\<bar>gr_freq_hz g + 6250\<bar> \<le> 2 ^ 44" using assms by (auto simp: tunable_def)
  from b [OF this(1)] b [OF this(2)] show ?thesis by linarith
qed

lemma voice_cfg_scannable: "scannable cfg \<Longrightarrow> tunable g \<Longrightarrow> scannable (voice_cfg cfg g)"
  using voice_range [of g] by (simp add: scannable_def valid_sweep_def voice_cfg_def)

lemma voice_cfg_fields [simp]:
  "scanner_id (voice_cfg cfg g) = scanner_id cfg @ ''-tg'' @ show_nat (unat (talk_group g))"
  "device (voice_cfg cfg g) = device cfg"
  by (simp_all add: voice_cfg_def)

lemma voice_source_ready:
  assumes "sweepable cfg" and "centers_nonneg wa"
  shows "task_inv wa cfg (open_fds w) (voice_source cfg, w, []) \<and> task_idle (voice_source cfg, w, [])"
  using assms new_source_resume [of cfg "[]" False]
  by (simp add: task_inv_def task_idle_def owns_def voice_source_def) (simp add: new_source_def)

lemma grant_handler_clean:
  assumes "scannable cfg" and "tunable (gc_grant c)" and "task_inv wa cfg others st" and "task_idle st"
    and "\<forall>r\<in>set (gc_rounds c). fresh_sockets others (rd_open r)"
  shows "\<exists>d' e dets sc st'. grant_handler cfg has_db api wa fft c st d = (d', Inr (Some (e, dets, sc, st'))) \<and>
     list_all (report_ok (voice_cfg cfg (gc_grant c))) dets \<and> task_inv wa cfg others st' \<and> (e = Stopped \<longrightarrow> task_idle st')"
proof -
  note ok = voice_cfg_scannable [OF assms(1,2)]
  then obtain sc0 where sc0: "new_scanner (voice_cfg cfg (gc_grant c)) = Inr sc0"
    using new_scanner_Inr by (auto simp: scannable_def)
  note sc = new_scanner_ok [OF sc0]
  have sc0_ok: "scannable (sc_cfg sc0)" "scanner_ok sc0" using sc ok by simp_all
  obtain e dets sc' st' where
    run: "sweep_loop (task_open api) task_close (task_next wa) fft (gc_rounds c) sc0 st = Some (e, dets, sc', st')"
    using task_source.sweep_loop_total [OF assms(3-5) sc0_ok, of api fft] by blast
  have "reporting sc0" using new_scanner_reporting [OF sc0] ok by (auto simp: scannable_def valid_sweep_def)
  then have "list_all (report_ok (voice_cfg cfg (gc_grant c))) dets"
    using sweep_loop_reports [OF run] sc by simp
  moreover have "task_inv wa cfg others st' \<and> (e = Stopped \<longrightarrow> task_idle st')"
    by (rule task_source.sweep_loop_inv [OF assms(3-5) run])
  moreover have "snd (grant_handler cfg has_db api wa fft c st d) = Inr (Some (e, dets, sc', st'))"
    unfolding grant_handler_def sc0 by (simp del: sweep_loop.simps add: run)
  ultimately show ?thesis by (metis prod.collapse)
qed

subsection \<open>Properties of the captures\<close>

text \<open>C17. Following grants never gets stuck and never leaks. For any sequence of grants at frequencies up to
  \<open>2 ^ 43\<close> Hz and whatever the broker, the sockets and the packets do, every capture is defined; what it
  reports is tagged with the talk group of its own grant; and whenever the worker is between two
  grants, no socket is open and no task is held.\<close>

theorem voice_captures_clean:
  assumes "scannable cfg" and "sweepable cfg" and "centers_nonneg wa"
    and "\<forall>c\<in>set cs. tunable (gc_grant c) \<and> (\<forall>r\<in>set (gc_rounds c). fresh_sockets (open_fds w) (rd_open r))"
  shows "\<exists>e caps s' w' q d'. handle_grants cfg has_db api wa fft cs (voice_source cfg, w, []) d = Some (e, caps, (s', w', q), d') \<and>
     list_all (\<lambda>(g, dets). list_all (\<lambda>x. det_scanner_id x = scanner_id cfg @ ''-tg'' @ show_nat (unat (talk_group g))) dets) caps \<and>
     (e = Stopped \<longrightarrow> open_fds w' = open_fds w \<and> udp_fd s' = None \<and> task_id s' = [] \<and> map fst caps = map gc_grant cs)"
proof -
  have run: "\<exists>e caps st' d'. handle_grants cfg has_db api wa fft cs st d = Some (e, caps, st', d') \<and>
     list_all (\<lambda>(g, dets). list_all (report_ok (voice_cfg cfg g)) dets) caps \<and>
     (e = Stopped \<longrightarrow> task_inv wa cfg others st' \<and> task_idle st' \<and> map fst caps = map gc_grant cs)"
    if "task_inv wa cfg others st" "task_idle st"
      "\<forall>c\<in>set cs. tunable (gc_grant c) \<and> (\<forall>r\<in>set (gc_rounds c). fresh_sockets others (rd_open r))" for others st
    using that
  proof (induction cs arbitrary: st d)
    case (Cons c cs)
    obtain d1 e dets sc st1 where c: "grant_handler cfg has_db api wa fft c st d = (d1, Inr (Some (e, dets, sc, st1)))"
      and ok: "list_all (report_ok (voice_cfg cfg (gc_grant c))) dets" "task_inv wa cfg others st1" "e = Stopped \<longrightarrow> task_idle st1"
      using grant_handler_clean [OF assms(1) _ Cons.prems(1,2)] Cons.prems(3) by (metis list.set_intros(1))
    show ?case
    proof (cases e)
      case Stopped
      obtain e2 caps st' d' where "handle_grants cfg has_db api wa fft cs st1 d1 = Some (e2, caps, st', d')"
        "list_all (\<lambda>(g, dets). list_all (report_ok (voice_cfg cfg g)) dets) caps"
        "e2 = Stopped \<longrightarrow> task_inv wa cfg others st' \<and> task_idle st' \<and> map fst caps = map gc_grant cs"
        using Cons.IH [OF ok(2), of d1] ok(3) Cons.prems(3) Stopped by auto
      then show ?thesis using c ok(1) Stopped by simp
    qed (use c ok(1) in simp)
  qed simp
  note ready = voice_source_ready [OF assms(2,3), of w]
  obtain e caps st' d' where h: "handle_grants cfg has_db api wa fft cs (voice_source cfg, w, []) d = Some (e, caps, st', d')"
    and tags: "list_all (\<lambda>(g, dets). list_all (report_ok (voice_cfg cfg g)) dets) caps"
    and left: "e = Stopped \<longrightarrow> task_inv wa cfg (open_fds w) st' \<and> task_idle st' \<and> map fst caps = map gc_grant cs"
    using run [OF conjunct1 [OF ready] conjunct2 [OF ready] assms(4)] by blast
  obtain s' w' q where st': "st' = (s', w', q)" by (cases st')
  have "list_all (\<lambda>(g, dets). list_all (\<lambda>x. det_scanner_id x = scanner_id cfg @ ''-tg'' @ show_nat (unat (talk_group g))) dets) caps"
    using tags by (auto simp: list_all_iff report_ok_def)
  then show ?thesis using h left by (auto simp: st' task_inv_def task_idle_def owns_def)
qed

theorem voice_captures_clean_witness:
  "\<exists>e caps s' w' q d'. handle_grants default_config False (tree_api sample_reply) toy_wire id
       [\<lparr>gc_grant = sample_grant, gc_tx = Committed, gc_now_us = 0,
         gc_rounds = [\<lparr>rd_open = sample_env, rd_close = (256, 1), rd_visits = [([RecvFailed], True, \<lambda>ch. 0)]\<rparr>]\<rparr>]
       (voice_source default_config, empty_world, []) \<lparr>p25_rows = [], p25_connections = 1\<rparr> = Some (e, caps, (s', w', q), d') \<and>
     (e \<noteq> Stopped \<or> open_fds w' = {})"
proof -
  let ?c = "\<lparr>gc_grant = sample_grant, gc_tx = Committed, gc_now_us = 0,
    gc_rounds = [\<lparr>rd_open = sample_env, rd_close = (256, 1), rd_visits = [([RecvFailed], True, \<lambda>ch. 0)]\<rparr>]\<rparr>"
  have "tunable sample_grant" by (simp add: tunable_def sample_grant_def)
  then show ?thesis
    using voice_captures_clean [OF default_scannable default_sweepable toy_centers, of "[?c]" empty_world False
        "tree_api sample_reply" id "\<lparr>p25_rows = [], p25_connections = 1\<rparr>"]
    by (fastforce simp: fresh_sockets_def fresh_fd_def empty_world_def)
qed

text \<open>A capture scans what the configuration scans: the source keeps the configured sweep, so the plan of the
  first capture is that of a full sweep, whatever the grant.\<close>

lemma voice_capture_ignores_grant:
  "src_cfg (voice_source cfg) = cfg"
  "scan_positions (src_cfg (voice_source cfg)) (resume_hz (voice_source cfg)) = scan_positions cfg (start_hz (sweep cfg))"
  by (simp_all add: voice_source_def new_source_def)

end
