(* ===== verification/Broker.thy ===== *)
theory Broker
  imports Config
begin

section \<open>Broker connections\<close>

text \<open>
  Five classes connect to the broker on their own: each fills in a \<open>connection_options\<close> in
  \<open>on_container_start\<close> and opens its links in \<open>on_connection_open\<close>. The options are the record below,
  with one field per call of the source; what the library does with them is outside. Durations are
  milliseconds, and a limit of zero attempts means no limit.
\<close>

record reconnect_options =
  rc_delay :: int
  rc_max_delay :: int
  rc_max_attempts :: int

record conn_options =
  allowed_mechs :: string
  allow_insecure :: bool
  conn_user :: "string option"
  conn_password :: "string option"
  reconnect :: "reconnect_options option"

definition no_options :: conn_options where
  "no_options = \<lparr>allowed_mechs = [], allow_insecure = False, conn_user = None, conn_password = None, reconnect = None\<rparr>"

definition retry_forever :: reconnect_options where
  "retry_forever = \<lparr>rc_delay = 2000, rc_max_delay = 30000, rc_max_attempts = 0\<rparr>"

definition client_options :: "string \<Rightarrow> string \<Rightarrow> conn_options" where
  "client_options user pass =
     (let opts = (if user \<noteq> []
        then no_options\<lparr>allowed_mechs := ''PLAIN'', allow_insecure := True, conn_user := Some user, conn_password := Some pass\<rparr>
        else no_options\<lparr>allowed_mechs := ''ANONYMOUS''\<rparr>)
      in opts\<lparr>reconnect := Some retry_forever\<rparr>)"

text \<open>The grant consumer sets the password whenever there is one, also without a user.\<close>

definition grant_options :: "string \<Rightarrow> string \<Rightarrow> conn_options" where
  "grant_options user pass =
     (let opts = (if user \<noteq> []
        then no_options\<lparr>allowed_mechs := ''PLAIN'', allow_insecure := True, conn_user := Some user\<rparr>
        else no_options\<lparr>allowed_mechs := ''ANONYMOUS''\<rparr>);
          opts = (if pass \<noteq> [] then opts\<lparr>conn_password := Some pass\<rparr> else opts)
      in opts\<lparr>reconnect := Some retry_forever\<rparr>)"

text \<open>The links: a sender with the capabilities of its target, a receiver on an address, or a receiver on an
  address the broker makes up.\<close>

datatype broker_link = Sender string "string list" | Receiver string | DynamicReceiver

definition task_links :: "string \<Rightarrow> broker_link list" where
  "task_links req_queue = [Sender req_queue [''queue''], DynamicReceiver]"

definition publisher_links :: "string \<Rightarrow> broker_link list" where
  "publisher_links topic = [Sender topic []]"

definition subscriber_links :: "string \<Rightarrow> broker_link list" where
  "subscriber_links topic = [Receiver topic]"

record connection =
  conn_url :: string
  conn_opts :: conn_options
  conn_links :: "broker_link list"

text \<open>The connections the application makes, from the constructor calls: the publisher, the position cache, one
  per IQ source, and the grant consumer when it is enabled.\<close>

definition connection_of :: "amqp_config \<Rightarrow> (string \<Rightarrow> string \<Rightarrow> conn_options) \<Rightarrow> broker_link list \<Rightarrow> connection" where
  "connection_of a options links =
     \<lparr>conn_url = url a, conn_opts = options (amqp_username a) (amqp_password a), conn_links = links\<rparr>"

definition source_connection :: "amqp_config \<Rightarrow> connection" where
  "source_connection a = connection_of a client_options (task_links (task_request_queue a))"

definition publisher_connection :: "amqp_config \<Rightarrow> connection" where
  "publisher_connection a = connection_of a client_options (publisher_links (detection_topic a))"

definition gps_connection :: "amqp_config \<Rightarrow> connection" where
  "gps_connection a = connection_of a client_options (subscriber_links ''gps.location'')"

definition grant_connection :: "amqp_config \<Rightarrow> p25_config \<Rightarrow> connection" where
  "grant_connection a p = connection_of a grant_options (subscriber_links (grant_topic p))"

text \<open>The alert consumer is given its address and account by its caller.\<close>

definition alert_connection :: "string \<Rightarrow> string \<Rightarrow> string \<Rightarrow> string \<Rightarrow> connection" where
  "alert_connection u user pass topic =
     \<lparr>conn_url = u, conn_opts = client_options user pass, conn_links = subscriber_links topic\<rparr>"

subsection \<open>What the clients agree on\<close>

lemmas options_defs = client_options_def grant_options_def no_options_def Let_def

text \<open>Every client retries for ever, an account is only used with \<open>PLAIN\<close>, and the two ways of filling in the
  options differ in nothing but a password that is empty, or that has no user.\<close>

lemma options_agree:
  "(user \<noteq> [] \<and> pass \<noteq> []) \<or> (user = [] \<and> pass = []) \<Longrightarrow> grant_options user pass = client_options user pass"
  by (auto simp: options_defs)

lemma options_safe:
  "reconnect (client_options user pass) = Some retry_forever"
  "reconnect (grant_options user pass) = Some retry_forever"
  "conn_user (client_options user pass) \<noteq> None \<longleftrightarrow> allowed_mechs (client_options user pass) = ''PLAIN''"
  "conn_user (grant_options user pass) \<noteq> None \<longleftrightarrow> allowed_mechs (grant_options user pass) = ''PLAIN''"
  "conn_password (client_options user pass) \<noteq> None \<Longrightarrow> allowed_mechs (client_options user pass) = ''PLAIN''"
  by (auto simp: options_defs)

text \<open>The exception: a password without a user is handed to an anonymous connection by the grant consumer.\<close>

lemma grant_password_anonymous:
  "pass \<noteq> [] \<Longrightarrow> allowed_mechs (grant_options [] pass) = ''ANONYMOUS'' \<and> conn_password (grant_options [] pass) = Some pass"
  by (simp add: options_defs)

text \<open>The response queue of the configuration is used by no connection.\<close>

lemma response_queue_unused: "source_connection (a\<lparr>task_response_queue := q\<rparr>) = source_connection a"
  by (simp add: source_connection_def connection_of_def)

end
