(* ===== verification/App.thy ===== *)
theory App
  imports Reports SignalDb Gps Grants Publisher Broker
begin

section \<open>The application (\<open>main.cpp\<close>)\<close>

text \<open>
  What \<open>main\<close> decides: the configuration file, whether to go on without a broker or a database, which
  scanners are launched on which slices of the spectrum, what happens to a detection, and the order
  in which everything is stopped. Constructing the objects is their own theory; their success is an
  input here. The handler of P25 grants is in theory \<open>Grants\<close>.
\<close>

subsection \<open>Start\<close>

datatype log_level = LogTrace | LogDebug | LogInfo | LogWarn | LogError

definition setup_logging :: "string option \<Rightarrow> log_level" where
  "setup_logging lvl = (let s = (case lvl of None \<Rightarrow> ''info'' | Some l \<Rightarrow> l)
     in if s = ''trace'' then LogTrace else if s = ''debug'' then LogDebug
        else if s = ''warn'' then LogWarn else if s = ''error'' then LogError else LogInfo)"

definition config_path :: "string list \<Rightarrow> string option \<Rightarrow> string" where
  "config_path argv env = (if 1 < length argv then argv ! 1
     else case env of Some e \<Rightarrow> e | None \<Rightarrow> ''/etc/sdr-acquisition/scanner.xml'')"

text \<open>What is available; the position cache is only made with a broker, and one that fails to
  start stays, empty. None is exit code 1.\<close>

record app =
  app_cfg :: sweep_config
  amqp_ok :: bool
  db_ok :: bool
  has_gps :: bool

definition start_app :: "(config_error, sweep_config) result \<Rightarrow> bool \<Rightarrow> bool \<Rightarrow> bool \<Rightarrow> app option" where
  "start_app loaded amqp_started db_connected gps_made = (case loaded of Inl _ \<Rightarrow> None
     | Inr cfg \<Rightarrow>
         if \<not> amqp_started \<and> \<not> db_connected then None
         else Some \<lparr>app_cfg = cfg, amqp_ok = amqp_started, db_ok = db_connected,
           has_gps = (amqp_started \<and> gps_made)\<rparr>)"

subsection \<open>A detection\<close>

definition stamp :: "gps_fix option \<Rightarrow> detection \<Rightarrow> detection" where
  "stamp fix d = (case fix of None \<Rightarrow> d
     | Some f \<Rightarrow> d\<lparr>lat := Some (fix_lat f), lon := Some (fix_lon f), alt_m := Some (fix_alt_m f)\<rparr>)"

definition on_detection :: "(real list \<Rightarrow> string) \<Rightarrow> app \<Rightarrow> gps_fix option \<Rightarrow> detection \<Rightarrow>
   detection list \<times> publisher \<Rightarrow> detection list \<times> publisher" where
  "on_detection b64 a cache d st = (case st of (q, p) \<Rightarrow>
     let stamped = (if has_gps a then stamp (gps_get cache) d else d)
     in (if db_ok a then push_detection stamped q else q, if amqp_ok a then publish b64 stamped p else p))"

subsection \<open>The scanners\<close>

definition single_band :: "sweep_config \<Rightarrow> band_config" where
  "single_band cfg = (let b = default_band\<lparr>band_start_hz := start_hz (sweep cfg), band_stop_hz := stop_hz (sweep cfg)\<rparr>
     in if required_device_id (device cfg) = [] then b
        else b\<lparr>device_id := required_device_id (device cfg), device_required := True\<rparr>)"

definition effective_bands :: "sweep_config \<Rightarrow> band_config list" where
  "effective_bands cfg = (if bands cfg = [] then [single_band cfg] else bands cfg)"

text \<open>The two nested loops, pushing the slices one by one.\<close>

definition push_slices :: "band_config \<Rightarrow> int \<Rightarrow> band_config list \<Rightarrow> band_config list" where
  "push_slices b pieces out = foldl (\<lambda>out j. out @ [band_slice b pieces j]) out [0..pieces - 1]"

definition auto_split :: "band_config list \<Rightarrow> int \<Rightarrow> band_config list" where
  "auto_split bs n_dev = (let nb = int (length bs); base = n_dev div nb; remainder = n_dev mod nb
     in foldl (\<lambda>out i. push_slices (bs ! nat i) (base + (if i < remainder then 1 else 0)) out) [] [0..nb - 1])"

definition planned_bands :: "sweep_config \<Rightarrow> int \<Rightarrow> band_config list" where
  "planned_bands cfg n_dev =
     (let eb = effective_bands cfg; all_required = eb \<noteq> [] \<and> list_all device_required eb
      in if \<not> all_required \<and> int (length eb) < n_dev then auto_split eb n_dev else eb)"

definition band_cfg :: "sweep_config \<Rightarrow> band_config \<Rightarrow> sweep_config" where
  "band_cfg cfg b = cfg\<lparr>sweep := (sweep cfg)\<lparr>start_hz := band_start_hz b, stop_hz := band_stop_hz b\<rparr>, bands := []\<rparr>"

text \<open>The configuration, the device and whether it is required, for each source and scanner.\<close>

definition launched :: "sweep_config \<Rightarrow> int \<Rightarrow> (sweep_config \<times> string \<times> bool) list" where
  "launched cfg n_dev =
     (if scan_device_ids cfg \<noteq> [] then map (\<lambda>dev. (cfg, dev, False)) (scan_device_ids cfg)
      else map (\<lambda>b. (band_cfg cfg b, device_id b, device_required b)) (planned_bands cfg n_dev))"

definition launch :: "sweep_config \<Rightarrow> int \<Rightarrow> (task_src \<times> (fft_error, scanner) result) list" where
  "launch cfg n_dev = map (\<lambda>(c, dev, required). (new_source c dev required, new_scanner c)) (launched cfg n_dev)"

subsection \<open>Stop\<close>

text \<open>The signal handler clears \<open>g_running\<close>, which is read every 200 ms: the number of sleeps for the values
  read, None as long as all of them are true.\<close>

fun sleeps_until_signal :: "bool list \<Rightarrow> nat option" where
  "sleeps_until_signal [] = None"
| "sleeps_until_signal (running # reads) = (if running then map_option Suc (sleeps_until_signal reads) else Some 0)"

text \<open>What calls \<open>on_detection\<close> and what \<open>on_detection\<close> uses. Stopping a scanner or the grant consumer joins
  its thread.\<close>

datatype producer = GrantConsumer | ScannerThread nat

datatype sink = GpsSink | AmqpSink | DbSink

record running_app =
  producers :: "producer list"
  sinks :: "sink list"

datatype shutdown_step = StopProducer producer | ResetSink sink

definition started_app :: "bool \<Rightarrow> nat \<Rightarrow> running_app" where
  "started_app grants n = \<lparr>producers = (if grants then [GrantConsumer] else []) @ map ScannerThread [0..<n],
     sinks = [GpsSink, AmqpSink, DbSink]\<rparr>"

definition shutdown_steps :: "bool \<Rightarrow> nat \<Rightarrow> shutdown_step list" where
  "shutdown_steps grants n = (if grants then [StopProducer GrantConsumer] else []) @
     map (\<lambda>i. StopProducer (ScannerThread i)) [0..<n] @ [ResetSink GpsSink, ResetSink AmqpSink, ResetSink DbSink]"

fun do_shutdown :: "shutdown_step \<Rightarrow> running_app \<Rightarrow> running_app" where
  "do_shutdown (StopProducer p) a = a\<lparr>producers := removeAll p (producers a)\<rparr>"
| "do_shutdown (ResetSink k) a = a\<lparr>sinks := removeAll k (sinks a)\<rparr>"

text \<open>A detection can be reported only while everything it is written to is there.\<close>

lemma shutdown_stops:
  "producers (fold do_shutdown (map StopProducer ps) a) = filter (\<lambda>p. p \<notin> set ps) (producers a)"
  "sinks (fold do_shutdown (map StopProducer ps) a) = sinks a"
  by (induction ps arbitrary: a) (auto simp: removeAll_filter_not_eq intro: filter_cong)

lemma shutdown_resets: "producers (fold do_shutdown (map ResetSink ks) a) = producers a"
  by (induction ks arbitrary: a) simp_all

lemma shutdown_eq:
  "shutdown_steps grants n =
     map StopProducer (producers (started_app grants n)) @ map ResetSink (sinks (started_app grants n))"
  by (simp add: shutdown_steps_def started_app_def)

lemma sinks_outlive_producers:
  assumes "a = fold do_shutdown (take k (shutdown_steps grants n)) (started_app grants n)"
  shows "producers a = [] \<or> sinks a = [GpsSink, AmqpSink, DbSink]"
proof -
  let ?a = "started_app grants n"
  let ?ps = "producers ?a"
  have t: "take k (shutdown_steps grants n) =
      map StopProducer (take k ?ps) @ map ResetSink (take (k - length ?ps) (sinks ?a))"
    by (simp add: shutdown_eq take_map)
  show ?thesis
  proof (cases "k \<le> length ?ps")
    case True
    then show ?thesis using assms unfolding t by (simp add: shutdown_stops) (simp add: started_app_def)
  next
    case False
    then show ?thesis using assms unfolding t by (simp add: shutdown_stops shutdown_resets filter_empty_conv)
  qed
qed

subsection \<open>The inline split is \<open>splitBands\<close>\<close>

lemma foldl_append_concat: "foldl (\<lambda>out i. out @ f i) out is = out @ concat (map f is)"
  by (induction "is" arbitrary: out) auto

lemma push_slices_append: "push_slices b pieces out = out @ band_slices b pieces"
  using foldl_append_concat [of "\<lambda>j. [band_slice b pieces j]" out "[0..pieces - 1]"]
  by (simp add: push_slices_def band_slices_def)

lemma split_loop_map:
  "split_loop base r 0 bs = map (\<lambda>i. band_slices (bs ! nat i) (base + (if i < r then 1 else 0))) [0..int (length bs) - 1]"
proof (rule nth_equalityI)
  fix k assume "k < length (split_loop base r 0 bs)"
  then have k: "k < length bs" by simp
  then have "[0..int (length bs) - 1] ! k = int k" by simp
  then show "split_loop base r 0 bs ! k =
      map (\<lambda>i. band_slices (bs ! nat i) (base + (if i < r then 1 else 0))) [0..int (length bs) - 1] ! k"
    using k by (simp add: nth_split_loop)
qed simp

lemma auto_split_eq:
  "auto_split bs n = concat (split_loop (n div int (length bs)) (n mod int (length bs)) 0 bs)"
  by (simp add: auto_split_def Let_def push_slices_append foldl_append_concat split_loop_map)

lemma effective_bands_nonempty [simp]: "effective_bands cfg \<noteq> []"
  by (simp add: effective_bands_def)

lemma planned_split:
  assumes "\<not> list_all device_required (effective_bands cfg)"
  shows "split_bands (effective_bands cfg) n = Some (planned_bands cfg n)"
  using assms by (auto simp: planned_bands_def split_bands_def auto_split_eq Let_def)

subsection \<open>Slices are proper ranges\<close>

definition slice_step :: "band_config \<Rightarrow> int \<Rightarrow> real" where
  "slice_step b pieces = f64 (f64 (band_stop_hz b - band_start_hz b) / of_int pieces)"

lemma slice_step_bounds:
  assumes b: "plannable b" and p: "0 < pieces" "pieces < 2 ^ 31" and w: "of_int pieces \<le> band_stop_hz b - band_start_hz b"
  shows "1 \<le> slice_step b pieces" and "of_int pieces * slice_step b pieces \<le> 2 ^ 44"
proof -
  define d q where "d = f64 (band_stop_hz b - band_start_hz b)" and "q = d / of_int pieces"
  have step: "slice_step b pieces = f64 q" by (simp add: slice_step_def d_def q_def)
  have pd: "real_of_int pieces \<le> d"
    unfolding d_def using w r64.fl_int [of pieces] p by (intro r64.fl_ge_fixed) simp_all
  have d: "d \<le> 2 ^ 43"
    unfolding d_def using b r64.fl_int [of "2 ^ 43"] by (intro r64.fl_le_fixed) (auto simp: plannable_def)
  have q: "1 \<le> q" "of_int pieces * q = d" using pd p by (simp_all add: q_def)
  then show "1 \<le> slice_step b pieces" unfolding step by (intro r64.fl_ge_fixed) simp_all
  have "\<bar>f64 q - q\<bar> \<le> q / 2 ^ 53 + 1 / 2 ^ 1000" using f64_error [of q] q(1) by simp
  then have "f64 q \<le> q + (q / 2 ^ 53 + 1 / 2 ^ 1000)" by linarith
  then have "of_int pieces * f64 q \<le> of_int pieces * (q + (q / 2 ^ 53 + 1 / 2 ^ 1000))"
    using p by (intro mult_left_mono) auto
  also have "\<dots> = of_int pieces * q + (of_int pieces * q / 2 ^ 53 + of_int pieces / 2 ^ 1000)"
    by (simp add: distrib_left)
  also have "\<dots> \<le> 2 ^ 43 + (2 ^ 43 / 2 ^ 53 + 2 ^ 31 / 2 ^ 1000)"
    unfolding q(2) using d p by (intro add_mono divide_right_mono) auto
  also have "\<dots> \<le> 2 ^ 44" by simp
  finally show "of_int pieces * slice_step b pieces \<le> 2 ^ 44" unfolding step .
qed

lemma f64_error_coarse:
  assumes "0 \<le> x" and "x \<le> 2 ^ 45"
  shows "\<bar>f64 x - x\<bar> \<le> 1 / 64"
proof -
  have "x / 2 ^ 53 \<le> 2 ^ 45 / 2 ^ 53" using assms by (intro divide_right_mono) auto
  moreover have "(2::real) ^ 45 / 2 ^ 53 + 1 / 2 ^ 1000 \<le> 1 / 64" by simp
  ultimately show ?thesis using f64_error [of x] assms(1) by linarith
qed

lemma slice_proper:
  assumes b: "plannable b" and p: "0 < pieces" "pieces < 2 ^ 31" and w: "of_int pieces \<le> band_stop_hz b - band_start_hz b"
    and j: "0 \<le> j" "j < pieces"
  shows "0 \<le> band_start_hz (band_slice b pieces j) \<and>
    band_start_hz (band_slice b pieces j) < band_stop_hz (band_slice b pieces j) \<and>
    band_stop_hz (band_slice b pieces j) \<le> 2 ^ 51"
proof -
  define lo step where "lo = band_start_hz b" and "step = slice_step b pieces"
  define u v where "u = of_int j * step" and "v = of_int (j + 1) * step"
  note st = slice_step_bounds [OF b p w, folded step_def]
  have lo: "0 \<le> lo" "lo \<le> 2 ^ 43" using b by (auto simp: plannable_def lo_def)
  have u: "0 \<le> u" using j st by (simp add: u_def)
  have uv: "u + 1 \<le> v" using st by (simp add: u_def v_def distrib_right)
  have "v \<le> of_int pieces * step" unfolding v_def using j st by (intro mult_right_mono) auto
  then have v: "v \<le> 2 ^ 44" using st by linarith
  have "0 \<le> v" "u \<le> 2 ^ 45" "v \<le> 2 ^ 45" using u uv v by simp_all
  note e = f64_error_coarse [OF u \<open>u \<le> 2 ^ 45\<close>] f64_error_coarse [OF \<open>0 \<le> v\<close> \<open>v \<le> 2 ^ 45\<close>]
  have pos: "0 \<le> f64 u" "0 \<le> f64 v" using u \<open>0 \<le> v\<close> by (simp_all add: r64.fl_nonneg)
  have "f64 u \<le> 2 ^ 44 + 1" "f64 v \<le> 2 ^ 44 + 1" using e uv v by linarith+
  then have r: "0 \<le> lo + f64 u" "lo + f64 u \<le> 2 ^ 45" "0 \<le> lo + f64 v" "lo + f64 v \<le> 2 ^ 45"
    using lo pos by simp_all
  note e2 = f64_error_coarse [OF r(1,2)] f64_error_coarse [OF r(3,4)]
  have "f64 (lo + f64 u) < f64 (lo + f64 v)" using e e2 uv by linarith
  moreover have "f64 (lo + f64 v) \<le> 2 ^ 45 + 1" using e2 r by linarith
  then have "f64 (lo + f64 v) \<le> 2 ^ 51" by simp
  moreover have "0 \<le> f64 (lo + f64 u)" using r by (simp add: r64.fl_nonneg)
  moreover have "band_start_hz (band_slice b pieces j) = f64 (lo + f64 u)"
    "band_stop_hz (band_slice b pieces j) = f64 (lo + f64 v)"
    by (simp_all add: band_slice_def Let_def lo_def slice_step_def step_def u_def v_def)
  ultimately show ?thesis by simp
qed

definition proper_range :: "band_config \<Rightarrow> bool" where
  "proper_range b \<longleftrightarrow> 0 \<le> band_start_hz b \<and> band_start_hz b < band_stop_hz b \<and> band_stop_hz b \<le> 2 ^ 51"

text \<open>A band wide enough for a hertz per device.\<close>

definition wide_band :: "int \<Rightarrow> band_config \<Rightarrow> bool" where
  "wide_band n b \<longleftrightarrow> plannable b \<and> 1 \<le> band_stop_hz b - band_start_hz b \<and> of_int n \<le> band_stop_hz b - band_start_hz b"

lemma wide_band_proper: "wide_band n b \<Longrightarrow> proper_range b"
proof -
  assume w: "wide_band n b"
  then have "band_stop_hz b \<le> 2 ^ 43" by (simp add: wide_band_def plannable_def)
  then have "band_stop_hz b \<le> 2 ^ 51" by simp
  then show ?thesis using w by (simp add: wide_band_def plannable_def proper_range_def)
qed

lemma pieces_range:
  assumes "0 < nb" and "nb < (n :: int)" and "0 \<le> i"
  shows "1 \<le> n div nb + (if i < n mod nb then 1 else 0) \<and> n div nb + (if i < n mod nb then 1 else 0) \<le> n"
proof (cases "nb = 1")
  case False
  have "1 \<le> n div nb" using zdiv_mono1 [of nb n nb] assms by simp
  moreover have "n div nb \<le> n div 2" using assms False by (intro zdiv_mono2) auto
  ultimately show ?thesis using assms by auto
qed (use assms in auto)

lemma planned_proper:
  assumes "n_dev < 2 ^ 31" and "\<forall>b\<in>set (effective_bands cfg). wide_band n_dev b" and "s \<in> set (planned_bands cfg n_dev)"
  shows "proper_range s"
proof (cases "\<not> list_all device_required (effective_bands cfg) \<and> int (length (effective_bands cfg)) < n_dev")
  case False
  then show ?thesis using assms wide_band_proper by (auto simp: planned_bands_def Let_def split: if_splits)
next
  case True
  let ?eb = "effective_bands cfg" and ?nb = "int (length (effective_bands cfg))"
  have nb: "0 < ?nb" by simp
  have "s \<in> set (auto_split ?eb n_dev)" using assms(3) True by (simp add: planned_bands_def Let_def)
  then obtain l where l: "l \<in> set (split_loop (n_dev div ?nb) (n_dev mod ?nb) 0 ?eb)" "s \<in> set l"
    by (auto simp: auto_split_eq)
  obtain k where k: "k < length ?eb" and "l = split_loop (n_dev div ?nb) (n_dev mod ?nb) 0 ?eb ! k"
    using l(1) by (auto simp: in_set_conv_nth)
  then have s: "s \<in> set (split_loop (n_dev div ?nb) (n_dev mod ?nb) 0 ?eb ! k)" using l(2) by simp
  let ?p = "n_dev div ?nb + (if int k < n_dev mod ?nb then 1 else 0)"
  have p: "1 \<le> ?p \<and> ?p \<le> n_dev" using pieces_range [OF nb, of n_dev "int k"] True by simp
  obtain j where j: "0 \<le> j" "j < ?p" "s = band_slice (?eb ! k) ?p j"
    using s k by (auto simp: nth_split_loop band_slices_def)
  have b: "wide_band n_dev (?eb ! k)" using assms(2) k by simp
  then have "of_int ?p \<le> band_stop_hz (?eb ! k) - band_start_hz (?eb ! k)"
    using p by (smt (verit) of_int_le_iff wide_band_def)
  then show ?thesis
    using slice_proper [of "?eb ! k" ?p j] b p assms(1) j by (simp add: wide_band_def proper_range_def)
qed

lemma band_cfg_ok:
  assumes "scannable cfg" and "sweepable cfg" and "proper_range b"
  shows "scannable (band_cfg cfg b) \<and> sweepable (band_cfg cfg b)"
proof -
  have "step_hz (band_cfg cfg b) = step_hz cfg" "dwell_ms (band_cfg cfg b) = dwell_ms cfg"
    by (simp_all add: band_cfg_def step_hz_def dwell_ms_def Let_def)
  then show ?thesis using assms
    by (simp add: scannable_def sweepable_def valid_sweep_def proper_range_def) (simp add: band_cfg_def)
qed

lemma launched_fields:
  "(c, dev, required) \<in> set (launched cfg n_dev) \<Longrightarrow>
     scanner_id c = scanner_id cfg \<and> device c = device cfg \<and> fft_size (sweep c) = fft_size (sweep cfg)"
  by (auto simp: launched_def band_cfg_def split: if_splits)

subsection \<open>Properties of the application\<close>

text \<open>C37. The split written out in \<open>main\<close> is \<open>SweepConfig::splitBands\<close> applied to the effective bands, except that
  nothing is split when every band requires its device.\<close>

theorem main_split_is_split_bands:
  "if list_all device_required (effective_bands cfg) then planned_bands cfg n_dev = effective_bands cfg
   else split_bands (effective_bands cfg) n_dev = Some (planned_bands cfg n_dev)"
  using planned_split [of cfg n_dev] by (auto simp: planned_bands_def Let_def)

text \<open>C21. With more devices than bands, one scanner is launched per device, and the scanners' ranges, taken band by
  band, tile the bands without gap or overlap; each asks for its band's device.\<close>

theorem every_device_gets_a_slice:
  assumes "scan_device_ids cfg = []" and "\<not> list_all device_required (effective_bands cfg)"
    and "int (length (effective_bands cfg)) < n_dev" and "n_dev + 1 < 2 ^ 31"
    and "\<forall>b\<in>set (effective_bands cfg). plannable b"
  shows "\<exists>groups. launched cfg n_dev = map (\<lambda>b. (band_cfg cfg b, device_id b, device_required b)) (concat groups) \<and>
    int (length (launched cfg n_dev)) = n_dev \<and> length groups = length (effective_bands cfg) \<and>
    (\<forall>k < length groups. tiles (effective_bands cfg ! k) (groups ! k))"
proof -
  let ?eb = "effective_bands cfg"
  obtain groups where g: "split_bands ?eb n_dev = Some (concat groups)" "length groups = length ?eb"
    "\<forall>k < length ?eb. tiles (?eb ! k) (groups ! k)"
    using split_bands_groups [OF effective_bands_nonempty assms(3-5)] by blast
  then have planned: "planned_bands cfg n_dev = concat groups" using planned_split [OF assms(2), of n_dev] by simp
  have "int (length (concat groups)) = n_dev"
    using split_bands_length_eq [OF effective_bands_nonempty assms(3)] g(1) by auto
  then show ?thesis using assms(1) planned g by (intro exI [of _ groups]) (simp add: launched_def)
qed

theorem every_device_gets_a_slice_witness:
  "\<exists>groups. launched default_config 3 = map (\<lambda>b. (band_cfg default_config b, device_id b, device_required b)) (concat groups) \<and>
     int (length (launched default_config 3)) = 3 \<and> length groups = 1 \<and> tiles (single_band default_config) (groups ! 0)"
proof -
  have eb: "effective_bands default_config = [single_band default_config]"
    by (simp add: effective_bands_def default_config_def)
  have b: "plannable (single_band default_config)" "\<not> device_required (single_band default_config)"
    by (simp_all add: single_band_def default_config_def default_sweep_def default_device_def default_band_def
        plannable_def float_simps Let_def)
  have "scan_device_ids default_config = []" by (simp add: default_config_def)
  then show ?thesis using every_device_gets_a_slice [of default_config 3] eb b by auto
qed

text \<open>C18. Every scanner that is launched can run: for a base configuration within the bounds of the scanner and the
  source, and bands at least as wide in hertz as there are devices, each launched configuration is
  within those bounds too, its scanner is constructed and its first scan request is built.\<close>

theorem launched_scanners_run:
  assumes "scannable cfg" and "sweepable cfg" and "n_dev < 2 ^ 31"
    and "\<forall>b\<in>set (effective_bands cfg). wide_band n_dev b" and "(c, dev, required) \<in> set (launched cfg n_dev)"
  shows "scannable c \<and> sweepable c \<and> (\<exists>sc. new_scanner c = Inr sc) \<and>
    (\<exists>doc. build_scan_request (new_source c dev required) now_ms req_id = Some doc)"
proof -
  have ok: "scannable c \<and> sweepable c"
    using assms(5) band_cfg_ok [OF assms(1,2) planned_proper [OF assms(3,4)]] assms(1,2)
    by (auto simp: launched_def split: if_splits)
  moreover have "\<exists>sc. new_scanner c = Inr sc" using new_scanner_Inr ok by (simp add: scannable_def)
  moreover have "src_cfg (new_source c dev required) = c" by (simp add: new_source_def)
  then have "\<exists>doc. build_scan_request (new_source c dev required) now_ms req_id = Some doc"
    using build_total [of "new_source c dev required"] new_source_resume [of c dev required] ok by simp
  ultimately show ?thesis by blast
qed

theorem launched_scanners_run_witness:
  "\<exists>c dev required sc doc. launched default_config 1 = [(c, dev, required)] \<and> scannable c \<and> new_scanner c = Inr sc \<and>
     build_scan_request (new_source c dev required) 0 ''acq-1'' = Some doc"
proof -
  have eb: "effective_bands default_config = [single_band default_config]"
    by (simp add: effective_bands_def default_config_def)
  have w: "wide_band 1 (single_band default_config)"
    by (simp add: single_band_def default_config_def default_sweep_def default_device_def default_band_def
        wide_band_def plannable_def float_simps Let_def)
  have l: "launched default_config 1 = [(band_cfg default_config (single_band default_config),
      device_id (single_band default_config), device_required (single_band default_config))]"
    using eb by (simp add: launched_def planned_bands_def Let_def default_config_def)
  show ?thesis
    using launched_scanners_run [OF default_scannable default_sweepable, of 1 _ _ _ 0 "''acq-1''"] eb w l by fastforce
qed

subsection \<open>What does not happen\<close>

text \<open>Named devices win over bands: with \<open>scan_device_ids\<close> set, every named device sweeps the same configured
  range, whatever the bands are and however many devices there are.\<close>

lemma named_devices_win:
  "map (\<lambda>(c, dev, required). (sweep c, dev, required)) (launched (cfg\<lparr>scan_device_ids := dev # devs, bands := bs\<rparr>) n_dev) =
     map (\<lambda>dev. (sweep cfg, dev, False)) (dev # devs)"
  by (simp add: launched_def)

text \<open>The position reaches the database and not the broker: the message of a stamped detection is that of the
  detection without a position.\<close>

lemma position_not_published:
  "detection_doc b64 (stamp (Some f) d) = detection_doc b64 d \<and> sig_lat (new_row i (stamp (Some f) d)) = Some (fix_lat f) \<and>
     sig_lon (new_row i (stamp (Some f) d)) = Some (fix_lon f)"
  by (simp add: detection_doc_def stamp_def new_row_def split: option.split)

end
