(* ===== verification/ScanThread.thy ===== *)
theory ScanThread
  imports Machine
begin

section \<open>The sweep thread and \<open>stop\<close> (\<open>SpectrumScanner.cpp\<close>)\<close>

text \<open>
  Theory \<open>SweepLoop\<close> says what the loop computes; this one how it ends. Two atomic flags are shared:
  the scanner's \<open>running_\<close>, read by the loop, and the source's \<open>running_\<close>, set by \<open>open\<close>, cleared by
  \<open>stop\<close> and \<open>close\<close> and read by \<open>next\<close>. A move of the thread goes from one access of a flag (or one
  return of \<open>open\<close> or \<open>recvfrom\<close>) to the next, so every interleaving of the thread with \<open>stop\<close> on the
  main thread is a sequence of moves. What \<open>open\<close> and a receive come back with is part of the move.
\<close>

datatype thread_pc = NoThread | LoopHead | InOpen | FailedOpen | Retrying nat | DwellHead | NextHead
  | Receiving | GotDwell | Callbacks | Closing | Closed | Pausing | LeftLoop

datatype stop_phase = NotStopping | FlagCleared | WaitsJoin | Joined

record scan_thread =
  running :: bool
  src_flag :: bool
  held :: bool
  tpc :: thread_pc
  phase :: stop_phase
  processed :: nat

datatype scan_action = Run | OpenReturns | OpenThrows | RecvNothing | RecvEnds | RecvDwell | PauseOver
  | StartThread | StopFlag | StopSource | StopJoin

definition idle_thread :: scan_thread where
  "idle_thread = \<lparr>running = False, src_flag = False, held = False, tpc = NoThread, phase = NotStopping, processed = 0\<rparr>"

text \<open>\<open>sweepLoop\<close>, the loop of \<open>next\<close> included; \<open>held\<close> is that \<open>open\<close> was called and \<open>close\<close> was not yet,
  \<open>processed\<close> counts the dwells whose detections were reported.\<close>

definition thread_move :: "bool \<Rightarrow> scan_action \<Rightarrow> scan_thread \<Rightarrow> scan_thread option" where
  "thread_move pause a s = (case tpc s of
       LoopHead \<Rightarrow> if a = Run then Some (if running s then s\<lparr>tpc := InOpen, held := True\<rparr> else s\<lparr>tpc := LeftLoop\<rparr>) else None
     | InOpen \<Rightarrow> if a = OpenReturns then Some (s\<lparr>src_flag := True, tpc := DwellHead\<rparr>)
         else if a = OpenThrows then Some (s\<lparr>tpc := FailedOpen\<rparr>) else None
     | FailedOpen \<Rightarrow> if a = Run then Some (s\<lparr>src_flag := False, held := False, tpc := Retrying 0\<rparr>) else None
     | Retrying i \<Rightarrow> if a = Run then Some (s\<lparr>tpc := (if i < 50 \<and> running s then Retrying (i + 1) else LoopHead)\<rparr>) else None
     | DwellHead \<Rightarrow> if a = Run then Some (s\<lparr>tpc := (if running s then NextHead else Closing)\<rparr>) else None
     | NextHead \<Rightarrow> if a = Run then Some (s\<lparr>tpc := (if src_flag s then Receiving else Closing)\<rparr>) else None
     | Receiving \<Rightarrow> if a = RecvNothing then Some (s\<lparr>tpc := NextHead\<rparr>)
         else if a = RecvEnds then Some (s\<lparr>tpc := Closing\<rparr>)
         else if a = RecvDwell then Some (s\<lparr>tpc := GotDwell\<rparr>) else None
     | GotDwell \<Rightarrow> if a = Run then Some (if running s then s\<lparr>tpc := Callbacks, processed := processed s + 1\<rparr>
         else s\<lparr>tpc := Closing\<rparr>) else None
     | Callbacks \<Rightarrow> if a = Run then Some (s\<lparr>tpc := DwellHead\<rparr>) else None
     | Closing \<Rightarrow> if a = Run then Some (s\<lparr>src_flag := False, held := False, tpc := Closed\<rparr>) else None
     | Closed \<Rightarrow> if a = Run then Some (s\<lparr>tpc := (if running s \<and> pause then Pausing else LoopHead)\<rparr>) else None
     | Pausing \<Rightarrow> if a = Run then Some (s\<lparr>tpc := (if running s then Pausing else LoopHead)\<rparr>)
         else if a = PauseOver then Some (s\<lparr>tpc := LoopHead\<rparr>) else None
     | _ \<Rightarrow> None)"

text \<open>\<open>start\<close>, and \<open>stop\<close> in its three steps; without a thread there is nothing to join.\<close>

definition main_move :: "scan_action \<Rightarrow> scan_thread \<Rightarrow> scan_thread option" where
  "main_move a s = (case a of
       StartThread \<Rightarrow> if tpc s = NoThread \<and> phase s \<in> {NotStopping, Joined}
         then Some (s\<lparr>running := True, tpc := LoopHead, phase := NotStopping\<rparr>) else None
     | StopFlag \<Rightarrow> if phase s \<in> {NotStopping, Joined} then Some (s\<lparr>running := False, phase := FlagCleared\<rparr>) else None
     | StopSource \<Rightarrow> if phase s = FlagCleared then Some (s\<lparr>src_flag := False, phase := WaitsJoin\<rparr>) else None
     | StopJoin \<Rightarrow> if phase s = WaitsJoin \<and> tpc s \<in> {NoThread, LeftLoop} then Some (s\<lparr>tpc := NoThread, phase := Joined\<rparr>) else None
     | _ \<Rightarrow> None)"

definition of_main :: "scan_action \<Rightarrow> bool" where
  "of_main a \<longleftrightarrow> a \<in> {StartThread, StopFlag, StopSource, StopJoin}"

definition scan_move :: "bool \<Rightarrow> scan_action \<Rightarrow> scan_thread \<Rightarrow> scan_thread option" where
  "scan_move pause a s = (if of_main a then main_move a s else thread_move pause a s)"

fun scan_run :: "bool \<Rightarrow> scan_action list \<Rightarrow> scan_thread \<Rightarrow> scan_thread option" where
  "scan_run pause [] s = Some s"
| "scan_run pause (a # as) s = Option.bind (scan_move pause a s) (scan_run pause as)"

interpretation scanning: machine "scan_move pause" "scan_run pause" for pause
  by unfold_locales simp_all

inductive scan_reach :: "bool \<Rightarrow> scan_thread \<Rightarrow> bool" for pause where
  scan_start: "scan_reach pause idle_thread"
| scan_step: "scan_reach pause s \<Longrightarrow> scan_move pause a s = Some s' \<Longrightarrow> scan_reach pause s'"

lemma scan_reach_run: "scan_reach pause s \<Longrightarrow> scan_run pause as s = Some s' \<Longrightarrow> scan_reach pause s'"
  by (rule scanning.run_keeps) (auto intro: scan_reach.scan_step)

subsection \<open>The flags\<close>

definition opened_pcs :: "thread_pc set" where
  "opened_pcs = {InOpen, FailedOpen, DwellHead, NextHead, Receiving, GotDwell, Callbacks, Closing}"

definition flags_ok :: "scan_thread \<Rightarrow> bool" where
  "flags_ok s \<longleftrightarrow> (held s \<longleftrightarrow> tpc s \<in> opened_pcs) \<and> (src_flag s \<longrightarrow> held s) \<and>
     (running s \<longrightarrow> phase s = NotStopping) \<and> (phase s = NotStopping \<and> tpc s \<noteq> NoThread \<longrightarrow> running s) \<and>
     (phase s = WaitsJoin \<and> tpc s \<in> {NextHead, Receiving} \<longrightarrow> \<not> src_flag s) \<and>
     (phase s = Joined \<longrightarrow> tpc s = NoThread) \<and> (tpc s = LeftLoop \<longrightarrow> \<not> running s)"

lemma thread_keeps_flags: "flags_ok s \<Longrightarrow> pred_option flags_ok (thread_move pause a s)"
  by (cases "tpc s") (simp_all add: thread_move_def flags_ok_def opened_pcs_def, blast+)

lemma main_keeps_flags: "flags_ok s \<Longrightarrow> pred_option flags_ok (main_move a s)"
  by (cases a; cases "phase s"; cases "tpc s") (simp_all add: main_move_def flags_ok_def opened_pcs_def, blast+)

lemma thread_move_ok: "thread_move pause a s = Some s' \<Longrightarrow> flags_ok s \<Longrightarrow> flags_ok s'"
  using thread_keeps_flags [of s pause a] by simp

lemma main_move_ok: "main_move a s = Some s' \<Longrightarrow> flags_ok s \<Longrightarrow> flags_ok s'"
  using main_keeps_flags [of s a] by simp

lemma reach_flags_ok: "scan_reach pause s \<Longrightarrow> flags_ok s"
proof (induction rule: scan_reach.induct)
  case scan_start
  show ?case by (simp add: flags_ok_def idle_thread_def opened_pcs_def)
next
  case (scan_step s a s')
  then show ?case using thread_move_ok main_move_ok by (auto simp: scan_move_def split: if_splits)
qed


subsection \<open>How long \<open>stop\<close> waits\<close>

text \<open>The thread's own moves that are left once \<open>stop\<close> has cleared both flags.\<close>

fun moves_left :: "thread_pc \<Rightarrow> nat" where
  "moves_left pc = (case pc of LeftLoop \<Rightarrow> 0 | NoThread \<Rightarrow> 0 | LoopHead \<Rightarrow> 1 | Closed \<Rightarrow> 2 | Pausing \<Rightarrow> 2 | Retrying _ \<Rightarrow> 2
     | FailedOpen \<Rightarrow> 3 | Closing \<Rightarrow> 3 | DwellHead \<Rightarrow> 4 | GotDwell \<Rightarrow> 4 | NextHead \<Rightarrow> 4
     | InOpen \<Rightarrow> 5 | Receiving \<Rightarrow> 5 | Callbacks \<Rightarrow> 5)"

lemma joining_move:
  assumes "thread_move pause a s = Some s'" and "flags_ok s" and "phase s = WaitsJoin"
  shows "moves_left (tpc s') < moves_left (tpc s) \<and> phase s' = WaitsJoin"
  using assms by (cases "tpc s") (auto simp: thread_move_def flags_ok_def split: if_splits)

lemma thread_can_move: "tpc s \<notin> {NoThread, LeftLoop} \<Longrightarrow> \<exists>a s'. \<not> of_main a \<and> thread_move pause a s = Some s'"
proof -
  assume "tpc s \<notin> {NoThread, LeftLoop}"
  then have "\<exists>s'. thread_move pause (if tpc s = InOpen then OpenReturns else if tpc s = Receiving then RecvEnds else Run) s = Some s'"
    by (cases "tpc s") (simp_all add: thread_move_def)
  then show ?thesis by (fastforce simp: of_main_def split: if_splits)
qed

lemma joining_runs:
  assumes "scan_run pause as s = Some s'" and "flags_ok s" and "phase s = WaitsJoin" and "list_all (\<lambda>a. \<not> of_main a) as"
  shows "flags_ok s' \<and> phase s' = WaitsJoin \<and> length as + moves_left (tpc s') \<le> moves_left (tpc s)"
proof -
  have "(flags_ok s' \<and> phase s' = WaitsJoin) \<and> length as + moves_left (tpc s') \<le> moves_left (tpc s)"
  proof (rule scanning.run_bounded [OF assms(1)])
    fix a t t' assume *: "a \<in> set as" "flags_ok t \<and> phase t = WaitsJoin" "scan_move pause a t = Some t'"
    then have move: "thread_move pause a t = Some t'" using assms(4) by (auto simp: scan_move_def list_all_iff)
    show "(flags_ok t' \<and> phase t' = WaitsJoin) \<and> moves_left (tpc t') < moves_left (tpc t)"
      using thread_move_ok [OF move] joining_move [OF move] *(2) by blast
  qed (use assms(2,3) in simp)
  then show ?thesis by simp
qed

lemma stopping_processes_nothing:
  assumes "scan_run pause as s = Some s'" and "\<not> running s" and "StartThread \<notin> set as"
  shows "processed s' = processed s \<and> \<not> running s'"
proof (rule scanning.run_keeps [OF assms(1)])
  fix a t t' assume *: "a \<in> set as" "processed t = processed s \<and> \<not> running t" "scan_move pause a t = Some t'"
  then have "a \<noteq> StartThread" using assms(3) by auto
  then show "processed t' = processed s \<and> \<not> running t'"
    using *(2,3) by (cases "tpc t"; cases a) (auto simp: scan_move_def main_move_def thread_move_def split: if_splits)
qed (use assms(2) in simp)

text \<open>Stopping a scanner comes back and leaves nothing running. Whatever the thread was doing when \<open>stop\<close> had
  cleared the two flags and began to wait: it makes at most five more moves of its own (one \<open>open\<close>, one
  receive or one round of callbacks among them), none of which reports a dwell; it always has a next move
  until it has left the loop; and then the source is closed and \<open>stop\<close> returns. An \<open>open\<close> that sets the
  source's flag again after \<open>stop\<close> cleared it does no harm, because the scanner's flag fell first.\<close>

theorem scanner_stop_returns:
  assumes "scan_reach pause s" and "phase s = WaitsJoin" and "scan_run pause as s = Some s'"
    and "list_all (\<lambda>a. \<not> of_main a) as"
  shows "length as \<le> 5 \<and> processed s' = processed s \<and>
     (if tpc s' \<in> {NoThread, LeftLoop} then \<not> held s' \<and> \<not> src_flag s' \<and> scan_move pause StopJoin s' \<noteq> None
      else \<exists>a s''. \<not> of_main a \<and> scan_move pause a s' = Some s'')"
proof -
  note ok = reach_flags_ok [OF assms(1)]
  note run = joining_runs [OF assms(3) ok assms(2,4)]
  have "moves_left (tpc s) \<le> 5" by (cases "tpc s") simp_all
  moreover have "processed s' = processed s"
    using stopping_processes_nothing [OF assms(3)] ok assms(2,4) by (auto simp: flags_ok_def list_all_iff of_main_def)
  ultimately show ?thesis
    using run thread_can_move [of s' pause]
    by (auto simp: flags_ok_def opened_pcs_def scan_move_def main_move_def of_main_def)
qed

theorem scanner_stop_returns_witness:
  "\<exists>s s'. scan_run True [StartThread, Run, OpenReturns, Run, Run, StopFlag, StopSource] idle_thread = Some s \<and>
     tpc s = Receiving \<and> scan_run True [RecvNothing, Run, Run, Run, Run] s = Some s' \<and> tpc s' = LeftLoop \<and>
     \<not> held s' \<and> \<not> src_flag s' \<and> scan_move True StopJoin s' \<noteq> None"
proof -
  note eval = scan_move_def main_move_def thread_move_def of_main_def
  obtain s s' where run: "scan_run True [StartThread, Run, OpenReturns, Run, Run, StopFlag, StopSource] idle_thread = Some s"
    and s: "tpc s = Receiving" "phase s = WaitsJoin"
    and run2: "scan_run True [RecvNothing, Run, Run, Run, Run] s = Some s'" and s': "tpc s' = LeftLoop"
    by (simp add: eval idle_thread_def)
  have "scan_reach True s" by (rule scan_reach_run [OF scan_reach.scan_start run])
  then show ?thesis using scanner_stop_returns [OF _ s(2) run2] run run2 s s' by (simp add: of_main_def)
qed

text \<open>A scanner that was stopped can be started again; one that never ran can be stopped.\<close>

lemma stopped_scanner_restarts:
  assumes "scan_reach pause s" and "phase s = Joined"
  shows "\<exists>s'. scan_move pause StartThread s = Some s' \<and> running s' \<and> \<not> held s'"
  using reach_flags_ok [OF assms(1)] assms(2)
  by (simp add: scan_move_def main_move_def of_main_def flags_ok_def opened_pcs_def)

lemma stop_without_start: "\<exists>s. scan_run pause [StopFlag, StopSource, StopJoin] idle_thread = Some s \<and> phase s = Joined"
  by (simp add: scan_move_def main_move_def of_main_def idle_thread_def)

end
