(* ===== verification/Shutdown.thy ===== *)
theory Shutdown
  imports App ScanThread
begin

section \<open>Shutting down with the threads running (\<open>main.cpp\<close>)\<close>

text \<open>
  \<open>App\<close> has the order of the shutdown; here the order meets the threads that it stops. The state is the
  control of every sweep thread (\<open>ScanThread\<close>), the grant consumer (\<open>WorkQueue\<close>, \<open>P25\<close>) and \<open>main\<close>, which
  calls \<open>stop\<close> on one after the other, each of these calls in its three steps, and then resets what
  \<open>on_detection\<close> uses. All of them move in any order, and a join waits.
\<close>

subsection \<open>The machine\<close>

record closing =
  scans :: "scan_thread list"
  grants :: "p25_grant wq option"
  closing_app :: running_app
  steps_left :: "shutdown_step list"
  call_no :: nat

datatype closing_action = MainCall | OfScan nat scan_action | OfGrants "p25_grant wq_action"

definition closing_start :: "scan_thread list \<Rightarrow> p25_grant wq option \<Rightarrow> closing" where
  "closing_start ts g = \<lparr>scans = ts, grants = g, closing_app = started_app (g \<noteq> None) (length ts),
     steps_left = shutdown_steps (g \<noteq> None) (length ts), call_no = 0\<rparr>"

fun calls_of :: "shutdown_step \<Rightarrow> nat" where
  "calls_of (StopProducer p) = 3"
| "calls_of (ResetSink k) = 1"

lemma calls_pos [simp]: "0 < calls_of st"
  by (cases st) simp_all

text \<open>The \<open>k\<close>-th part of a step: flag, notification, join. None as long as the join waits.\<close>

fun do_call :: "shutdown_step \<Rightarrow> nat \<Rightarrow> closing \<Rightarrow> closing option" where
  "do_call (StopProducer (ScannerThread i)) k s =
     map_option (\<lambda>t. s\<lparr>scans := (scans s)[i := t]\<rparr>)
       (main_move (if k = 0 then StopFlag else if k = 1 then StopSource else StopJoin) (scans s ! i))"
| "do_call (StopProducer GrantConsumer) k s = Option.bind (grants s) (\<lambda>q.
     if k < 2 then map_option (\<lambda>q. s\<lparr>grants := Some q\<rparr>) (wq_move p25_worker (if k = 0 then SetFlag else NotifyStop) q)
     else if wpc q = Exited \<and> \<not> producing q then Some s else None)"
| "do_call (ResetSink k') k s = Some s"

definition main_call :: "closing \<Rightarrow> closing option" where
  "main_call s = (case steps_left s of [] \<Rightarrow> None
     | st # rest \<Rightarrow> map_option (\<lambda>s. if call_no s + 1 < calls_of st then s\<lparr>call_no := call_no s + 1\<rparr>
          else s\<lparr>steps_left := rest, call_no := 0, closing_app := do_shutdown st (closing_app s)\<rparr>)
        (do_call st (call_no s) s))"

definition closing_move :: "bool \<Rightarrow> closing_action \<Rightarrow> closing \<Rightarrow> closing option" where
  "closing_move pause a s = (case a of
       MainCall \<Rightarrow> main_call s
     | OfScan i b \<Rightarrow> if i < length (scans s) \<and> \<not> of_main b
         then map_option (\<lambda>t. s\<lparr>scans := (scans s)[i := t]\<rparr>) (thread_move pause b (scans s ! i)) else None
     | OfGrants b \<Rightarrow> if b \<in> {SetFlag, NotifyStop} then None
         else Option.bind (grants s) (\<lambda>q. map_option (\<lambda>q. s\<lparr>grants := Some q\<rparr>) (wq_move p25_worker b q)))"

fun closing_run :: "bool \<Rightarrow> closing_action list \<Rightarrow> closing \<Rightarrow> closing option" where
  "closing_run pause [] s = Some s"
| "closing_run pause (a # as) s = Option.bind (closing_move pause a s) (closing_run pause as)"

interpretation closings: machine "closing_move pause" "closing_run pause" for pause
  by unfold_locales simp_all

subsection \<open>What holds while it runs\<close>

text \<open>How far \<open>main\<close> has come with a producer, from what is left.\<close>

definition stage :: "producer \<Rightarrow> closing \<Rightarrow> nat" where
  "stage p s = (let ps = producers (closing_app s) in if p \<notin> set ps then 3 else if hd ps = p then call_no s else 0)"

definition scan_stage :: "nat \<Rightarrow> scan_thread \<Rightarrow> bool" where
  "scan_stage k t \<longleftrightarrow> flags_ok t \<and> phase t = (if k = 0 then NotStopping else if k = 1 then FlagCleared
     else if k = 2 then WaitsJoin else Joined)"

definition grant_stage :: "nat \<Rightarrow> p25_grant wq \<Rightarrow> bool" where
  "grant_stage k q \<longleftrightarrow> spc q = (if k = 0 then Serving else if k = 1 then Flagged else Joining) \<and> (k = 3 \<longrightarrow> wpc q = Exited)"

text \<open>What is left to do is what is still there, the producers first.\<close>

definition on_schedule :: "closing \<Rightarrow> bool" where
  "on_schedule s \<longleftrightarrow> (let a = closing_app s
     in steps_left s = map StopProducer (producers a) @ map ResetSink (sinks a) \<and> distinct (producers a) \<and> distinct (sinks a) \<and>
       (producers a = [] \<or> sinks a = [GpsSink, AmqpSink, DbSink]) \<and>
       (steps_left s \<noteq> [] \<longrightarrow> call_no s < calls_of (hd (steps_left s))))"

definition closing_ok :: "closing \<Rightarrow> bool" where
  "closing_ok s \<longleftrightarrow> on_schedule s \<and> set (producers (closing_app s)) \<subseteq>
       insert GrantConsumer (ScannerThread ` {..<length (scans s)}) \<and>
     (\<forall>i < length (scans s). scan_stage (stage (ScannerThread i) s) (scans s ! i)) \<and>
     (GrantConsumer \<in> set (producers (closing_app s)) \<longrightarrow> grants s \<noteq> None) \<and>
     (\<forall>q. grants s = Some q \<longrightarrow> grant_stage (stage GrantConsumer s) q)"

lemma thread_keeps_stage: "thread_move pause a t = Some t' \<Longrightarrow> scan_stage k t \<Longrightarrow> scan_stage k t'"
proof -
  assume m: "thread_move pause a t = Some t'" and k: "scan_stage k t"
  have "phase t' = phase t" using m by (cases "tpc t") (auto simp: thread_move_def split: if_splits)
  then show ?thesis using thread_move_ok [OF m] k by (simp add: scan_stage_def)
qed

lemma grants_keep_stage:
  assumes "wq_move p25_worker a q = Some q'" and "a \<noteq> SetFlag" and "a \<noteq> NotifyStop" and "grant_stage k q"
  shows "grant_stage k q'"
  using assms by (cases a) (auto simp: wq_moves grant_stage_def split: worker_pc.splits if_splits taken.splits prod.splits)

lemma main_advances_scan:
  assumes "main_move (if k = 0 then StopFlag else if k = 1 then StopSource else StopJoin) t = Some t'"
    and "scan_stage k t" and "k < 3"
  shows "scan_stage (k + 1) t'"
proof -
  have "k = 0 \<or> k = 1 \<or> k = 2" using assms(3) by auto
  then show ?thesis using assms(1,2) main_move_ok [OF assms(1)]
    by (elim disjE) (auto simp: main_move_def scan_stage_def split: if_splits)
qed

lemma main_advances_grants:
  assumes "wq_move p25_worker (if k = 0 then SetFlag else NotifyStop) q = Some q'" and "grant_stage k q" and "k < 2"
  shows "grant_stage (k + 1) q'"
proof -
  have "k = 0 \<or> k = 1" using assms(3) by auto
  then show ?thesis using assms(1,2) by (elim disjE) (auto simp: wq_moves grant_stage_def split: if_splits)
qed

lemma closing_start_ok:
  assumes "\<forall>t\<in>set ts. scan_reach pause t \<and> phase t = NotStopping" and "\<forall>q. g = Some q \<longrightarrow> spc q = Serving"
  shows "closing_ok (closing_start ts g)"
proof -
  let ?s = "closing_start ts g"
  have ps: "producers (closing_app ?s) = (if g = None then [] else [GrantConsumer]) @ map ScannerThread [0..<length ts]"
    by (simp add: closing_start_def started_app_def)
  have "stage (ScannerThread i) ?s = 0" "stage GrantConsumer ?s = (if g = None then 3 else 0)" if "i < length ts" for i
    using that by (auto simp: stage_def ps Let_def) (auto simp: closing_start_def)
  moreover have "stage GrantConsumer ?s = (if g = None then 3 else 0)"
    by (auto simp: stage_def ps Let_def) (auto simp: closing_start_def)
  moreover have "on_schedule ?s"
    by (auto simp: on_schedule_def closing_start_def shutdown_eq started_app_def Let_def distinct_map inj_on_def hd_append split: list.split)
  moreover have "\<forall>i < length ts. flags_ok (ts ! i) \<and> phase (ts ! i) = NotStopping" using assms(1) reach_flags_ok nth_mem by blast
  ultimately show ?thesis using assms(2)
    by (auto simp: closing_ok_def closing_start_def started_app_def scan_stage_def grant_stage_def)
qed

text \<open>The first producer is the one that \<open>main\<close> is at.\<close>

lemma on_schedule_cases:
  assumes "on_schedule s" and "steps_left s = st # rest"
  obtains p ps where "st = StopProducer p" "producers (closing_app s) = p # ps" "p \<notin> set ps" "call_no s < 3"
      "rest = map StopProducer ps @ map ResetSink (sinks (closing_app s))"
  | k ks where "st = ResetSink k" "producers (closing_app s) = []" "sinks (closing_app s) = k # ks" "k \<notin> set ks"
      "rest = map ResetSink ks" "call_no s = 0"
  using assms by (cases "producers (closing_app s)"; cases "sinks (closing_app s)") (auto simp: on_schedule_def Let_def)

lemma do_call_fields:
  assumes "do_call st k s = Some s'"
  shows "closing_app s' = closing_app s \<and> steps_left s' = steps_left s \<and> call_no s' = call_no s \<and>
    length (scans s') = length (scans s) \<and> (grants s' = None \<longleftrightarrow> grants s = None)"
  using assms by (cases "(st, k, s)" rule: do_call.cases) (auto simp: bind_eq_Some_conv split: if_splits)

text \<open>A part of the step for a producer: this producer moves on by one stage, the others stay.\<close>

lemma do_call_stage:
  assumes "closing_ok s" and "do_call (StopProducer p) k s = Some s1" and "k = stage p s" and "k < 3"
  shows "(\<forall>i < length (scans s1). scan_stage (stage (ScannerThread i) s + (if ScannerThread i = p then 1 else 0)) (scans s1 ! i)) \<and>
    (\<forall>q. grants s1 = Some q \<longrightarrow> grant_stage (stage GrantConsumer s + (if GrantConsumer = p then 1 else 0)) q)"
proof (cases p)
  case (ScannerThread j)
  then obtain t where t: "main_move (if k = 0 then StopFlag else if k = 1 then StopSource else StopJoin) (scans s ! j) = Some t"
    and s1: "s1 = s\<lparr>scans := (scans s)[j := t]\<rparr>" using assms(2) by auto
  have "p \<in> set (producers (closing_app s))" using assms(3,4) by (auto simp: stage_def Let_def split: if_splits)
  then have j: "j < length (scans s)" using assms(1) ScannerThread by (auto simp: closing_ok_def)
  then have "scan_stage k (scans s ! j)" using assms(1,3) ScannerThread by (auto simp: closing_ok_def)
  then have "scan_stage (k + 1) t" by (rule main_advances_scan [OF t _ assms(4)])
  then show ?thesis using assms(1,3) s1 j ScannerThread by (auto simp: closing_ok_def nth_list_update)
next
  case GrantConsumer
  obtain q where q: "grants s = Some q" using assms(2) GrantConsumer by (auto simp: bind_eq_Some_conv)
  have g: "grant_stage k q" using assms(1,3) GrantConsumer q by (simp add: closing_ok_def)
  show ?thesis
  proof (cases "k < 2")
    case True
    then obtain q' where q': "wq_move p25_worker (if k = 0 then SetFlag else NotifyStop) q = Some q'" and s1: "s1 = s\<lparr>grants := Some q'\<rparr>"
      using assms(2) GrantConsumer q by auto
    show ?thesis using main_advances_grants [OF q' g True] assms(1,3) GrantConsumer s1 by (auto simp: closing_ok_def)
  next
    case False
    then have "k = 2" using assms(4) by simp
    then have "s1 = s" "wpc q = Exited" using assms(2) GrantConsumer q by (auto split: if_splits)
    then show ?thesis using g \<open>k = 2\<close> assms(1,3) GrantConsumer q by (auto simp: closing_ok_def grant_stage_def)
  qed
qed

lemma main_call_ok:
  assumes "closing_ok s" and "main_call s = Some s'"
  shows "closing_ok s'"
proof -
  obtain st rest where steps: "steps_left s = st # rest" using assms(2) by (auto simp: main_call_def split: list.splits)
  then obtain s1 where call: "do_call st (call_no s) s = Some s1"
    and s': "s' = (if call_no s + 1 < calls_of st then s1\<lparr>call_no := call_no s + 1\<rparr>
          else s1\<lparr>steps_left := rest, call_no := 0, closing_app := do_shutdown st (closing_app s)\<rparr>)"
    using assms(2) do_call_fields by (auto simp: main_call_def)
  note f = do_call_fields [OF call]
  have sched: "on_schedule s" using assms(1) by (simp add: closing_ok_def)
  show ?thesis using sched steps
  proof (cases rule: on_schedule_cases)
    case (1 p ps)
    have ps: "removeAll p (producers (closing_app s)) = ps" using 1 by (simp add: removeAll_id)
    have stages: "stage p' s' = stage p' s + (if p' = p then 1 else 0)" for p'
    proof (cases "call_no s = 2")
      case True
      then show ?thesis using s' 1 f ps by (auto simp: stage_def Let_def)
    next
      case False
      then have "call_no s + 1 < 3" using 1(4) by simp
      then show ?thesis using s' 1 f by (auto simp: stage_def Let_def)
    qed
    have "call_no s = stage p s" using 1 by (simp add: stage_def)
    note parts = do_call_stage [OF assms(1) _ this 1(4), of s1]
    have same: "scans s' = scans s1" "grants s' = grants s1" using s' by simp_all
    have "set (producers (closing_app s')) \<subseteq> set (producers (closing_app s))" using s' f 1 ps by auto
    moreover have "on_schedule s'" using sched s' f 1 ps by (auto simp: on_schedule_def Let_def)
    moreover have "do_call (StopProducer p) (call_no s) s = Some s1" using call 1(1) by simp
    ultimately show ?thesis using parts assms(1) f unfolding closing_ok_def stages same by auto
  next
    case (2 k ks)
    have s1: "s1 = s" using call 2 by simp
    have "removeAll k (sinks (closing_app s)) = ks" using 2 by (simp add: removeAll_id)
    then have "on_schedule s'" using sched s' s1 2 by (auto simp: on_schedule_def Let_def split: list.split)
    moreover have "stage p s' = stage p s" for p using s' s1 2 by (simp add: stage_def)
    ultimately show ?thesis using assms(1) s' s1 2 unfolding closing_ok_def by simp
  qed
qed

lemma closing_move_ok:
  assumes "closing_ok s" and "closing_move pause a s = Some s'"
  shows "closing_ok s'"
proof (cases a)
  case MainCall
  then show ?thesis using assms main_call_ok by (simp add: closing_move_def)
next
  case (OfScan i b)
  then obtain t where i: "i < length (scans s)" and t: "thread_move pause b (scans s ! i) = Some t"
    and s': "s' = s\<lparr>scans := (scans s)[i := t]\<rparr>" using assms(2) by (auto simp: closing_move_def split: if_splits)
  have "scan_stage (stage (ScannerThread i) s) t" using thread_keeps_stage [OF t] assms(1) i by (simp add: closing_ok_def)
  moreover have "stage p s' = stage p s" for p by (simp add: s' stage_def Let_def)
  moreover have "on_schedule s' = on_schedule s" by (simp add: s' on_schedule_def)
  ultimately show ?thesis using assms(1) i unfolding closing_ok_def by (auto simp: s' nth_list_update)
next
  case (OfGrants b)
  then obtain q q' where b: "b \<noteq> SetFlag" "b \<noteq> NotifyStop" and q: "grants s = Some q" "wq_move p25_worker b q = Some q'"
    and s': "s' = s\<lparr>grants := Some q'\<rparr>" using assms(2) by (auto simp: closing_move_def bind_eq_Some_conv split: if_splits)
  have "grant_stage (stage GrantConsumer s) q'" using grants_keep_stage [OF q(2) b] assms(1) q(1) by (simp add: closing_ok_def)
  moreover have "stage p s' = stage p s" for p by (simp add: s' stage_def Let_def)
  moreover have "on_schedule s' = on_schedule s" by (simp add: s' on_schedule_def)
  ultimately show ?thesis using assms(1) unfolding closing_ok_def by (auto simp: s')
qed

lemma closing_run_ok: "closing_run pause as s = Some s' \<Longrightarrow> closing_ok s \<Longrightarrow> closing_ok s'"
  by (rule closings.run_keeps) (auto dest: closing_move_ok)

subsection \<open>What it reports, and how long it takes\<close>

definition reporting_now :: "closing \<Rightarrow> bool" where
  "reporting_now s \<longleftrightarrow> list_ex (\<lambda>t. tpc t = Callbacks) (scans s) \<or>
     (case grants s of None \<Rightarrow> False | Some q \<Rightarrow> (case wpc q of Handling b \<Rightarrow> True | _ \<Rightarrow> False))"

lemma scan_stage_gone: "scan_stage 3 t \<Longrightarrow> tpc t = NoThread"
  by (simp add: scan_stage_def flags_ok_def)

lemma closing_safe:
  assumes "closing_ok s" and "reporting_now s"
  shows "sinks (closing_app s) = [GpsSink, AmqpSink, DbSink]"
proof (rule ccontr)
  assume "sinks (closing_app s) \<noteq> [GpsSink, AmqpSink, DbSink]"
  then have "producers (closing_app s) = []" using assms(1) by (auto simp: closing_ok_def on_schedule_def Let_def)
  then have gone: "stage p s = 3" for p by (simp add: stage_def)
  then have "\<forall>i < length (scans s). tpc (scans s ! i) = NoThread" using assms(1) scan_stage_gone unfolding closing_ok_def by auto
  moreover have "\<forall>q. grants s = Some q \<longrightarrow> wpc q = Exited" using assms(1) gone by (simp add: closing_ok_def grant_stage_def)
  moreover have "\<forall>t\<in>set (scans s). tpc t \<noteq> Callbacks" using calculation(1) by (auto simp: in_set_conv_nth)
  ultimately show False using assms(2) by (cases "grants s") (auto simp: reporting_now_def list_ex_iff)
qed

text \<open>The moves left to the thread that a join waits for.\<close>

fun waits_on :: "shutdown_step list \<Rightarrow> nat \<Rightarrow> scan_thread list \<Rightarrow> nat" where
  "waits_on (StopProducer (ScannerThread i) # rest) k ts = (if k = 2 then moves_left (tpc (ts ! i)) else 0)"
| "waits_on _ k ts = 0"

definition work_left :: "closing \<Rightarrow> nat" where
  "work_left s = 6 * (sum_list (map calls_of (steps_left s)) - call_no s) + waits_on (steps_left s) (call_no s) (scans s)"

lemma moves_left_bound: "moves_left pc \<le> 5"
  by (cases pc) simp_all

lemma waits_on_bound: "waits_on sts k ts \<le> 5"
  using moves_left_bound by (cases "(sts, k, ts)" rule: waits_on.cases) (auto simp del: moves_left.simps)

lemma main_call_work:
  assumes "closing_ok s" and "main_call s = Some s'"
  shows "work_left s' < work_left s"
proof -
  obtain st rest where steps: "steps_left s = st # rest" using assms(2) by (auto simp: main_call_def split: list.splits)
  then obtain s1 where call: "do_call st (call_no s) s = Some s1"
    and s': "s' = (if call_no s + 1 < calls_of st then s1\<lparr>call_no := call_no s + 1\<rparr>
          else s1\<lparr>steps_left := rest, call_no := 0, closing_app := do_shutdown st (closing_app s)\<rparr>)"
    using assms(2) do_call_fields by (auto simp: main_call_def)
  have no: "call_no s < calls_of st" using assms(1) steps by (simp add: closing_ok_def on_schedule_def Let_def)
  have "6 * (sum_list (map calls_of (steps_left s')) - call_no s') + 6 \<le> 6 * (sum_list (map calls_of (steps_left s)) - call_no s)"
    using s' no steps do_call_fields [OF call] by auto
  then show ?thesis using waits_on_bound [of "steps_left s'" "call_no s'" "scans s'"] by (simp add: work_left_def)
qed

lemma scan_move_work:
  assumes "closing_ok s" and "i < length (scans s)" and "thread_move pause b (scans s ! i) = Some t"
    and "s' = s\<lparr>scans := (scans s)[i := t]\<rparr>"
  shows "work_left s' \<le> work_left s" and "\<exists>rest. steps_left s = StopProducer (ScannerThread i) # rest \<and> call_no s = 2 \<Longrightarrow> work_left s' < work_left s"
proof -
  have wait: "moves_left (tpc t) < moves_left (tpc (scans s ! i))"
    if head: "steps_left s = StopProducer (ScannerThread i) # rest" "call_no s = 2" for rest
  proof -
    have "on_schedule s" using assms(1) by (simp add: closing_ok_def)
    then have "stage (ScannerThread i) s = 2" using head by (cases rule: on_schedule_cases) (auto simp: stage_def)
    then show ?thesis using joining_move [OF assms(3)] assms(1,2) by (simp add: closing_ok_def scan_stage_def)
  qed
  then show "\<exists>rest. steps_left s = StopProducer (ScannerThread i) # rest \<and> call_no s = 2 \<Longrightarrow> work_left s' < work_left s"
    using assms(2,4) by (auto simp: work_left_def simp del: moves_left.simps)
  have "waits_on (steps_left s) (call_no s) (scans s') \<le> waits_on (steps_left s) (call_no s) (scans s)"
    using wait assms(2,4)
    by (cases "(steps_left s, call_no s, scans s)" rule: waits_on.cases) (auto simp: nth_list_update le_less simp del: moves_left.simps)
  then show "work_left s' \<le> work_left s" using assms(4) by (simp add: work_left_def)
qed

lemma closing_move_work:
  assumes "closing_ok s" and "closing_move pause a s = Some s'"
  shows "work_left s' \<le> work_left s"
proof (cases a)
  case MainCall
  then show ?thesis using main_call_work [OF assms(1)] assms(2) by (simp add: closing_move_def less_imp_le)
next
  case (OfScan i b)
  then show ?thesis using scan_move_work(1) [OF assms(1)] assms(2) by (auto simp: closing_move_def split: if_splits)
next
  case (OfGrants b)
  then have "steps_left s' = steps_left s \<and> call_no s' = call_no s \<and> scans s' = scans s"
    using assms(2) by (auto simp: closing_move_def bind_eq_Some_conv split: if_splits)
  then show ?thesis by (simp add: work_left_def)
qed

text \<open>\<open>main\<close> is in the join of the grant consumer, which has not ended.\<close>

definition awaits_grants :: "closing \<Rightarrow> bool" where
  "awaits_grants s \<longleftrightarrow> stage GrantConsumer s = 2 \<and>
     (case grants s of None \<Rightarrow> False | Some q \<Rightarrow> wpc q \<noteq> Exited \<or> producing q)"

lemma closing_progress:
  assumes "closing_ok s" and "steps_left s \<noteq> []" and "\<not> awaits_grants s"
  shows "\<exists>a s'. closing_move pause a s = Some s' \<and> work_left s' < work_left s"
proof -
  have by_main: ?thesis if "main_call s \<noteq> None"
    using that main_call_work [OF assms(1)] by (intro exI [of _ MainCall]) (auto simp: closing_move_def)
  obtain st rest where steps: "steps_left s = st # rest" using assms(2) by (cases "steps_left s") auto
  have sched: "on_schedule s" using assms(1) by (simp add: closing_ok_def)
  show ?thesis using sched steps
  proof (cases rule: on_schedule_cases)
    case (1 p ps)
    have st: "stage p s = call_no s" and pin: "p \<in> set (producers (closing_app s))" using 1 by (simp_all add: stage_def)
    have no: "call_no s = 0 \<or> call_no s = 1 \<or> call_no s = 2" using 1(4) by auto
    show ?thesis
    proof (cases p)
      case GrantConsumer
      obtain q where q: "grants s = Some q" using assms(1) pin GrantConsumer by (auto simp: closing_ok_def)
      have g: "grant_stage (call_no s) q" using assms(1) q st GrantConsumer by (auto simp: closing_ok_def)
      have "do_call (StopProducer GrantConsumer) (call_no s) s \<noteq> None"
        using no g q assms(3) st GrantConsumer by (elim disjE) (auto simp: grant_stage_def wq_moves awaits_grants_def)
      then show ?thesis using by_main steps 1 GrantConsumer by (simp add: main_call_def)
    next
      case (ScannerThread i)
      have i: "i < length (scans s)" using assms(1) pin ScannerThread by (auto simp: closing_ok_def)
      have sc: "scan_stage (call_no s) (scans s ! i)" using assms(1) i st ScannerThread by (auto simp: closing_ok_def)
      show ?thesis
      proof (cases "call_no s = 2 \<and> tpc (scans s ! i) \<notin> {NoThread, LeftLoop}")
        case True
        then obtain b t where b: "\<not> of_main b" "thread_move pause b (scans s ! i) = Some t" using thread_can_move by blast
        have "closing_move pause (OfScan i b) s = Some (s\<lparr>scans := (scans s)[i := t]\<rparr>)" using b i by (simp add: closing_move_def)
        moreover have "work_left (s\<lparr>scans := (scans s)[i := t]\<rparr>) < work_left s"
          using scan_move_work(2) [OF assms(1) i b(2) refl] True steps 1(1) ScannerThread by simp
        ultimately show ?thesis by blast
      next
        case False
        then have "do_call (StopProducer (ScannerThread i)) (call_no s) s \<noteq> None"
          using no sc by (elim disjE) (auto simp: scan_stage_def main_move_def)
        then show ?thesis using by_main steps 1 ScannerThread by (simp add: main_call_def)
      qed
    qed
  next
    case (2 k ks)
    then show ?thesis using by_main steps by (simp add: main_call_def)
  qed
qed

lemma closing_done:
  assumes "closing_ok s" and "steps_left s = []"
  shows "\<not> reporting_now s \<and> sinks (closing_app s) = []"
  using closing_safe [OF assms(1)] assms by (auto simp: closing_ok_def on_schedule_def Let_def)

subsection \<open>Properties\<close>

definition all_sweeping :: "bool \<Rightarrow> scan_thread list \<Rightarrow> bool" where
  "all_sweeping pause ts \<longleftrightarrow> (\<forall>t\<in>set ts. scan_reach pause t \<and> phase t = NotStopping)"

text \<open>One scanner that is reporting while \<open>main\<close> waits for it, the grant consumer having ended.\<close>

definition busy_thread :: scan_thread where
  "busy_thread = \<lparr>running = True, src_flag = True, held = True, tpc = Callbacks, phase = NotStopping, processed = 1\<rparr>"

lemma busy_sweeping: "all_sweeping True [busy_thread]"
proof -
  have "scan_run True [StartThread, Run, OpenReturns, Run, Run, RecvDwell, Run] idle_thread = Some busy_thread"
    by (simp add: scan_move_def main_move_def thread_move_def of_main_def idle_thread_def busy_thread_def)
  then have "scan_reach True busy_thread" by (rule scan_reach_run [OF scan_reach.scan_start])
  then show ?thesis by (simp add: all_sweeping_def busy_thread_def)
qed

definition until_scanner :: "closing_action list" where
  "until_scanner = [MainCall, MainCall, OfGrants EndInput, OfGrants Worker, MainCall, MainCall, MainCall]"

lemma until_scanner_run:
  "\<exists>s. closing_run True until_scanner (closing_start [busy_thread] (Some wq_init)) = Some s \<and> reporting_now s \<and>
     \<not> awaits_grants s \<and> steps_left s \<noteq> []"
  by (simp add: until_scanner_def closing_start_def shutdown_eq started_app_def closing_move_def main_call_def wq_moves wq_init_def
      main_move_def busy_thread_def reporting_now_def awaits_grants_def stage_def)

text \<open>C19. Nothing reports into a dead sink. However the sweep threads and the grant consumer interleave with the shutdown of
  \<open>main\<close>, from whatever they were doing when it began: while a sweep thread is in its callbacks or a grant is
  being handled, the position cache, the publisher and the database writer are all there.\<close>

theorem shutdown_keeps_sinks:
  assumes "all_sweeping pause ts" and "\<forall>q. g = Some q \<longrightarrow> spc q = Serving"
    and "closing_run pause as (closing_start ts g) = Some s" and "reporting_now s"
  shows "sinks (closing_app s) = [GpsSink, AmqpSink, DbSink]"
  using closing_safe [OF closing_run_ok [OF assms(3) closing_start_ok [of ts pause g, OF _ assms(2)]] assms(4)] assms(1)
  by (auto simp: all_sweeping_def)

theorem shutdown_keeps_sinks_witness:
  "\<exists>s. closing_run True until_scanner (closing_start [busy_thread] (Some wq_init)) = Some s \<and> reporting_now s \<and>
     sinks (closing_app s) = [GpsSink, AmqpSink, DbSink]"
proof -
  obtain s where run: "closing_run True until_scanner (closing_start [busy_thread] (Some wq_init)) = Some s" and r: "reporting_now s"
    using until_scanner_run by blast
  have "\<forall>q. Some wq_init = Some q \<longrightarrow> spc q = Serving" by (simp add: wq_init_def)
  then show ?thesis using shutdown_keeps_sinks [OF busy_sweeping _ run r] run r by blast
qed



text \<open>The stop of the grant consumer falls between the worker's reading of its condition and its wait.\<close>

definition hang_moves :: "closing_action list" where
  "hang_moves = [OfGrants Worker, OfGrants Worker, MainCall, MainCall, OfGrants Worker, OfGrants EndInput]"

text \<open>C28. The whole shutdown can hang in its first step. When the stop of the grant consumer falls between the worker's
  reading of its wait condition and its wait, the notification is lost: then nothing is stopped yet, the scanners sweep
  on, and the only move that \<open>main\<close> or the grant consumer has left is a spurious wake-up.\<close>

theorem shutdown_can_hang:
  "\<exists>s. closing_run pause hang_moves (closing_start ts (Some wq_init)) = Some s \<and>
     steps_left s = shutdown_steps True (length ts) \<and> scans s = ts \<and> sinks (closing_app s) = [GpsSink, AmqpSink, DbSink] \<and>
     {a. closing_move pause a s \<noteq> None} - range (\<lambda>(i, b). OfScan i b) = {OfGrants Spurious}"
proof -
  let ?q = "wq_init\<lparr>stop_flag := True, wpc := worker_pc.Blocked, spc := Joining, producing := False\<rparr> :: p25_grant wq"
  let ?s = "(closing_start ts (Some wq_init))\<lparr>grants := Some ?q, call_no := 2\<rparr>"
  have run: "closing_run pause hang_moves (closing_start ts (Some wq_init)) = Some ?s"
    by (simp add: hang_moves_def closing_start_def closing_move_def main_call_def wq_moves wq_init_def shutdown_steps_def)
  have "closing_move pause MainCall ?s = None"
    by (simp add: closing_move_def main_call_def closing_start_def shutdown_steps_def)
  moreover have "closing_move pause (OfGrants b) ?s \<noteq> None \<longleftrightarrow> b = Spurious" for b
    by (cases b) (simp_all add: closing_move_def closing_start_def wq_moves wq_init_def)
  ultimately have "closing_move pause a ?s \<noteq> None \<and> a \<notin> range (\<lambda>(i, b). OfScan i b) \<longleftrightarrow> a = OfGrants Spurious" for a
    by (cases a) (auto simp: image_iff)
  then have "{a. closing_move pause a ?s \<noteq> None} - range (\<lambda>(i, b). OfScan i b) = {OfGrants Spurious}" by blast
  then show ?thesis using run by (intro exI [of _ ?s]) (simp add: closing_start_def started_app_def)
qed

end
