(* ===== verification/Tone.thy ===== *)
theory Tone
  imports Reports
begin

section \<open>From a run of bins to a detection\<close>

text \<open>
  The detector and the persistence filter put together: which runs of a dwell's spectrum become
  detections. The second half carries one dwell with a tone through a scanner, the IQ source and the sweep
  loop; it serves the instances of the properties that speak of reported detections.
\<close>

subsection \<open>Runs and detections of one dwell\<close>

definition run_detection :: "sweep_config \<Rightarrow> timestamp \<Rightarrow> nat \<Rightarrow> real \<Rightarrow> sample list \<Rightarrow> fft_processor \<Rightarrow> scan_params \<Rightarrow>
   int \<times> int \<Rightarrow> detection" where
  "run_detection cfg now ch center samples p c r = detection_of cfg now ch (snapshot samples)
     (candidate_of p (sample_rate (device cfg)) center (run_signal c r))"

definition strong_run :: "scan_params \<Rightarrow> int \<times> int \<Rightarrow> bool" where
  "strong_run c = (\<lambda>(a, b). 15 \<le> f32 (run_peak_of c a b - run_mean_of c a b))"

text \<open>The runs the detector reports: maximal, wide and peaky enough.\<close>

definition found_runs :: "scan_params \<Rightarrow> (int \<times> int) set" where
  "found_runs c = {r. maximal_run (sp_above c) (sp_start c) (sp_end c) (fst r) (snd r) \<and> reportable c r}"

lemma strong_candidate: "strong (candidate_of p rate center (run_signal c r)) = strong_run c r"
  by (simp add: strong_def papr_def candidate_of_def strong_run_def run_signal_def persist_bypass_papr_db_def
      Let_def split: prod.split)

lemma strong_emitted:
  assumes "c \<in> set cs" and "strong c"
  shows "c \<in> set (emitted pmap cs)"
proof -
  obtain i where "i < length cs" "cs ! i = c" using assms(1) by (meson in_set_conv_nth)
  then show ?thesis using assms(2) by (force simp: emitted_def)
qed

lemma emitted_subset: "set (emitted pmap cs) \<subseteq> set cs"
  by (auto simp: emitted_def)

lemma dwell_runs:
  assumes "scannable (sc_cfg sc)" and "scanner_ok sc" and "ch < length (processors sc)"
    and "fft_size (sweep (sc_cfg sc)) \<le> int (length samples)"
  shows "\<exists>p c q out sc'. compute_spectrum fft (processors sc ! ch) samples = Some p \<and>
     detect_setup p (dwell_args (sc_cfg sc)) = Some (c, q) \<and>
     process_dwell fft now ch center samples sc = Some (out, sc') \<and>
     set out \<subseteq> run_detection (sc_cfg sc) now ch center samples q c ` found_runs c \<and>
     run_detection (sc_cfg sc) now ch center samples q c ` {r \<in> found_runs c. strong_run c r} \<subseteq> set out"
proof -
  let ?cfg = "sc_cfg sc" and ?p = "processors sc ! ch"
  have ok: "processor_ok ?p" "fp_size ?p = fft_size (sweep ?cfg)" "fp_guard ?p = cfar_guard_bins (sweep ?cfg)"
    "fp_ref ?p = cfar_ref_bins (sweep ?cfg)"
    using assms(2,3) by (auto simp: scanner_ok_def channel_ok_def get_channel_def)
  have "fp_size ?p \<le> 32768" "fp_size ?p + fp_guard ?p + max 1 (fp_ref ?p) < 2 ^ 31" "fp_size ?p \<le> int (length samples)"
    using assms(1,4) by (auto simp: ok scannable_def)
  from compute_then_detect [OF ok(1) this(1) dwell_args_ok [OF assms(1)] this(2,3), of fft]
  obtain p c q rs where spec: "compute_spectrum fft ?p samples = Some p"
    and st: "detect_setup p (dwell_args ?cfg) = Some (c, q)"
    and rs: "lists_runs (sp_above c) (sp_start c) (sp_end c) rs"
    and det: "detect_from_spectrum p (dwell_args ?cfg) = Some (sort_key (\<lambda>s. - peak_db s) (reported c rs), q)" by blast
  let ?cand = "candidate_of q (sample_rate (device ?cfg)) center"
  define pmap where "pmap = (case (ch_persist sc ! ch) (u64_of_real center) of None \<Rightarrow> Map.empty | Some m \<Rightarrow> m)"
  define cs where "cs = map ?cand (sort_key (\<lambda>s. - peak_db s) (reported c rs))"
  have "{r \<in> set rs. reportable c r} = found_runs c" using rs by (auto simp: lists_runs_def found_runs_def)
  then have cs_set: "set cs = (\<lambda>r. ?cand (run_signal c r)) ` found_runs c"
    by (auto simp: cs_def reported_def)
  have "\<exists>sc'. process_dwell fft now ch center samples sc =
      Some (map (detection_of ?cfg now ch (snapshot samples)) (emitted pmap cs), sc')"
    using spec det persistence_filter_out [of pmap cs]
    by (cases "persistence_filter pmap cs")
      (simp add: process_dwell_local channel_step_def get_channel_def Let_def pmap_def cs_def)
  then obtain sc' where run: "process_dwell fft now ch center samples sc =
      Some (map (detection_of ?cfg now ch (snapshot samples)) (emitted pmap cs), sc')" by blast
  have "set (map (detection_of ?cfg now ch (snapshot samples)) (emitted pmap cs)) \<subseteq>
      run_detection ?cfg now ch center samples q c ` found_runs c"
    using emitted_subset [of pmap cs] by (force simp: cs_set run_detection_def)
  moreover have "run_detection ?cfg now ch center samples q c ` {r \<in> found_runs c. strong_run c r} \<subseteq>
      set (map (detection_of ?cfg now ch (snapshot samples)) (emitted pmap cs))"
    using strong_emitted [of _ cs pmap] by (auto simp: cs_set run_detection_def strong_candidate intro!: imageI)
  ultimately show ?thesis using spec st run by blast
qed

subsection \<open>One dwell with a tone\<close>

text \<open>64 bins of which eight are usable; the transform puts 80 dB into one bin and 20 dB into its neighbours.\<close>

definition tone_config :: sweep_config where
  "tone_config = default_config\<lparr>sweep := default_sweep\<lparr>fft_size := 64, dwell_samples := 64,
     usable_bw_fraction := 1/8, dc_guard_hz := 0\<rparr>\<rparr>"

definition tone_fft :: "sample list \<Rightarrow> sample list" where
  "tone_fft xs = [(64, 0), (640, 0), (640000, 0), (640, 0)] @ replicate 60 (64, 0)"

lemma tone_config_fields [simp]:
  "fft_size (sweep tone_config) = 64" "dwell_samples (sweep tone_config) = 64"
  "usable_bw_fraction (sweep tone_config) = 1/8" "dc_guard_hz (sweep tone_config) = 0"
  "threshold_db (sweep tone_config) = 10" "min_signal_bw_hz (sweep tone_config) = 1000"
  "min_papr_db (sweep tone_config) = 3" "start_hz (sweep tone_config) = 70000000" "stop_hz (sweep tone_config) = 1000000000"
  "cfar_guard_bins (sweep tone_config) = 8" "cfar_ref_bins (sweep tone_config) = 32"
  "noise_floor_alpha (sweep tone_config) = f32 (8/100)"
  "sample_rate (device tone_config) = 10000000" "rx_channels (device tone_config) = 1"
  "bands tone_config = []" "scan_device_ids tone_config = []" "receiver tone_config = default_receiver"
  "required_device_id (device tone_config) = []"
  by (simp_all add: tone_config_def default_config_def default_sweep_def default_device_def)

lemma tone_scannable: "scannable tone_config"
proof -
  have "\<exists>k. (64 :: int) = 2 ^ k" by (rule exI [of _ 6]) simp
  then show ?thesis by (simp add: scannable_def valid_sweep_def round_eval)
qed

lemma tone_sweepable: "sweepable tone_config"
proof -
  have "step_hz tone_config = 1250000" by (simp add: step_hz_def round_eval)
  moreover have "dwell_ms tone_config \<noteq> None" by (simp add: dwell_ms_def Let_def int_cast_def trunc_def round_eval)
  ultimately show ?thesis by (simp add: sweepable_def)
qed

lemma to_dbfs_bounds:
  assumes "f32 (10 ^ m) = 10 ^ m" and "f32 (2 * 10 ^ m) = 2 * 10 ^ m" and "f32 (real m + 1/2) = real m + 1/2" and "m \<le> 100"
  shows "real (10 * m) \<le> to_dbfs 1 (10 ^ m) \<and> to_dbfs 1 (10 ^ m) \<le> real (10 * m + 5)"
proof -
  define x where "x = f32 (f32 (10 ^ m * 1) + f32 (1 / 10 ^ 30))"
  have a1: "1 \<le> (10 :: real) ^ m" by simp
  have tiny: "0 \<le> f32 (1 / 10 ^ 30)" "f32 (1 / 10 ^ 30) \<le> 1"
    by (rule r32.fl_nonneg, simp) (rule r32.fl_le_fixed, simp_all)
  have x: "10 ^ m \<le> x" "x \<le> 2 * 10 ^ m"
    unfolding x_def using assms(1,2) tiny a1 by (auto intro!: r32.fl_ge_fixed r32.fl_le_fixed simp del: one_le_power)
  then have pos: "0 < x" using a1 by linarith
  have "(2 :: real) \<le> 10 powr (1/2)" by (simp add: powr_half_sqrt real_le_rsqrt)
  then have "x \<le> 10 powr (real m + 1/2)" using x(2) by (simp add: powr_add powr_realpow mult.commute order_trans)
  then have "real m \<le> log 10 x" "log 10 x \<le> real m + 1/2"
    using x(1) pos by (simp_all add: le_log_iff log_le_iff powr_realpow)
  then have "real m \<le> std_log10f x" "std_log10f x \<le> real m + 1/2"
    unfolding std_log10f_def using assms(3,4) by (auto intro!: r32.fl_ge_fixed r32.fl_le_fixed r32.fl_nat)
  then have "real (10 * m) \<le> 10 * std_log10f x" "10 * std_log10f x \<le> real (10 * m + 5)" by simp_all
  then show ?thesis unfolding to_dbfs_def x_def [symmetric] using assms(4)
    by (auto intro!: r32.fl_ge_fixed r32.fl_le_fixed r32.fl_nat simp del: of_nat_add of_nat_mult)
qed

lemma tone_levels:
  shows "0 \<le> to_dbfs 1 1" "to_dbfs 1 1 \<le> 5" "20 \<le> to_dbfs 1 100" "to_dbfs 1 100 \<le> 25"
    "80 \<le> to_dbfs 1 (10 ^ 8)" "to_dbfs 1 (10 ^ 8) \<le> 85"
  using to_dbfs_bounds [of 0] to_dbfs_bounds [of 2] to_dbfs_bounds [of 8] by (simp_all add: round_eval)

lemma tone_powers:
  assumes "processor_ok p" and "fp_size p = 64"
  shows "\<exists>q. compute_spectrum tone_fft p (replicate 64 (1, 0)) = Some q \<and> same_setup p q \<and> processor_ok q \<and>
    fp_power q = map (\<lambda>k. to_dbfs 1 (if k = 34 then 10 ^ 8 else if k = 33 \<or> k = 35 then 100 else 1)) [0..<64]"
proof -
  have nrm: "f32 (1 / f32 4096) = 1 / 4096" by (simp add: round_eval)
  have p: "power_of (1 / 4096) (64, 0) = 1" "power_of (1 / 4096) (640, 0) = 100" "power_of (1 / 4096) (640000, 0) = 10 ^ 8"
    by (simp_all add: power_of_def round_eval)
  have acc: "\<forall>k\<in>set [0..<64]. f32 (power_of (1 / 4096) (tone_fft ys ! shift_index 64 k)) =
      (if k = 34 then 10 ^ 8 else if k = 33 \<or> k = 35 then 100 else 1)" for ys
    by (simp add: upt_rec shift_index_def tone_fft_def p nth_append round_eval)
  have nf: "n_frames 64 64 = 1" "frame 64 (replicate 64 (1, 0)) 0 = replicate 64 (1, 0)"
    by (simp_all add: n_frames_def frame_def)
  obtain q where q: "compute_spectrum tone_fft p (replicate 64 (1, 0)) = Some q"
    using compute_spectrum_total_lemma [of p tone_fft] assms by auto
  then have "fp_power q = map (\<lambda>k. to_dbfs 1 (if k = 34 then 10 ^ 8 else if k = 33 \<or> k = 35 then 100 else 1)) [0..<64]"
    using assms(2) acc [of "windowed 64 (fp_window p) (replicate 64 (1, 0))"]
    by (auto simp: compute_spectrum_def Let_def nf accum_frame_def int_mul_def nrm simp del: upt_rec_numeral)
  then show ?thesis using q compute_spectrum_Some(1,2) [OF assms(1) q] assms(2) by simp
qed


lemma tone_run:
  assumes "processor_ok q" and "fp_size q = 64" and "fp_guard q = 8" and "fp_ref q = 32"
    and "fp_power q = map (\<lambda>k. to_dbfs 1 (if k = 34 then 10 ^ 8 else if k = 33 \<or> k = 35 then 100 else 1)) [0..<64]"
    and "detect_setup q (dwell_args tone_config) = Some (c, r)"
  shows "(33, 35) \<in> found_runs c \<and> strong_run c (33, 35)"
proof -
  define v1 v2 v3 where "v1 = to_dbfs 1 1" and "v2 = to_dbfs 1 100" and "v3 = to_dbfs 1 (10 ^ 8)"
  have v: "0 \<le> v1" "v1 \<le> 5" "20 \<le> v2" "v2 \<le> 25" "80 \<le> v3" "v3 \<le> 85"
    using tone_levels by (simp_all add: v1_def v2_def v3_def)
  have at: "bin_at (fp_power q) 32 = v1" "bin_at (fp_power q) 33 = v2" "bin_at (fp_power q) 34 = v3" "bin_at (fp_power q) 35 = v2"
    by (simp_all add: assms(5) bin_at_def v1_def v2_def v3_def del: upt_rec_numeral)
  have "take 8 (drop 28 (fp_power q)) = [v1, v1, v1, v1, v1, v2, v3, v2]"
    by (simp add: assms(5) drop_map take_map v1_def v2_def v3_def upt_rec del: upt_rec_numeral)
  then have noise: "estimate_noise q 28 35 = (v1, snd (estimate_noise q 28 35))"
    using v by (simp add: estimate_noise_def Let_def bin_at_def)
  have margin: "margin_bins 64 (da_usable (dwell_args tone_config)) = Some 28"
    by (simp add: margin_bins_def dwell_args_def int_cast_def trunc_def round_eval)
  have bins: "bins_for 1000 (f64 (10000000 / 64)) = Some 1"
    by (simp add: bins_for_def int_cast_def trunc_def round_eval)
  obtain q' where q': "estimate_noise q 28 35 = (v1, q')" using noise by blast
  then have same: "fp_power q' = fp_power q" "fp_size q' = 64" "fp_guard q' = 8" "fp_ref q' = 32"
    using assms(2-4) by (auto simp: estimate_noise_def Let_def)
  have c: "c = scan_params_of q' (dwell_args tone_config) 28 35 v1 1"
    using assms(2,6) q' margin bins by (auto simp: detect_setup_def Let_def dc_guard_def same dwell_args_def)
  have above: "sp_above c k = (f32 (v1 + 10) \<le> bin_at (fp_power q) k)" if "28 \<le> k" "k \<le> 35" for k
    using that by (simp add: c scan_params_of_def above_threshold_def Let_def same dwell_args_def with_hist_def
        local_noise_def ref_mean_def float_simps)
  have thr: "10 \<le> f32 (v1 + 10)" "f32 (v1 + 10) \<le> 15"
    using v by (auto intro!: r32.fl_ge_fixed r32.fl_le_fixed simp: float_simps)
  have ends: "sp_start c = 28" "sp_end c = 35" "sp_min_bins c = 1" "sp_papr c = 3" "sp_power c = fp_power q"
    by (simp_all add: c scan_params_of_def same dwell_args_def)
  have run: "[33..35] = [33, 34, 35 :: int]" by (simp add: upto_rec1)
  have "{33..35} = {33, 34, 35 :: int}" by auto
  then have "maximal_run (sp_above c) 28 35 33 35" using thr v by (simp add: maximal_run_def above at)
  moreover have "run_peak_of c 33 35 = v3" "run_mean_of c 33 35 \<le> 50"
  proof -
    have "f32 (0 + v2) \<le> 25" by (rule r32.fl_le_fixed) (use v in \<open>simp_all add: float_simps\<close>)
    then have "f32 (f32 (0 + v2) + v3) \<le> 110" by (intro r32.fl_le_fixed) (use v in \<open>simp_all add: float_simps\<close>)
    then have sum: "f32 (f32 (f32 (0 + v2) + v3) + v2) \<le> 135"
      by (intro r32.fl_le_fixed) (use v in \<open>simp_all add: float_simps\<close>)
    show "run_peak_of c 33 35 = v3" using v by (simp add: run_peak_of_def run_powers_def run ends at)
    show "run_mean_of c 33 35 \<le> 50" unfolding run_mean_of_def run_sum_of_def run_powers_def run
      by (rule r32.fl_le_fixed) (use sum in \<open>simp_all add: ends at float_simps\<close>)
  qed
  then have "15 \<le> f32 (run_peak_of c 33 35 - run_mean_of c 33 35)"
    using v by (intro r32.fl_ge_fixed) (simp_all add: float_simps)
  ultimately show ?thesis using ends by (simp add: found_runs_def reportable_def strong_run_def)
qed


subsection \<open>The tone is reported\<close>

lemma tone_found:
  assumes "sc_cfg sc = tone_config" and "scanner_ok sc" and "length (processors sc) = 1"
    and "compute_spectrum tone_fft (processors sc ! 0) (replicate 64 (1, 0)) = Some p"
    and "detect_setup p (dwell_args tone_config) = Some (c, q)"
  shows "(33, 35) \<in> found_runs c \<and> strong_run c (33, 35)"
proof -
  have ok: "processor_ok (processors sc ! 0)" "fp_size (processors sc ! 0) = 64" "fp_guard (processors sc ! 0) = 8"
    "fp_ref (processors sc ! 0) = 32"
    using assms(1-3) by (auto simp: scanner_ok_def channel_ok_def get_channel_def)
  show ?thesis using tone_powers [OF ok(1,2)] assms(4,5) ok by (intro tone_run [of p]) (auto simp: same_setup_def)
qed

text \<open>C2. What a dwell reports, end to end: on a channel of a scanner the detections are those of runs of bins of
  its spectrum, each run maximal above the CFAR threshold inside the usable band, wide enough and peaky
  enough, with the frequency, bandwidth and power of its run; and a run whose peak stands 15 dB above its
  mean is reported at once, whatever the history of the channel.\<close>

theorem dwell_reports_runs:
  assumes "scannable (sc_cfg sc)" and "scanner_ok sc" and "ch < length (processors sc)"
    and "fft_size (sweep (sc_cfg sc)) \<le> int (length samples)"
  shows "\<exists>p c q out sc'. compute_spectrum fft (processors sc ! ch) samples = Some p \<and>
     detect_setup p (dwell_args (sc_cfg sc)) = Some (c, q) \<and>
     process_dwell fft now ch center samples sc = Some (out, sc') \<and>
     set out \<subseteq> run_detection (sc_cfg sc) now ch center samples q c ` found_runs c \<and>
     run_detection (sc_cfg sc) now ch center samples q c ` {r \<in> found_runs c. strong_run c r} \<subseteq> set out"
  by (rule dwell_runs [OF assms])

theorem dwell_reports_runs_witness:
  "\<exists>sc p c q out sc'. new_scanner tone_config = Inr sc \<and>
     compute_spectrum tone_fft (processors sc ! 0) (replicate 64 (1, 0)) = Some p \<and>
     detect_setup p (dwell_args tone_config) = Some (c, q) \<and>
     process_dwell tone_fft 0 0 100 (replicate 64 (1, 0)) sc = Some (out, sc') \<and>
     run_detection tone_config 0 0 100 (replicate 64 (1, 0)) q c (33, 35) \<in> set out"
proof -
  obtain sc where sc: "new_scanner tone_config = Inr sc" and ok: "sc_cfg sc = tone_config" "scanner_ok sc"
      "length (processors sc) = 1"
    using new_scanner_Inr [of tone_config] new_scanner_ok tone_scannable by (fastforce simp: scannable_def)
  obtain p c q out sc' where *: "compute_spectrum tone_fft (processors sc ! 0) (replicate 64 (1, 0)) = Some p"
      "detect_setup p (dwell_args tone_config) = Some (c, q)"
      "process_dwell tone_fft 0 0 100 (replicate 64 (1, 0)) sc = Some (out, sc')"
    and out: "run_detection tone_config 0 0 100 (replicate 64 (1, 0)) q c ` {r \<in> found_runs c. strong_run c r} \<subseteq> set out"
    using dwell_reports_runs [of sc 0 "replicate 64 (1, 0)" tone_fft 0 100] ok tone_scannable by auto
  then show ?thesis using tone_found [OF ok *(1,2)] sc by blast
qed

lemma tone_dwell:
  assumes "sc_cfg sc = tone_config" and "scanner_ok sc" and "length (processors sc) = 1"
  shows "\<exists>d out sc'. process_dwell tone_fft now 0 center (replicate 64 (1, 0)) sc = Some (out, sc') \<and> d \<in> set out"
proof -
  obtain p c q out sc' where *: "compute_spectrum tone_fft (processors sc ! 0) (replicate 64 (1, 0)) = Some p"
      "detect_setup p (dwell_args tone_config) = Some (c, q)"
      "process_dwell tone_fft now 0 center (replicate 64 (1, 0)) sc = Some (out, sc')"
    and out: "run_detection tone_config now 0 center (replicate 64 (1, 0)) q c ` {r \<in> found_runs c. strong_run c r} \<subseteq> set out"
    using dwell_runs [of sc 0 "replicate 64 (1, 0)" tone_fft now center] assms tone_scannable by auto
  have "(33, 35) \<in> found_runs c \<and> strong_run c (33, 35)" by (rule tone_found [OF assms *(1,2)])
  then have "run_detection tone_config now 0 center (replicate 64 (1, 0)) q c (33, 35) \<in> set out"
    using out by (auto intro!: imageI)
  then show ?thesis using *(3) by blast
qed


lemma tone_next:
  assumes "src_cfg s = tone_config" and "src_running s" and "ch_accum s = [[]]" and "current_center_hz s = 0"
  shows "\<exists>s'. next_dwell toy_wire [Packet (toy_packet 4 100 64 1)] s =
    (Delivered \<lparr>dwell_center_hz = 100, ch_samples = [replicate 64 (1, 0)]\<rparr>, s', [])"
  using assms by (simp add: next_dwell_def toy_on_packet_run toy_accept)

definition tone_round :: "(open_env, nat \<times> int, recv_event list) round" where
  "tone_round = \<lparr>rd_open = sample_env, rd_close = (256, 1), rd_visits = [([Packet (toy_packet 4 100 64 1)], True, \<lambda>ch. 0)]\<rparr>"

lemma tone_reported:
  assumes "new_scanner tone_config = Inr sc"
  shows "\<exists>d e dets sc' st'. sweep_loop (task_open (tree_api sample_reply)) task_close (task_next toy_wire) tone_fft [tone_round] sc
    (new_source tone_config [] False, empty_world, []) = Some (e, dets, sc', st') \<and> d \<in> set dets"
proof -
  obtain s w where op: "open_source (tree_api sample_reply) sample_env (new_source tone_config [] False) empty_world =
      Some (Inr (), s, w)" and s: "src_cfg s = tone_config" "src_running s" "ch_accum s = [[]]" "current_center_hz s = 0"
    using sample_open_of [OF tone_sweepable] by auto
  obtain s' where nx: "next_dwell toy_wire [Packet (toy_packet 4 100 64 1)] s =
      (Delivered \<lparr>dwell_center_hz = 100, ch_samples = [replicate 64 (1, 0)]\<rparr>, s', [])"
    using tone_next [OF s] by blast
  have ok: "sc_cfg sc = tone_config" "scanner_ok sc" "length (processors sc) = 1"
    using new_scanner_ok [OF assms] by auto
  obtain d out sc' where "process_dwell tone_fft 0 0 100 (replicate 64 (1, 0)) sc = Some (out, sc')" "d \<in> set out"
    using tone_dwell [OF ok] by blast
  then show ?thesis using op nx ok
    by (cases "task_close (256, 1) (s', w, [])") (auto simp: tone_round_def task_open_def task_next_def process_dwell_all_def)
qed

end
