(* ===== verification/SweepThread.thy ===== *)
theory SweepThread
  imports Tone ScanThread
begin

section \<open>The sweep thread with its data (\<open>SpectrumScanner.cpp\<close>, \<open>TaskManagerIqSource.cpp\<close>)\<close>

text \<open>
  \<open>SweepLoop\<close> is the loop run alone, \<open>ScanThread\<close> its control under \<open>stop\<close> from another thread. Here is
  the thread as it runs: each move goes from one access of a shared flag to the next and does what the
  code does on the way, on the source, the sockets, the scanner and the reported detections. The
  machine refines both: its control is a run of \<open>ScanThread\<close>, and whatever the interleaving, its data
  are those of a run of \<open>sweep_loop\<close> with the same calls of \<open>open\<close>.

  \<open>open\<close> and \<open>close\<close> are one move each: neither reads the source's flag, \<open>open\<close> sets it as its last
  statement and \<open>close\<close> clears it, so a \<open>stop\<close> in the middle of one is the same as before or after it.
\<close>

subsection \<open>The machine\<close>

record sweep_thread =
  scanning :: bool
  sw_pc :: thread_pc
  sw_stop :: stop_phase
  sw_src :: task_src
  sw_world :: world
  quiet_ms :: int
  sw_dwell :: "dwell option"
  sw_scanner :: scanner
  sw_reported :: "detection list"
  sw_dwells :: nat

datatype sweep_action = Go | OpenWith open_env | GetEvent recv_event | Report "nat \<Rightarrow> timestamp"
  | CloseAt nat int | PauseEnds | StartSweep | ClearFlag | ClearSource | JoinSweep

definition new_thread :: "scanner \<Rightarrow> task_src \<Rightarrow> world \<Rightarrow> sweep_thread" where
  "new_thread sc src w = \<lparr>scanning = False, sw_pc = NoThread, sw_stop = NotStopping, sw_src = src, sw_world = w,
     quiet_ms = 0, sw_dwell = None, sw_scanner = sc, sw_reported = [], sw_dwells = 0\<rparr>"

text \<open>The moves that test a flag.\<close>

definition go_move :: "bool \<Rightarrow> sweep_thread \<Rightarrow> sweep_thread option" where
  "go_move pause s = (case sw_pc s of
       LoopHead \<Rightarrow> Some (s\<lparr>sw_pc := (if scanning s then InOpen else LeftLoop)\<rparr>)
     | Retrying i \<Rightarrow> Some (s\<lparr>sw_pc := (if i < 50 \<and> scanning s then Retrying (i + 1) else LoopHead)\<rparr>)
     | DwellHead \<Rightarrow> Some (s\<lparr>sw_pc := (if scanning s then NextHead else Closing), quiet_ms := 0, sw_dwell := None\<rparr>)
     | NextHead \<Rightarrow> Some (s\<lparr>sw_pc := (if src_running (sw_src s) then Receiving else Closing)\<rparr>)
     | GotDwell \<Rightarrow> Some (if scanning s then s\<lparr>sw_pc := Callbacks, sw_dwells := sw_dwells s + 1\<rparr> else s\<lparr>sw_pc := Closing\<rparr>)
     | Closed \<Rightarrow> Some (s\<lparr>sw_pc := (if scanning s \<and> pause then Pausing else LoopHead)\<rparr>)
     | Pausing \<Rightarrow> Some (s\<lparr>sw_pc := (if scanning s then Pausing else LoopHead)\<rparr>)
     | _ \<Rightarrow> None)"

text \<open>What one \<open>recvfrom\<close> of \<open>next\<close> came back with.\<close>

definition receive_move :: "wire_api \<Rightarrow> recv_event \<Rightarrow> sweep_thread \<Rightarrow> sweep_thread option" where
  "receive_move wa e s = (case e of
       Interrupted \<Rightarrow> Some (s\<lparr>sw_pc := NextHead\<rparr>)
     | WouldBlock \<Rightarrow> (let ms = quiet_ms s + 100
         in Some (s\<lparr>sw_pc := (if no_data_limit (sw_src s) \<le> ms then Closing else NextHead), quiet_ms := ms\<rparr>))
     | RecvFailed \<Rightarrow> Some (s\<lparr>sw_pc := Closing\<rparr>)
     | Packet b \<Rightarrow> (case on_packet wa b (sw_src s) of
           (Some d, src) \<Rightarrow> Some (s\<lparr>sw_pc := GotDwell, sw_src := src, sw_dwell := Some d\<rparr>)
         | (None, src) \<Rightarrow> Some (s\<lparr>sw_pc := NextHead, sw_src := src, quiet_ms := 0\<rparr>))
     | StopSeen \<Rightarrow> None)"

definition report_move :: "(sample list \<Rightarrow> sample list) \<Rightarrow> (nat \<Rightarrow> timestamp) \<Rightarrow> sweep_thread \<Rightarrow> sweep_thread option" where
  "report_move fft now s = Option.bind (sw_dwell s) (\<lambda>d. map_option (\<lambda>(dets, sc).
     s\<lparr>sw_pc := DwellHead, sw_scanner := sc, sw_reported := sw_reported s @ dets\<rparr>)
     (process_dwell_all fft now d (sw_scanner s)))"

definition open_move :: "'j json_api \<Rightarrow> open_env \<Rightarrow> sweep_thread \<Rightarrow> sweep_thread option" where
  "open_move api env s = map_option (\<lambda>(r, src, w).
     s\<lparr>sw_pc := (case r of Inl _ \<Rightarrow> FailedOpen | Inr _ \<Rightarrow> DwellHead), sw_src := src, sw_world := w\<rparr>)
     (open_source api env (sw_src s) (sw_world s))"

definition close_move :: "nat \<Rightarrow> int \<Rightarrow> thread_pc \<Rightarrow> sweep_thread \<Rightarrow> sweep_thread" where
  "close_move ns now_ms pc s = (case close_source ns now_ms (sw_src s) (sw_world s) of (src, w) \<Rightarrow>
     s\<lparr>sw_pc := pc, sw_src := src, sw_world := w\<rparr>)"

text \<open>One move of the sweep thread or, in the last four, of the thread that calls \<open>start\<close> and \<open>stop\<close>.\<close>

definition sweep_move :: "'j json_api \<Rightarrow> wire_api \<Rightarrow> (sample list \<Rightarrow> sample list) \<Rightarrow> bool \<Rightarrow> sweep_action \<Rightarrow>
   sweep_thread \<Rightarrow> sweep_thread option" where
  "sweep_move api wa fft pause a s = (case a of
       Go \<Rightarrow> go_move pause s
     | OpenWith env \<Rightarrow> if sw_pc s = InOpen then open_move api env s else None
     | GetEvent e \<Rightarrow> if sw_pc s = Receiving then receive_move wa e s else None
     | Report now \<Rightarrow> if sw_pc s = Callbacks then report_move fft now s else None
     | CloseAt ns now_ms \<Rightarrow> if sw_pc s = FailedOpen then Some (close_move ns now_ms (Retrying 0) s)
         else if sw_pc s = Closing then Some (close_move ns now_ms Closed s) else None
     | PauseEnds \<Rightarrow> if sw_pc s = Pausing then Some (s\<lparr>sw_pc := LoopHead\<rparr>) else None
     | StartSweep \<Rightarrow> if sw_pc s = NoThread \<and> sw_stop s \<in> {NotStopping, Joined}
         then Some (s\<lparr>scanning := True, sw_pc := LoopHead, sw_stop := NotStopping\<rparr>) else None
     | ClearFlag \<Rightarrow> if sw_stop s \<in> {NotStopping, Joined} then Some (s\<lparr>scanning := False, sw_stop := FlagCleared\<rparr>) else None
     | ClearSource \<Rightarrow> if sw_stop s = FlagCleared then Some (s\<lparr>sw_src := stop_source (sw_src s), sw_stop := WaitsJoin\<rparr>) else None
     | JoinSweep \<Rightarrow> if sw_stop s = WaitsJoin \<and> sw_pc s \<in> {NoThread, LeftLoop}
         then Some (s\<lparr>sw_pc := NoThread, sw_stop := Joined\<rparr>) else None)"

fun sweep_run :: "'j json_api \<Rightarrow> wire_api \<Rightarrow> (sample list \<Rightarrow> sample list) \<Rightarrow> bool \<Rightarrow> sweep_action list \<Rightarrow>
   sweep_thread \<Rightarrow> sweep_thread option" where
  "sweep_run api wa fft pause [] s = Some s"
| "sweep_run api wa fft pause (a # as) s = Option.bind (sweep_move api wa fft pause a s) (sweep_run api wa fft pause as)"

definition main_moves :: "sweep_action \<Rightarrow> bool" where
  "main_moves a \<longleftrightarrow> a \<in> {StartSweep, ClearFlag, ClearSource, JoinSweep}"

text \<open>The calls of \<open>open\<close> in a run.\<close>

fun opens :: "sweep_action list \<Rightarrow> open_env list" where
  "opens [] = []"
| "opens (a # as) = (case a of OpenWith env \<Rightarrow> env # opens as | _ \<Rightarrow> opens as)"

lemma opens_append [simp]: "opens (as @ bs) = opens as @ opens bs"
  by (induction as) (auto split: sweep_action.split)

interpretation sweeping: machine "sweep_move api wa fft pause" "sweep_run api wa fft pause" for api :: "'j json_api" and wa fft pause
  by unfold_locales simp_all

lemmas sweep_run_append = sweeping.run_append

subsection \<open>The source's flag\<close>

lemma close_fd_running: "close_fd s w = (s', w') \<Longrightarrow> src_running s' = src_running s"
  by (auto simp: close_fd_def split: option.splits)

lemma bind_udp_running: "bind_udp sock bound port s w = (r, s', w') \<Longrightarrow> src_running s' = src_running s"
  by (auto simp: bind_udp_def Let_def split: option.splits if_splits prod.splits dest!: close_fd_running)

lemma submit_task_running: "submit_task api env s w = Some (r, s', w') \<Longrightarrow> src_running s' = src_running s"
  by (auto simp: submit_task_def Let_def split: option.splits if_splits prod.splits)

lemma finish_open_running:
  assumes "finish_open env local_port ctrl s w = (r, s', w')"
  shows "src_running s' = (case r of Inl _ \<Rightarrow> src_running s | Inr _ \<Rightarrow> True)"
proof -
  let ?s = "s\<lparr>prebound_port := 0\<rparr>"
  obtain s3 w3 where c: "close_fd ?s w = (s3, w3)" by fastforce
  obtain r4 s4 w4 where b: "bind_udp (env_socket2 env) (env_bound2 env) ctrl s3 w3 = (r4, s4, w4)"
    by (metis prod_cases3)
  show ?thesis using assms c b close_fd_running [OF c] bind_udp_running [OF b]
    unfolding finish_open_def Let_def by (auto split: if_split_asm sum.split_asm prod.split_asm)
qed

lemma open_source_running:
  assumes "open_source api env s w = Some (r, s', w')"
  shows "src_running s' = (case r of Inl _ \<Rightarrow> src_running s | Inr _ \<Rightarrow> True)"
  using assms
proof (cases rule: open_source_cases)
  case (1 e)
  then show ?thesis using bind_udp_running [OF 1(1)] by simp
next
  case (2 s1 w1 port e)
  then show ?thesis using bind_udp_running [OF 2(1)] submit_task_running [OF 2(2)] by simp
next
  case (3 s1 w1 port ctrl s2 w2)
  then show ?thesis using bind_udp_running [OF 3(1)] submit_task_running [OF 3(2)] finish_open_running [OF 3(3)]
    by (simp split: sum.split)
qed

text \<open>A packet is handled without regard to the flag.\<close>

definition with_flag :: "bool \<Rightarrow> task_src \<Rightarrow> task_src" where
  "with_flag f s = s\<lparr>src_running := f\<rparr>"

lemma with_flag_select [simp]:
  "src_running (with_flag f s) = f" "src_cfg (with_flag f s) = src_cfg s" "ch_accum (with_flag f s) = ch_accum s"
  "current_center_hz (with_flag f s) = current_center_hz s" "first_task_packet (with_flag f s) = first_task_packet s"
  "with_flag f (with_flag f' s) = with_flag f s" "with_flag (src_running s) s = s" "stop_source s = with_flag False s"
  by (simp_all add: with_flag_def stop_source_def)

lemma with_flag_update:
  "with_flag f s\<lparr>current_center_hz := x\<rparr> = with_flag f (s\<lparr>current_center_hz := x\<rparr>)"
  "with_flag f s\<lparr>first_task_packet := y\<rparr> = with_flag f (s\<lparr>first_task_packet := y\<rparr>)"
  "with_flag f s\<lparr>resume_hz := x\<rparr> = with_flag f (s\<lparr>resume_hz := x\<rparr>)"
  "with_flag f s\<lparr>ch_accum := xs\<rparr> = with_flag f (s\<lparr>ch_accum := xs\<rparr>)"
  by (simp_all add: with_flag_def)

lemma append_samples_flag: "append_samples ch xs (with_flag f s) = with_flag f (append_samples ch xs s)"
  by (simp add: append_samples_def with_flag_update)

lemma take_dwell_flag: "take_dwell (with_flag f s) = map_prod id (with_flag f) (take_dwell s)"
  by (simp add: take_dwell_def reset_accum_def with_flag_update)

lemma advance_resume_flag: "advance_resume wa b (with_flag f s) = with_flag f (advance_resume wa b s)"
  by (simp add: advance_resume_def Let_def with_flag_update)

lemma accept_packet_flag: "accept_packet wa b (with_flag f s) = map_prod id (with_flag f) (accept_packet wa b s)"
  by (simp add: accept_packet_def Let_def with_flag_update append_samples_flag take_dwell_flag case_prod_beta)

lemma on_packet_flag: "on_packet wa b (with_flag f s) = map_prod id (with_flag f) (on_packet wa b s)"
  by (simp add: on_packet_def Let_def with_flag_update advance_resume_flag accept_packet_flag)

lemma on_packet_running: "on_packet wa b s = (d, s') \<Longrightarrow> src_running s' = src_running s"
  using on_packet_flag [of wa b "src_running s" s] by (metis map_prod_simp prod.inject with_flag_select(1,7))

lemma close_source_flag: "close_source ns now_ms (with_flag f s) w = close_source ns now_ms s w"
  by (simp add: close_source_def with_flag_def)

lemma close_source_running: "close_source ns now_ms s w = (s', w') \<Longrightarrow> \<not> src_running s'"
  by (auto simp: close_source_def split: prod.splits dest!: close_fd_running dest: send_task_stop_fields(4))

subsection \<open>Its control is that of \<open>ScanThread\<close>\<close>

definition control :: "sweep_thread \<Rightarrow> scan_thread" where
  "control s = \<lparr>running = scanning s, src_flag = src_running (sw_src s), held = (sw_pc s \<in> opened_pcs),
     tpc = sw_pc s, phase = sw_stop s, processed = sw_dwells s\<rparr>"

text \<open>What a move is to the control, by where it leads.\<close>

definition scan_action_of :: "sweep_action \<Rightarrow> thread_pc \<Rightarrow> scan_action" where
  "scan_action_of a pc = (case a of
       OpenWith env \<Rightarrow> if pc = DwellHead then OpenReturns else OpenThrows
     | GetEvent e \<Rightarrow> if pc = NextHead then RecvNothing else if pc = Closing then RecvEnds else RecvDwell
     | PauseEnds \<Rightarrow> PauseOver | StartSweep \<Rightarrow> StartThread | ClearFlag \<Rightarrow> StopFlag
     | ClearSource \<Rightarrow> StopSource | JoinSweep \<Rightarrow> StopJoin
     | _ \<Rightarrow> Run)"

lemma control_fields [simp]:
  "running (control s) = scanning s" "src_flag (control s) = src_running (sw_src s)" "tpc (control s) = sw_pc s"
  "phase (control s) = sw_stop s" "processed (control s) = sw_dwells s" "held (control s) = (sw_pc s \<in> opened_pcs)"
  by (simp_all add: control_def)

lemmas control_eval = scan_move_def thread_move_def main_move_def of_main_def control_def scan_action_of_def opened_pcs_def

lemma scan_action_main [simp]: "of_main (scan_action_of a pc) = main_moves a"
  by (cases a) (simp_all add: scan_action_of_def of_main_def main_moves_def)

lemma go_move_control: "go_move pause s = Some s' \<Longrightarrow> thread_move pause Run (control s) = Some (control s')"
  by (cases "sw_pc s") (auto simp: go_move_def thread_move_def control_def opened_pcs_def)

lemma receive_move_control:
  assumes "receive_move wa e s = Some s'" and "sw_pc s = Receiving"
  shows "thread_move pause (scan_action_of (GetEvent e) (sw_pc s')) (control s) = Some (control s')"
proof (cases e)
  case (Packet b)
  obtain d src where p: "on_packet wa b (sw_src s) = (d, src)" by fastforce
  then show ?thesis using assms Packet on_packet_running [OF p]
    by (cases d) (auto simp: receive_move_def thread_move_def control_def scan_action_of_def opened_pcs_def)
qed (use assms in \<open>auto simp: receive_move_def Let_def thread_move_def control_def scan_action_of_def opened_pcs_def split: if_splits\<close>)

lemma open_move_control:
  assumes "open_move api env s = Some s'" and "sw_pc s = InOpen"
  shows "thread_move pause (scan_action_of (OpenWith env) (sw_pc s')) (control s) = Some (control s')"
proof -
  obtain r src w where op: "open_source api env (sw_src s) (sw_world s) = Some (r, src, w)"
    using assms(1) by (auto simp: open_move_def)
  then show ?thesis using assms open_source_running [OF op]
    by (cases r) (auto simp: open_move_def thread_move_def control_def scan_action_of_def opened_pcs_def)
qed

lemma close_move_control:
  assumes "sw_pc s = FailedOpen \<and> pc = Retrying 0 \<or> sw_pc s = Closing \<and> pc = Closed"
  shows "thread_move pause Run (control s) = Some (control (close_move ns now_ms pc s))"
proof -
  obtain src w where cl: "close_source ns now_ms (sw_src s) (sw_world s) = (src, w)" by fastforce
  then show ?thesis using assms close_source_running [OF cl]
    by (auto simp: close_move_def thread_move_def control_def opened_pcs_def)
qed

lemma sweep_move_control:
  assumes "sweep_move api wa fft pause a s = Some s'"
  shows "scan_move pause (scan_action_of a (sw_pc s')) (control s) = Some (control s')"
proof (cases a)
  case Go
  then show ?thesis using assms go_move_control [of pause s s']
    by (simp add: sweep_move_def scan_move_def main_moves_def) (simp add: scan_action_of_def)
next
  case (OpenWith env)
  then show ?thesis using assms open_move_control [of api env s s' pause]
    by (simp add: sweep_move_def scan_move_def main_moves_def split: if_splits)
next
  case (GetEvent e)
  then show ?thesis using assms receive_move_control [of wa e s s' pause]
    by (simp add: sweep_move_def scan_move_def main_moves_def split: if_splits)
next
  case (CloseAt ns now_ms)
  then show ?thesis using assms close_move_control [of s _ pause ns now_ms]
    by (auto simp: sweep_move_def scan_move_def main_moves_def scan_action_of_def of_main_def split: if_splits)
qed (use assms in \<open>auto simp: sweep_move_def report_move_def control_eval bind_eq_Some_conv stop_source_def split: if_splits\<close>)

interpretation thread_control: simulation "sweep_move api wa fft pause" "sweep_run api wa fft pause" "scan_move pause" "scan_run pause"
  control "\<lambda>a s'. scan_action_of a (sw_pc s')" for api :: "'j json_api" and wa fft pause
  by unfold_locales (rule sweep_move_control)

lemma control_run:
  assumes "sweep_run api wa fft pause as s = Some s'"
  shows "\<exists>cs. scan_run pause cs (control s) = Some (control s') \<and> length cs = length as \<and>
    (list_all (\<lambda>a. \<not> main_moves a) as \<longrightarrow> list_all (\<lambda>a. \<not> of_main a) cs)"
  using thread_control.run_simulates [OF assms] by (fastforce simp: list_all_iff)

lemma control_reach:
  assumes "sweep_run api wa fft pause as s = Some s'" and "scan_reach pause (control s)"
  shows "scan_reach pause (control s')"
  using control_run [OF assms(1)] scan_reach_run [OF assms(2)] by blast

subsection \<open>Its data are those of a sequential run\<close>

text \<open>
  How far a run of the loop has come, said by what is still to come: after these events \<open>next\<close> goes on
  from this state, after these rounds the loop does, and in this round, begun with the last of the
  \<open>open\<close>s \<open>os\<close>, the inner loop does.
\<close>

definition after_events :: "wire_api \<Rightarrow> task_src \<Rightarrow> int \<Rightarrow> task_src \<Rightarrow> bool" where
  "after_events wa s0 ms s \<longleftrightarrow> (\<exists>es. \<forall>es'. next_loop wa (es @ es') 0 s0 = next_loop wa es' ms s)"

lemma after_no_events: "after_events wa s 0 s"
  unfolding after_events_def by (rule exI [of _ "[]"]) simp

lemma after_event:
  assumes "after_events wa s0 ms s" and "\<And>es. next_loop wa (e # es) ms s = next_loop wa es ms' s'"
  shows "after_events wa s0 ms' s'"
proof -
  obtain es where "\<forall>es'. next_loop wa (es @ es') 0 s0 = next_loop wa es' ms s"
    using assms(1) by (auto simp: after_events_def)
  then have "\<forall>es'. next_loop wa ((es @ [e]) @ es') 0 s0 = next_loop wa es' ms' s'"
    by (simp add: assms(2) del: next_loop.simps)
  then show ?thesis unfolding after_events_def by blast
qed

definition resumes :: "detection list \<Rightarrow> (loop_end \<times> detection list \<times> scanner \<times> 's) option \<Rightarrow>
   (loop_end \<times> detection list \<times> scanner \<times> 's) option" where
  "resumes dets = map_option (\<lambda>(e, dets', q). (e, dets @ dets', q))"

lemma resumes_simps [simp]: "resumes dets None = None" "resumes dets (Some (e, ds, sc, s)) = Some (e, dets @ ds, sc, s)"
  "resumes dets (resumes ds r) = resumes (dets @ ds) r" "resumes [] r = r"
  by (cases r; simp add: resumes_def case_prod_beta option.map_comp comp_def)+

definition after_rounds :: "('o, 's) open_op \<Rightarrow> ('k, 's) close_op \<Rightarrow> ('v, 's) next_op \<Rightarrow> (sample list \<Rightarrow> sample list) \<Rightarrow>
   scanner \<Rightarrow> 's \<Rightarrow> ('o, 'k, 'v) round list \<Rightarrow> detection list \<Rightarrow> scanner \<Rightarrow> 's \<Rightarrow> bool" where
  "after_rounds opn cls nxt fft sc0 s0 rs dets sc s \<longleftrightarrow>
     (\<forall>rs'. sweep_loop opn cls nxt fft (rs @ rs') sc0 s0 = resumes dets (sweep_loop opn cls nxt fft rs' sc s))"

definition in_round :: "('o, 's) open_op \<Rightarrow> ('k, 's) close_op \<Rightarrow> ('v, 's) next_op \<Rightarrow> (sample list \<Rightarrow> sample list) \<Rightarrow>
   scanner \<Rightarrow> 's \<Rightarrow> 'o list \<Rightarrow> detection list \<Rightarrow> scanner \<Rightarrow> 's \<Rightarrow> bool" where
  "in_round opn cls nxt fft sc0 s0 os dets sc s \<longleftrightarrow> (\<exists>rs env sc1 s1 s2 vs dets1 dets2.
     os = map rd_open rs @ [env] \<and> after_rounds opn cls nxt fft sc0 s0 rs dets1 sc1 s1 \<and> opn env s1 = Some (True, s2) \<and>
     (\<forall>vs'. dwell_loop nxt fft (vs @ vs') sc1 s2 = resumes dets2 (dwell_loop nxt fft vs' sc s)) \<and> dets = dets1 @ dets2)"

definition at_close :: "('o, 's) open_op \<Rightarrow> ('k, 's) close_op \<Rightarrow> ('v, 's) next_op \<Rightarrow> (sample list \<Rightarrow> sample list) \<Rightarrow>
   scanner \<Rightarrow> 's \<Rightarrow> 'o list \<Rightarrow> detection list \<Rightarrow> scanner \<Rightarrow> 's \<Rightarrow> bool" where
  "at_close opn cls nxt fft sc0 s0 os dets sc s \<longleftrightarrow> (\<forall>k. \<exists>rs. os = map rd_open rs \<and>
     after_rounds opn cls nxt fft sc0 s0 rs dets sc (cls k s))"

lemma after_no_rounds: "after_rounds opn cls nxt fft sc s [] [] sc s"
  by (simp add: after_rounds_def)

lemma failed_open_at_close:
  fixes cls :: "('k, 's) close_op"
  assumes "after_rounds opn cls nxt fft sc0 s0 rs dets sc s1" and "opn env s1 = Some (False, s)"
  shows "at_close opn cls nxt fft sc0 s0 (map rd_open rs @ [env]) dets sc s"
  unfolding at_close_def
proof
  fix k :: 'k
  let ?rs = "rs @ [\<lparr>rd_open = env, rd_close = k, rd_visits = []\<rparr>]"
  have "after_rounds opn cls nxt fft sc0 s0 ?rs dets sc (cls k s)"
    using assms by (simp add: after_rounds_def)
  then show "\<exists>rs'. map rd_open rs @ [env] = map rd_open rs' \<and> after_rounds opn cls nxt fft sc0 s0 rs' dets sc (cls k s)"
    by (intro exI [of _ ?rs]) simp
qed

lemma open_in_round:
  assumes "after_rounds opn cls nxt fft sc0 s0 rs dets sc s1" and "opn env s1 = Some (True, s)"
  shows "in_round opn cls nxt fft sc0 s0 (map rd_open rs @ [env]) dets sc s"
  unfolding in_round_def
  by (rule exI [of _ rs], rule exI [of _ env], rule exI [of _ sc], rule exI [of _ s1], rule exI [of _ s],
      rule exI [of _ "[]"], rule exI [of _ dets], rule exI [of _ "[]"]) (use assms in simp)

lemma dwell_in_round:
  assumes "in_round opn cls nxt fft sc0 s0 os dets sc s" and "nxt v s = (Delivered d, s')"
    and "process_dwell_all fft now d sc = Some (ds, sc')"
  shows "in_round opn cls nxt fft sc0 s0 os (dets @ ds) sc' s'"
proof -
  obtain rs env sc1 s1 s2 vs dets1 dets2 where
    r: "os = map rd_open rs @ [env]" "after_rounds opn cls nxt fft sc0 s0 rs dets1 sc1 s1" "opn env s1 = Some (True, s2)"
    and v: "\<forall>vs'. dwell_loop nxt fft (vs @ vs') sc1 s2 = resumes dets2 (dwell_loop nxt fft vs' sc s)"
    and d: "dets = dets1 @ dets2" using assms(1) by (auto simp: in_round_def)
  have "\<forall>vs'. dwell_loop nxt fft ((vs @ [(v, True, now)]) @ vs') sc1 s2 = resumes (dets2 @ ds) (dwell_loop nxt fft vs' sc' s')"
  proof
    fix vs'
    have "dwell_loop nxt fft ((v, True, now) # vs') sc s = resumes ds (dwell_loop nxt fft vs' sc' s')"
      using assms(2,3) by (simp add: resumes_def)
    then show "dwell_loop nxt fft ((vs @ [(v, True, now)]) @ vs') sc1 s2 = resumes (dets2 @ ds) (dwell_loop nxt fft vs' sc' s')"
      using v by simp
  qed
  then show ?thesis unfolding in_round_def using r d by (metis append.assoc)
qed

lemma round_at_close:
  fixes cls :: "('k, 's) close_op"
  assumes "in_round opn cls nxt fft sc0 s0 os dets sc s" and "dwell_loop nxt fft vs' sc s = Some (Stopped, [], sc, s')"
  shows "at_close opn cls nxt fft sc0 s0 os dets sc s'"
  unfolding at_close_def
proof
  fix k :: 'k
  obtain rs env sc1 s1 s2 vs dets1 dets2 where
    r: "os = map rd_open rs @ [env]" "after_rounds opn cls nxt fft sc0 s0 rs dets1 sc1 s1" "opn env s1 = Some (True, s2)"
    and v: "\<forall>vs'. dwell_loop nxt fft (vs @ vs') sc1 s2 = resumes dets2 (dwell_loop nxt fft vs' sc s)"
    and d: "dets = dets1 @ dets2" using assms(1) by (auto simp: in_round_def)
  let ?r = "\<lparr>rd_open = env, rd_close = k, rd_visits = vs @ vs'\<rparr>"
  have "dwell_loop nxt fft (vs @ vs') sc1 s2 = Some (Stopped, dets2, sc, s')" using v assms(2) by simp
  then have "sweep_loop opn cls nxt fft (?r # rs') sc1 s1 = resumes dets2 (sweep_loop opn cls nxt fft rs' sc (cls k s'))" for rs'
    using r(3) by (simp add: resumes_def)
  then have "after_rounds opn cls nxt fft sc0 s0 (rs @ [?r]) dets sc (cls k s')"
    using r(2) d by (simp add: after_rounds_def)
  then show "\<exists>rs. os = map rd_open rs \<and> after_rounds opn cls nxt fft sc0 s0 rs dets sc (cls k s')"
    using r(1) by (intro exI [of _ "rs @ [?r]"]) simp
qed

text \<open>The relation between a state of the thread and the sequential run it has got through. Inside a round the
  sequential source runs until it is closed, whatever \<open>stop\<close> did to the flag of the real one.\<close>

definition tracks :: "'j json_api \<Rightarrow> wire_api \<Rightarrow> (sample list \<Rightarrow> sample list) \<Rightarrow> scanner \<Rightarrow> task_state \<Rightarrow>
   open_env list \<Rightarrow> sweep_thread \<Rightarrow> bool" where
  "tracks api wa fft sc0 st0 os s \<longleftrightarrow>
     (let inside = (\<lambda>src. in_round (task_open api) task_close (task_next wa) fft sc0 st0 os (sw_reported s)
            (sw_scanner s) (src, sw_world s, []));
          src = with_flag True (sw_src s)
      in case sw_pc s of
        DwellHead \<Rightarrow> inside src
      | NextHead \<Rightarrow> \<exists>s0. inside s0 \<and> after_events wa s0 (quiet_ms s) src
      | Receiving \<Rightarrow> \<exists>s0. inside s0 \<and> after_events wa s0 (quiet_ms s) src
      | GotDwell \<Rightarrow> \<exists>s0 es d. inside s0 \<and> next_loop wa es 0 s0 = (Delivered d, src, []) \<and> sw_dwell s = Some d
      | Callbacks \<Rightarrow> \<exists>s0 es d. inside s0 \<and> next_loop wa es 0 s0 = (Delivered d, src, []) \<and> sw_dwell s = Some d
      | FailedOpen \<Rightarrow> at_close (task_open api) task_close (task_next wa) fft sc0 st0 os (sw_reported s)
            (sw_scanner s) (sw_src s, sw_world s, [])
      | Closing \<Rightarrow> at_close (task_open api) task_close (task_next wa) fft sc0 st0 os (sw_reported s)
            (sw_scanner s) (sw_src s, sw_world s, [])
      | _ \<Rightarrow> \<not> src_running (sw_src s) \<and> (\<exists>rs. os = map rd_open rs \<and>
            after_rounds (task_open api) task_close (task_next wa) fft sc0 st0 rs (sw_reported s)
            (sw_scanner s) (sw_src s, sw_world s, [])))"

definition between_rounds :: "thread_pc \<Rightarrow> bool" where
  "between_rounds pc \<longleftrightarrow> pc \<notin> opened_pcs - {InOpen}"

lemma tracks_between: "between_rounds (sw_pc s) \<Longrightarrow> tracks api wa fft sc0 st0 os s \<longleftrightarrow> \<not> src_running (sw_src s) \<and>
    (\<exists>rs. os = map rd_open rs \<and> after_rounds (task_open api) task_close (task_next wa) fft sc0 st0 rs (sw_reported s)
        (sw_scanner s) (sw_src s, sw_world s, []))"
  by (cases "sw_pc s") (simp_all add: tracks_def between_rounds_def opened_pcs_def)

lemma task_next_from: "task_next wa es (s, w, []) = (case next_loop wa es 0 s of (r, s, q) \<Rightarrow> (r, s, w, q))"
  by (simp add: task_next_def next_dwell_def)

lemma task_close_flag: "task_close k (with_flag f s, w, q) = task_close k (s, w, q')"
  by (cases k) (simp add: task_close_def close_source_flag)

lemma at_close_flag: "at_close (task_open api) task_close nxt fft sc0 st0 os dets sc (with_flag f s, w, []) \<longleftrightarrow>
    at_close (task_open api) task_close nxt fft sc0 st0 os dets sc (s, w, [])"
  by (simp add: at_close_def task_close_flag [of _ f s w "[]" "[]"])

text \<open>The ways an inner loop ends: the flag is found cleared before \<open>next\<close>, \<open>next\<close> returns false, or the dwell
  it returned comes too late.\<close>

lemma closes_at_head:
  assumes "in_round (task_open api) task_close (task_next wa) fft sc0 st0 os dets sc (with_flag f s, w, [])"
  shows "at_close (task_open api) task_close (task_next wa) fft sc0 st0 os dets sc (s, w, [])"
proof -
  have "at_close (task_open api) task_close (task_next wa) fft sc0 st0 os dets sc (with_flag f s, w, [])"
    by (rule round_at_close [OF assms, of "[]"]) simp
  then show ?thesis by (simp only: at_close_flag)
qed

lemma closes_in_next:
  assumes "in_round (task_open api) task_close (task_next wa) fft sc0 st0 os dets sc (s0, w, [])"
    and "after_events wa s0 ms (with_flag True s)" and "next_loop wa es ms (with_flag True s) = (Ended, with_flag f s, [])"
  shows "at_close (task_open api) task_close (task_next wa) fft sc0 st0 os dets sc (s, w, [])"
proof -
  obtain es0 where "next_loop wa (es0 @ es) 0 s0 = (Ended, with_flag f s, [])"
    using assms(2,3) unfolding after_events_def by metis
  then have "dwell_loop (task_next wa) fft [(es0 @ es, True, \<lambda>_. 0)] sc (s0, w, []) = Some (Stopped, [], sc, with_flag f s, w, [])"
    by (simp add: task_next_from)
  then show ?thesis using round_at_close [OF assms(1)] at_close_flag by blast
qed

lemma closes_late:
  assumes "in_round (task_open api) task_close (task_next wa) fft sc0 st0 os dets sc (s0, w, [])"
    and "next_loop wa es 0 s0 = (Delivered d, with_flag True s, [])"
  shows "at_close (task_open api) task_close (task_next wa) fft sc0 st0 os dets sc (s, w, [])"
proof -
  have "dwell_loop (task_next wa) fft [(es, False, \<lambda>_. 0)] sc (s0, w, []) = Some (Stopped, [], sc, with_flag True s, w, [])"
    using assms(2) by (simp add: task_next_from)
  then show ?thesis using round_at_close [OF assms(1)] at_close_flag by blast
qed

lemma tracks_in_hand:
  assumes "sw_pc s = GotDwell \<or> sw_pc s = Callbacks" and "sw_dwell s = Some d"
    and "in_round (task_open api) task_close (task_next wa) fft sc0 st0 os (sw_reported s) (sw_scanner s) (s0, sw_world s, [])"
    and "next_loop wa es 0 s0 = (Delivered d, with_flag True (sw_src s), [])"
  shows "tracks api wa fft sc0 st0 os s"
proof -
  have "\<exists>s0 es d. in_round (task_open api) task_close (task_next wa) fft sc0 st0 os (sw_reported s) (sw_scanner s) (s0, sw_world s, []) \<and>
      next_loop wa es 0 s0 = (Delivered d, with_flag True (sw_src s), []) \<and> sw_dwell s = Some d"
    using assms(2-4) by blast
  then show ?thesis using assms(1) unfolding tracks_def Let_def by (elim disjE) (simp_all only: thread_pc.case)
qed

lemma tracks_go:
  assumes "tracks api wa fft sc0 st0 os s" and "go_move pause s = Some s'"
  shows "tracks api wa fft sc0 st0 os s'"
proof (cases "sw_pc s")
  case DwellHead
  show ?thesis
  proof (cases "scanning s")
    case True
    then show ?thesis using assms DwellHead after_no_events [of wa "with_flag True (sw_src s)"]
      by (auto simp: tracks_def go_move_def)
  next
    case False
    then show ?thesis using assms DwellHead closes_at_head [of api wa fft sc0 st0] by (auto simp: tracks_def go_move_def)
  qed
next
  case NextHead
  show ?thesis
  proof (cases "src_running (sw_src s)")
    case True
    then show ?thesis using assms NextHead by (auto simp: tracks_def go_move_def)
  next
    case False
    then show ?thesis using assms NextHead closes_in_next [where es = "[StopSeen]" and f = False] by (fastforce simp: tracks_def go_move_def)
  qed
next
  case GotDwell
  then obtain s0 es d where sw_dwell: "in_round (task_open api) task_close (task_next wa) fft sc0 st0 os (sw_reported s) (sw_scanner s) (s0, sw_world s, [])"
    "next_loop wa es 0 s0 = (Delivered d, with_flag True (sw_src s), [])" "sw_dwell s = Some d"
    using assms(1) by (auto simp: tracks_def)
  show ?thesis
  proof (cases "scanning s")
    case True
    then show ?thesis using sw_dwell assms(2) GotDwell by (intro tracks_in_hand [of s' d]) (auto simp: go_move_def)
  next
    case False
    then show ?thesis using closes_late [OF sw_dwell(1,2)] assms(2) GotDwell by (auto simp: tracks_def go_move_def)
  qed
qed (use assms in \<open>auto simp: tracks_def go_move_def\<close>)

lemma tracks_receive:
  assumes "tracks api wa fft sc0 st0 os s" and "sw_pc s = Receiving" and "receive_move wa e s = Some s'"
  shows "tracks api wa fft sc0 st0 os s'"
proof -
  obtain s0 where inside: "in_round (task_open api) task_close (task_next wa) fft sc0 st0 os (sw_reported s) (sw_scanner s) (s0, sw_world s, [])"
    and ev: "after_events wa s0 (quiet_ms s) (with_flag True (sw_src s))"
    using assms(1,2) by (auto simp: tracks_def)
  have limit: "no_data_limit (with_flag True (sw_src s)) = no_data_limit (sw_src s)" by (simp add: no_data_limit_def)
  show ?thesis
  proof (cases e)
    case Interrupted
    then show ?thesis using assms(3) inside ev by (auto simp: receive_move_def tracks_def)
  next
    case RecvFailed
    then show ?thesis using assms(3) closes_in_next [OF inside ev, of "[RecvFailed]" True]
      by (auto simp: receive_move_def tracks_def)
  next
    case WouldBlock
    show ?thesis
    proof (cases "no_data_limit (sw_src s) \<le> quiet_ms s + 100")
      case True
      then show ?thesis using WouldBlock assms(3) closes_in_next [OF inside ev, of "[WouldBlock]" True] limit
        by (auto simp: receive_move_def tracks_def)
    next
      case False
      have "after_events wa s0 (quiet_ms s + 100) (with_flag True (sw_src s))"
        by (rule after_event [OF ev, of WouldBlock]) (use False limit in simp)
      then show ?thesis using False WouldBlock assms(3) inside by (auto simp: receive_move_def tracks_def)
    qed
  next
    case (Packet b)
    obtain d src where p: "on_packet wa b (sw_src s) = (d, src)" by fastforce
    then have p': "on_packet wa b (with_flag True (sw_src s)) = (d, with_flag True src)" by (simp add: on_packet_flag)
    show ?thesis
    proof (cases d)
      case None
      have "after_events wa s0 0 (with_flag True src)"
        by (rule after_event [OF ev, of "Packet b"]) (use None p' in simp)
      then show ?thesis using Packet None assms(3) p inside by (auto simp: receive_move_def tracks_def)
    next
      case (Some d)
      have one: "next_loop wa [Packet b] (quiet_ms s) (with_flag True (sw_src s)) = (Delivered d, with_flag True src, [])"
        using p' Some by simp
      obtain es0 where "next_loop wa (es0 @ [Packet b]) 0 s0 = (Delivered d, with_flag True src, [])"
        using ev unfolding after_events_def by (metis one)
      then show ?thesis using Packet assms(3) p inside Some
        by (intro tracks_in_hand [of s' d]) (auto simp: receive_move_def)
    qed
  qed (use assms(3) in \<open>simp add: receive_move_def\<close>)
qed

lemma tracks_report:
  assumes "tracks api wa fft sc0 st0 os s" and "sw_pc s = Callbacks" and "report_move fft now s = Some s'"
  shows "tracks api wa fft sc0 st0 os s'"
proof -
  obtain s0 es d where inside: "in_round (task_open api) task_close (task_next wa) fft sc0 st0 os (sw_reported s) (sw_scanner s) (s0, sw_world s, [])"
    and nx: "next_loop wa es 0 s0 = (Delivered d, with_flag True (sw_src s), [])" and d: "sw_dwell s = Some d"
    using assms(1,2) by (auto simp: tracks_def)
  obtain dets sc where p: "process_dwell_all fft now d (sw_scanner s) = Some (dets, sc)"
    and s': "s' = s\<lparr>sw_pc := DwellHead, sw_scanner := sc, sw_reported := sw_reported s @ dets\<rparr>"
    using assms(3) d by (auto simp: report_move_def)
  have "task_next wa es (s0, sw_world s, []) = (Delivered d, with_flag True (sw_src s), sw_world s, [])"
    using nx by (simp add: task_next_from)
  then show ?thesis using dwell_in_round [OF inside _ p] s' by (simp add: tracks_def)
qed

lemma tracks_open:
  assumes "tracks api wa fft sc0 st0 os s" and "sw_pc s = InOpen" and "open_move api env s = Some s'"
  shows "tracks api wa fft sc0 st0 (os @ [env]) s'"
proof -
  obtain rs where rs: "os = map rd_open rs" "after_rounds (task_open api) task_close (task_next wa) fft sc0 st0 rs (sw_reported s)
      (sw_scanner s) (sw_src s, sw_world s, [])"
    using assms(1,2) tracks_between [of s api wa fft sc0 st0 os] by (auto simp: between_rounds_def)
  obtain r src w where op: "open_source api env (sw_src s) (sw_world s) = Some (r, src, w)"
    and s': "s' = s\<lparr>sw_pc := (case r of Inl _ \<Rightarrow> FailedOpen | Inr _ \<Rightarrow> DwellHead), sw_src := src, sw_world := w\<rparr>"
    using assms(3) by (auto simp: open_move_def)
  show ?thesis
  proof (cases r)
    case (Inl e)
    then have "task_open api env (sw_src s, sw_world s, []) = Some (False, src, w, [])" using op by (simp add: task_open_def)
    then show ?thesis using failed_open_at_close [OF rs(2)] s' Inl rs(1) by (simp add: tracks_def)
  next
    case (Inr u)
    then have "task_open api env (sw_src s, sw_world s, []) = Some (True, with_flag True src, w, [])"
      using op open_source_running [OF op] with_flag_select(7) [of src] by (simp add: task_open_def)
    then show ?thesis using open_in_round [OF rs(2)] s' Inr rs(1) by (simp add: tracks_def)
  qed
qed

lemma tracks_close:
  assumes "tracks api wa fft sc0 st0 os s" and "sw_pc s \<in> {FailedOpen, Closing}" and "pc \<in> {Retrying 0, Closed}"
  shows "tracks api wa fft sc0 st0 os (close_move ns now_ms pc s)"
proof -
  obtain src w where cl: "close_source ns now_ms (sw_src s) (sw_world s) = (src, w)" by fastforce
  have "at_close (task_open api) task_close (task_next wa) fft sc0 st0 os (sw_reported s) (sw_scanner s) (sw_src s, sw_world s, [])"
    using assms(1,2) by (auto simp: tracks_def)
  moreover have "task_close (ns, now_ms) (sw_src s, sw_world s, []) = (src, w, [])" by (simp add: task_close_def cl)
  ultimately obtain rs where "os = map rd_open rs" "after_rounds (task_open api) task_close (task_next wa) fft sc0 st0 rs
      (sw_reported s) (sw_scanner s) (src, w, [])" unfolding at_close_def by metis
  then show ?thesis using cl close_source_running [OF cl] assms(3) by (auto simp: tracks_def close_move_def)
qed

text \<open>What moves the control only is not seen.\<close>

lemma tracks_cong:
  assumes "tracks api wa fft sc0 st0 os s" and "sw_src s' = sw_src s \<or> sw_src s' = with_flag False (sw_src s)"
    and "sw_world s' = sw_world s" "sw_scanner s' = sw_scanner s" "sw_reported s' = sw_reported s" "quiet_ms s' = quiet_ms s"
      "sw_dwell s' = sw_dwell s" "sw_pc s' = sw_pc s"
  shows "tracks api wa fft sc0 st0 os s'"
proof (cases "between_rounds (sw_pc s)")
  case True
  then have "sw_src s' = sw_src s" using assms(1,2) tracks_between [OF True, of api wa fft sc0 st0 os] with_flag_select(7) [of "sw_src s"] by auto
  then show ?thesis using assms by (simp add: tracks_def cong: thread_pc.case_cong)
next
  case False
  have "with_flag True (sw_src s') = with_flag True (sw_src s)" using assms(2) by auto
  moreover have "at_close (task_open api) task_close (task_next wa) fft sc0 st0 os dets sc (sw_src s', w, []) \<longleftrightarrow>
      at_close (task_open api) task_close (task_next wa) fft sc0 st0 os dets sc (sw_src s, w, [])" for dets sc w
    using assms(2) at_close_flag by metis
  ultimately show ?thesis using assms(1) assms(3-8) False
    by (cases "sw_pc s") (simp_all add: tracks_def between_rounds_def opened_pcs_def)
qed

lemma tracks_move:
  assumes "tracks api wa fft sc0 st0 os s" and "sweep_move api wa fft pause a s = Some s'"
  shows "tracks api wa fft sc0 st0 (os @ opens [a]) s'"
proof (cases a)
  case Go
  then show ?thesis using assms tracks_go by (simp add: sweep_move_def)
next
  case (OpenWith env)
  then show ?thesis using assms tracks_open by (simp add: sweep_move_def split: if_splits)
next
  case (GetEvent e)
  then show ?thesis using assms tracks_receive by (simp add: sweep_move_def split: if_splits)
next
  case (Report now)
  then show ?thesis using assms tracks_report by (simp add: sweep_move_def split: if_splits)
next
  case (CloseAt ns now_ms)
  then show ?thesis using assms tracks_close [OF assms(1)] by (auto simp: sweep_move_def split: if_splits)
next
  case ClearFlag
  then show ?thesis using assms tracks_cong [OF assms(1), of s'] by (auto simp: sweep_move_def split: if_splits)
next
  case ClearSource
  then show ?thesis using assms tracks_cong [OF assms(1), of s'] by (auto simp: sweep_move_def split: if_splits)
next
  case PauseEnds
  then show ?thesis using assms by (auto simp: sweep_move_def tracks_def split: if_splits)
next
  case StartSweep
  then show ?thesis using assms by (auto simp: sweep_move_def tracks_def split: if_splits)
next
  case JoinSweep
  then show ?thesis using assms by (auto simp: sweep_move_def tracks_def split: if_splits)
qed

lemma tracks_run:
  assumes "sweep_run api wa fft pause as s = Some s'" and "tracks api wa fft sc0 st0 os s"
  shows "tracks api wa fft sc0 st0 (os @ opens as) s'"
proof -
  have "tracks api wa fft sc0 st0 (os @ opens ([] @ as)) s'"
  proof (rule sweeping.run_traced [OF assms(1)])
    fix pre a t t' assume "tracks api wa fft sc0 st0 (os @ opens pre) t" and "sweep_move api wa fft pause a t = Some t'"
    then show "tracks api wa fft sc0 st0 (os @ opens (pre @ [a])) t'"
      using tracks_move [of api wa fft sc0 st0 "os @ opens pre"] by (simp only: opens_append append.assoc)
  qed (use assms(2) in simp)
  then show ?thesis by simp
qed

lemma tracks_new: "\<not> src_running src \<Longrightarrow> tracks api wa fft sc (src, w, []) [] (new_thread sc src w)"
  by (auto simp: tracks_def new_thread_def intro!: exI [of _ "[]"] after_no_rounds)

lemma tracks_at_close:
  assumes "tracks api wa fft sc0 st0 os s" and "\<not> between_rounds (sw_pc s)"
  shows "at_close (task_open api) task_close (task_next wa) fft sc0 st0 os (sw_reported s) (sw_scanner s) (sw_src s, sw_world s, [])"
proof -
  have waiting: "next_loop wa [StopSeen] ms (with_flag True s1) = (Ended, with_flag False s1, [])" for ms s1 by simp
  show ?thesis
    using assms closes_at_head [of api wa fft sc0 st0] closes_in_next [of api wa fft sc0 st0, OF _ _ waiting]
      closes_late [of api wa fft sc0 st0]
    by (cases "sw_pc s") (auto simp: tracks_def between_rounds_def opened_pcs_def)
qed

definition sequential_end :: "nat \<Rightarrow> int \<Rightarrow> sweep_thread \<Rightarrow> task_state" where
  "sequential_end ns now_ms s = (if between_rounds (sw_pc s) then (sw_src s, sw_world s, [])
     else task_close (ns, now_ms) (sw_src s, sw_world s, []))"

lemma tracks_sequential:
  assumes "tracks api wa fft sc0 st0 os s"
  shows "\<exists>rs. map rd_open rs = os \<and> sweep_loop (task_open api) task_close (task_next wa) fft rs sc0 st0 =
     Some (Stopped, sw_reported s, sw_scanner s, sequential_end ns now_ms s)"
proof -
  have "\<exists>rs. os = map rd_open rs \<and> after_rounds (task_open api) task_close (task_next wa) fft sc0 st0 rs
      (sw_reported s) (sw_scanner s) (sequential_end ns now_ms s)"
    using assms tracks_between [of s api wa fft sc0 st0 os] tracks_at_close [OF assms]
    by (auto simp: sequential_end_def at_close_def)
  then obtain rs where os: "os = map rd_open rs" and run: "after_rounds (task_open api) task_close (task_next wa) fft sc0 st0 rs
      (sw_reported s) (sw_scanner s) (sequential_end ns now_ms s)" by blast
  have "sweep_loop (task_open api) task_close (task_next wa) fft (rs @ []) sc0 st0 =
      Some (Stopped, sw_reported s, sw_scanner s, sequential_end ns now_ms s)"
    using run unfolding after_rounds_def by (simp del: append_Nil2)
  then show ?thesis using os by auto
qed

lemma sweep_thread_sequential:
  assumes "sweep_run api wa fft pause as (new_thread sc src w) = Some s" and "\<not> src_running src"
  shows "\<exists>rs. map rd_open rs = opens as \<and> sweep_loop (task_open api) task_close (task_next wa) fft rs sc (src, w, []) =
     Some (Stopped, sw_reported s, sw_scanner s, sequential_end ns now_ms s)"
  using tracks_sequential [OF tracks_run [OF assms(1) tracks_new [OF assms(2)]]] by simp

subsection \<open>From a fresh scanner and a fresh source\<close>

lemma new_source_not_running: "\<not> src_running (new_source cfg dev required)"
  by (simp add: new_source_def reset_accum_def)

lemma fresh_task_inv: "sweepable cfg \<Longrightarrow> centers_nonneg wa \<Longrightarrow>
    task_inv wa cfg (open_fds w) (new_source cfg dev required, w, []) \<and> task_idle (new_source cfg dev required, w, [])"
  using new_source_resume by (simp add: task_inv_def task_idle_def owns_def new_source_def reset_accum_def accum_ok_def resume_ok_def)

lemma sweep_thread_facts:
  assumes "sweepable cfg" and "scannable cfg" and "centers_nonneg wa" and "new_scanner cfg = Inr sc"
    and "\<forall>env\<in>set (opens as). fresh_sockets (open_fds w) env"
    and "sweep_run api wa fft pause as (new_thread sc (new_source cfg dev required) w) = Some s"
  shows "scanner_ok (sw_scanner s) \<and> sc_cfg (sw_scanner s) = cfg \<and>
    task_inv wa cfg (open_fds w) (sequential_end ns now_ms s) \<and> task_idle (sequential_end ns now_ms s)"
proof -
  obtain rs where rs: "map rd_open rs = opens as" and run: "sweep_loop (task_open api) task_close (task_next wa) fft rs sc
      (new_source cfg dev required, w, []) = Some (Stopped, sw_reported s, sw_scanner s, sequential_end ns now_ms s)"
    using sweep_thread_sequential [OF assms(6) new_source_not_running] by blast
  have good: "\<forall>r\<in>set rs. fresh_sockets (open_fds w) (rd_open r)" using rs assms(5) by (metis imageI set_map)
  have inv: "task_inv wa cfg (open_fds w) (new_source cfg dev required, w, [])" "task_idle (new_source cfg dev required, w, [])"
    using fresh_task_inv assms(1,3) by simp_all
  have sc: "scannable (sc_cfg sc)" "scanner_ok sc" "sc_cfg sc = cfg" using new_scanner_ok [OF assms(4)] assms(2) by simp_all
  show ?thesis
    using task_source.sweep_loop_total [OF inv good sc(1,2), of api fft]
      task_source.sweep_loop_inv [OF inv good run] run sc(3) by auto
qed

text \<open>What the thread waits for at each point; none of it is undefined.\<close>

definition awaits :: "thread_pc \<Rightarrow> sweep_action \<Rightarrow> bool" where
  "awaits pc a \<longleftrightarrow> (case a of
       Go \<Rightarrow> pc \<notin> {NoThread, InOpen, FailedOpen, Receiving, Callbacks, Closing, LeftLoop}
     | OpenWith env \<Rightarrow> pc = InOpen
     | GetEvent e \<Rightarrow> pc = Receiving \<and> e \<noteq> StopSeen
     | Report now \<Rightarrow> pc = Callbacks
     | CloseAt ns now_ms \<Rightarrow> pc = FailedOpen \<or> pc = Closing
     | _ \<Rightarrow> False)"

lemma awaits_something: "pc \<notin> {NoThread, LeftLoop} \<Longrightarrow> \<exists>a. awaits pc a \<and> \<not> main_moves a"
proof -
  assume pc: "pc \<notin> {NoThread, LeftLoop}"
  let ?a = "if pc = InOpen then OpenWith sample_env else if pc = Receiving then GetEvent RecvFailed
    else if pc = Callbacks then Report (\<lambda>_. 0) else if pc = FailedOpen \<or> pc = Closing then CloseAt 0 0 else Go"
  have "awaits pc ?a \<and> \<not> main_moves ?a" using pc by (simp add: awaits_def main_moves_def)
  then show ?thesis by blast
qed

lemma sweep_thread_progress:
  assumes "sweepable cfg" and "scannable cfg" and "centers_nonneg wa" and "new_scanner cfg = Inr sc"
    and "\<forall>env\<in>set (opens as). fresh_sockets (open_fds w) env"
    and "sweep_run api wa fft pause as (new_thread sc (new_source cfg dev required) w) = Some s"
    and "awaits (sw_pc s) a"
  shows "sweep_move api wa fft pause a s \<noteq> None"
proof (cases a)
  case Go
  then show ?thesis using assms(7) by (cases "sw_pc s") (simp_all add: awaits_def sweep_move_def go_move_def)
next
  case (OpenWith env)
  then have pc: "sw_pc s = InOpen" using assms(7) by (simp add: awaits_def)
  then have "sequential_end 0 0 s = (sw_src s, sw_world s, [])" by (simp add: sequential_end_def between_rounds_def)
  then have "sweepable (src_cfg (sw_src s)) \<and> resume_ok (sw_src s)"
    using sweep_thread_facts [OF assms(1-6), of 0 0] by (auto simp: task_inv_def)
  then show ?thesis using open_source_total [of "sw_src s" api env "sw_world s"] OpenWith pc
    by (auto simp: sweep_move_def open_move_def)
next
  case (GetEvent e)
  then show ?thesis using assms(7)
    by (cases e) (auto simp: awaits_def sweep_move_def receive_move_def Let_def split: prod.split option.split)
next
  case (Report now)
  then have pc: "sw_pc s = Callbacks" using assms(7) by (simp add: awaits_def)
  have "tracks api wa fft sc (new_source cfg dev required, w, []) (opens as) s"
    using tracks_run [OF assms(6) tracks_new [OF new_source_not_running]] by simp
  then obtain d where d: "sw_dwell s = Some d" using pc by (auto simp: tracks_def)
  have "scannable (sc_cfg (sw_scanner s))" "scanner_ok (sw_scanner s)"
    using sweep_thread_facts [OF assms(1-6)] assms(2) by auto
  then obtain dets sc' where "process_dwell_all fft now d (sw_scanner s) = Some (dets, sc')"
    using process_dwell_all_ok by blast
  then show ?thesis using Report pc d by (simp add: sweep_move_def report_move_def)
qed (use assms(7) in \<open>auto simp: awaits_def sweep_move_def\<close>)

text \<open>The tone of theory \<open>Tone\<close>, and \<open>stop\<close> while its detections are being reported.\<close>

definition tone_moves :: "sweep_action list" where
  "tone_moves = [StartSweep, Go, OpenWith sample_env, Go, Go, GetEvent (Packet (toy_packet 4 100 64 1)), Go,
     ClearFlag, ClearSource]"

definition tone_last_moves :: "sweep_action list" where
  "tone_last_moves = [Report (\<lambda>ch. 0), Go, CloseAt 256 1, Go, Go]"

lemma tone_stopped:
  assumes "new_scanner tone_config = Inr sc"
  shows "\<exists>s s' d. sweep_run (tree_api sample_reply) toy_wire tone_fft True tone_moves
       (new_thread sc (new_source tone_config [] False) empty_world) = Some s \<and> sw_stop s = WaitsJoin \<and>
     sweep_run (tree_api sample_reply) toy_wire tone_fft True tone_last_moves s = Some s' \<and> sw_pc s' = LeftLoop \<and>
     d \<in> set (sw_reported s')"
proof -
  obtain s w where op: "open_source (tree_api sample_reply) sample_env (new_source tone_config [] False) empty_world =
      Some (Inr (), s, w)" and s: "src_cfg s = tone_config" "src_running s" "ch_accum s = [[]]" "current_center_hz s = 0"
    using sample_open_of [OF tone_sweepable] by auto
  obtain s1 where pk: "on_packet toy_wire (toy_packet 4 100 64 1) s =
      (Some \<lparr>dwell_center_hz = 100, ch_samples = [replicate 64 (1, 0)]\<rparr>, s1)"
    using s by (simp add: toy_on_packet_run toy_accept)
  obtain s2 w2 where cl: "close_source 256 1 (stop_source s1) w = (s2, w2)" by fastforce
  have ok: "sc_cfg sc = tone_config" "scanner_ok sc" "length (processors sc) = 1"
    using new_scanner_ok [OF assms] by auto
  obtain d out sc' where pd: "process_dwell tone_fft 0 0 100 (replicate 64 (1, 0)) sc = Some (out, sc')" and d: "d \<in> set out"
    using tone_dwell [OF ok] by blast
  show ?thesis using op s(2) pk cl pd d ok
    by (simp add: tone_moves_def tone_last_moves_def new_thread_def sweep_move_def go_move_def open_move_def receive_move_def
        report_move_def close_move_def process_dwell_all_def) blast
qed

subsection \<open>Properties\<close>

text \<open>C4. Whatever way the moves of the sweep thread interleave with \<open>start\<close> and \<open>stop\<close>, and in whatever state it is
  looked at, what it has reported, its scanner, its source and the sockets are those of a run of the sequential
  loop with the same calls of \<open>open\<close>, up to the \<open>close\<close> that is still to come when it is between the two.\<close>

theorem sweep_thread_refines_loop:
  assumes "sweep_run api wa fft pause as (new_thread sc src w) = Some s" and "\<not> src_running src"
  shows "\<exists>rs. map rd_open rs = opens as \<and> sweep_loop (task_open api) task_close (task_next wa) fft rs sc (src, w, []) =
     Some (Stopped, sw_reported s, sw_scanner s, sequential_end ns now_ms s)"
  by (rule sweep_thread_sequential [OF assms])

theorem sweep_thread_refines_loop_witness:
  "\<exists>sc s d rs. sweep_run (tree_api sample_reply) toy_wire tone_fft True (tone_moves @ tone_last_moves)
       (new_thread sc (new_source tone_config [] False) empty_world) = Some s \<and>
     map rd_open rs = [sample_env] \<and> d \<in> set (sw_reported s) \<and>
     sweep_loop (task_open (tree_api sample_reply)) task_close (task_next toy_wire) tone_fft rs sc
       (new_source tone_config [] False, empty_world, []) = Some (Stopped, sw_reported s, sw_scanner s, sw_src s, sw_world s, [])"
proof -
  obtain sc where sc: "new_scanner tone_config = Inr sc"
    using new_scanner_Inr [of tone_config] tone_scannable by (fastforce simp: scannable_def)
  obtain s d where run: "sweep_run (tree_api sample_reply) toy_wire tone_fft True (tone_moves @ tone_last_moves)
       (new_thread sc (new_source tone_config [] False) empty_world) = Some s" and s: "sw_pc s = LeftLoop" "d \<in> set (sw_reported s)"
    using tone_stopped [OF sc] by (auto simp: sweep_run_append)
  have "opens (tone_moves @ tone_last_moves) = [sample_env]" by (simp add: tone_moves_def tone_last_moves_def)
  moreover have "sequential_end 256 1 s = (sw_src s, sw_world s, [])"
    using s by (simp add: sequential_end_def between_rounds_def opened_pcs_def)
  ultimately show ?thesis
    using sweep_thread_refines_loop [OF run new_source_not_running, of 256 1] run s by metis
qed

text \<open>C5. Stopping a scanner returns and leaves nothing behind, whatever the sweep thread was doing when \<open>stop\<close> began to
  wait. The thread makes at most five more moves (one \<open>open\<close>, one receive or one round of callbacks among them) and
  takes on no further dwell; until it has left the loop, whatever the outside answers to what it waits for, the
  move is defined; once it has left, the join succeeds, the source is closed and idle, and every socket that any
  of its \<open>open\<close>s made is closed.\<close>

theorem sweep_stop_leaves_nothing:
  assumes "sweepable cfg" and "scannable cfg" and "centers_nonneg wa" and "new_scanner cfg = Inr sc"
    and "\<forall>env\<in>set (opens (as @ bs)). fresh_sockets (open_fds w) env"
    and "sweep_run api wa fft pause as (new_thread sc (new_source cfg dev required) w) = Some s" and "sw_stop s = WaitsJoin"
    and "sweep_run api wa fft pause bs s = Some s'" and "list_all (\<lambda>a. \<not> main_moves a) bs"
  shows "length bs \<le> 5 \<and> sw_dwells s' = sw_dwells s \<and>
     (if sw_pc s' \<in> {NoThread, LeftLoop}
      then sweep_move api wa fft pause JoinSweep s' \<noteq> None \<and> \<not> src_running (sw_src s') \<and> udp_fd (sw_src s') = None \<and>
        task_id (sw_src s') = [] \<and> open_fds (sw_world s') = open_fds w
      else (\<exists>a. awaits (sw_pc s') a \<and> \<not> main_moves a) \<and>
        (\<forall>a. awaits (sw_pc s') a \<longrightarrow> sweep_move api wa fft pause a s' \<noteq> None))"
proof -
  let ?s0 = "new_thread sc (new_source cfg dev required) w"
  have run: "sweep_run api wa fft pause (as @ bs) ?s0 = Some s'" using assms(6,8) by (simp add: sweep_run_append)
  have "control ?s0 = idle_thread"
    by (simp add: control_def new_thread_def idle_thread_def new_source_not_running opened_pcs_def)
  then have reach: "scan_reach pause (control s)" using control_reach [OF assms(6)] scan_reach.scan_start by metis
  obtain cs where cs: "scan_run pause cs (control s) = Some (control s')" "length cs = length bs" "list_all (\<lambda>a. \<not> of_main a) cs"
    using control_run [OF assms(8)] assms(9) by blast
  note ret = scanner_stop_returns [OF reach _ cs(1,3)]
  have "sw_pc s' \<in> {NoThread, LeftLoop} \<Longrightarrow> sequential_end 0 0 s' = (sw_src s', sw_world s', [])"
    by (auto simp: sequential_end_def between_rounds_def opened_pcs_def)
  then have "sw_pc s' \<in> {NoThread, LeftLoop} \<Longrightarrow> udp_fd (sw_src s') = None \<and> task_id (sw_src s') = [] \<and> open_fds (sw_world s') = open_fds w"
    using sweep_thread_facts [OF assms(1-5) run, of 0 0] by (auto simp: task_inv_def task_idle_def owns_def)
  moreover have "sw_stop s' = WaitsJoin"
    using joining_runs [OF cs(1) reach_flags_ok [OF reach] _ cs(3)] assms(7) by simp
  ultimately show ?thesis
    using ret assms(7) cs(2) awaits_something [of "sw_pc s'"] sweep_thread_progress [OF assms(1-5) run]
    by (auto simp: sweep_move_def split: if_splits)
qed

theorem sweep_stop_leaves_nothing_witness:
  "\<exists>sc s s'. sweep_run (tree_api sample_reply) toy_wire tone_fft True tone_moves
       (new_thread sc (new_source tone_config [] False) empty_world) = Some s \<and>
     sweep_run (tree_api sample_reply) toy_wire tone_fft True tone_last_moves s = Some s' \<and>
     sw_pc s' = LeftLoop \<and> open_fds (sw_world s') = {} \<and> task_id (sw_src s') = [] \<and> sw_dwells s' = sw_dwells s"
proof -
  obtain sc where sc: "new_scanner tone_config = Inr sc"
    using new_scanner_Inr [of tone_config] tone_scannable by (fastforce simp: scannable_def)
  obtain s s' d where run: "sweep_run (tree_api sample_reply) toy_wire tone_fft True tone_moves
       (new_thread sc (new_source tone_config [] False) empty_world) = Some s" "sw_stop s = WaitsJoin"
    "sweep_run (tree_api sample_reply) toy_wire tone_fft True tone_last_moves s = Some s'" and s': "sw_pc s' = LeftLoop"
    using tone_stopped [OF sc] by blast
  have "\<forall>env\<in>set (opens (tone_moves @ tone_last_moves)). fresh_sockets (open_fds empty_world) env"
    by (simp add: tone_moves_def tone_last_moves_def fresh_sockets_def fresh_fd_def empty_world_def)
  then have "open_fds (sw_world s') = open_fds empty_world \<and> task_id (sw_src s') = [] \<and> sw_dwells s' = sw_dwells s"
    using sweep_stop_leaves_nothing [OF tone_sweepable tone_scannable toy_centers sc _ run] s'
    by (simp add: tone_last_moves_def main_moves_def)
  then show ?thesis using run s' sc by (auto simp: empty_world_def)
qed

end
