(* ===== verification/SignalSchema.thy ===== *)
theory SignalSchema
  imports SignalDb
begin

section \<open>The table of the detection writer (\<open>DetectionDb.cpp\<close>, constructor)\<close>

text \<open>
  The statements the constructor runs before the worker starts: create the table if it is missing, add
  the position columns to a table of an earlier version. What \<open>flush\<close> then inserts must name columns that
  exist and leave no mandatory column without a value.
\<close>

datatype sql_type = BigSerial | Timestamp | DoublePrecision | SinglePrecision | SmallInteger | Integer32 | Boolean | Text

record column =
  col_name :: string
  col_type :: sql_type
  not_null :: bool
  has_default :: bool

definition nullable :: "string \<Rightarrow> sql_type \<Rightarrow> column" where
  "nullable n t = \<lparr>col_name = n, col_type = t, not_null = False, has_default = False\<rparr>"

definition mandatory :: "string \<Rightarrow> sql_type \<Rightarrow> column" where
  "mandatory n t = \<lparr>col_name = n, col_type = t, not_null = True, has_default = False\<rparr>"

definition defaulted :: "string \<Rightarrow> sql_type \<Rightarrow> column" where
  "defaulted n t = \<lparr>col_name = n, col_type = t, not_null = True, has_default = True\<rparr>"

definition optional_default :: "string \<Rightarrow> sql_type \<Rightarrow> column" where
  "optional_default n t = \<lparr>col_name = n, col_type = t, not_null = False, has_default = True\<rparr>"

definition gps_columns :: "column list" where
  "gps_columns = [nullable ''lat'' DoublePrecision, nullable ''lon'' DoublePrecision, nullable ''alt_m'' SinglePrecision]"

definition signal_columns :: "column list" where
  "signal_columns =
     [defaulted ''id'' BigSerial, defaulted ''first_seen'' Timestamp, defaulted ''last_seen'' Timestamp,
      mandatory ''freq_hz'' DoublePrecision, mandatory ''freq_mhz'' DoublePrecision,
      nullable ''bandwidth_hz'' DoublePrecision, nullable ''power_db'' SinglePrecision, nullable ''snr_db'' SinglePrecision,
      defaulted ''scanner_id'' Text, defaulted ''channel'' SmallInteger, defaulted ''modulation'' Text,
      defaulted ''mod_class'' Text, defaulted ''is_ofdm'' Boolean, defaulted ''is_burst'' Boolean,
      defaulted ''is_fhss'' Boolean, nullable ''symbol_rate_sps'' DoublePrecision,
      nullable ''bit_rate_bps'' DoublePrecision, defaulted ''hypothesis'' Text, defaulted ''hyp_category'' Text,
      optional_default ''hyp_confidence'' SinglePrecision, defaulted ''classified'' Boolean,
      optional_default ''rule_confidence'' SinglePrecision, defaulted ''onnx_used'' Boolean,
      optional_default ''onnx_confidence'' SinglePrecision, defaulted ''fast_path'' Boolean,
      defaulted ''reject_reason'' Text, defaulted ''hits'' Integer32] @ gps_columns"

text \<open>\<open>CREATE TABLE IF NOT EXISTS\<close> followed by \<open>ALTER TABLE ... ADD COLUMN IF NOT EXISTS\<close> for each position column.\<close>

definition column_names :: "column list \<Rightarrow> string set" where
  "column_names t = col_name ` set t"

definition add_column :: "column \<Rightarrow> column list \<Rightarrow> column list" where
  "add_column c t = (if col_name c \<in> column_names t then t else t @ [c])"

definition ensure_table :: "column list option \<Rightarrow> column list" where
  "ensure_table found = fold add_column gps_columns (case found of None \<Rightarrow> signal_columns | Some t \<Rightarrow> t)"

text \<open>The columns the \<open>INSERT\<close> names, with whether its value may be NULL.\<close>

definition inserted_columns :: "(string \<times> bool) list" where
  "inserted_columns = [(''first_seen'', False), (''last_seen'', False), (''freq_hz'', False), (''freq_mhz'', False),
     (''bandwidth_hz'', True), (''power_db'', False), (''scanner_id'', False), (''channel'', False),
     (''lat'', True), (''lon'', True), (''alt_m'', True)]"

definition insert_fits :: "column list \<Rightarrow> bool" where
  "insert_fits t \<longleftrightarrow> list_all (\<lambda>(n, may_be_null). list_ex (\<lambda>c. col_name c = n \<and> (may_be_null \<longrightarrow> \<not> not_null c)) t) inserted_columns \<and>
     list_all (\<lambda>c. not_null c \<and> \<not> has_default c \<longrightarrow> col_name c \<in> fst ` set inserted_columns) t"

lemma add_column_keeps: "column_names (add_column c t) = insert (col_name c) (column_names t)"
  "distinct (map col_name t) \<Longrightarrow> distinct (map col_name (add_column c t))"
  by (auto simp: add_column_def column_names_def)

lemma add_columns_keep: "column_names (fold add_column cs t) = col_name ` set cs \<union> column_names t"
  "distinct (map col_name t) \<Longrightarrow> distinct (map col_name (fold add_column cs t))"
  by (induction cs arbitrary: t) (auto simp: add_column_keeps)

lemma add_columns_present: "col_name ` set cs \<subseteq> column_names t \<Longrightarrow> fold add_column cs t = t"
  by (induction cs) (auto simp: add_column_def)

lemmas column_eval = nullable_def mandatory_def defaulted_def optional_default_def

lemma snr_not_inserted: "''snr_db'' \<in> column_names (ensure_table None) \<and> ''snr_db'' \<notin> fst ` set inserted_columns"
  by (simp add: ensure_table_def add_columns_keep)
    (simp add: signal_columns_def column_names_def inserted_columns_def column_eval)

text \<open>Running the constructor twice changes nothing the second time, and after it the insert fits a table that is
  new, current, or of the version before the position columns.\<close>

lemma ensure_table_idempotent: "ensure_table (Some (ensure_table e)) = ensure_table e"
proof -
  have "col_name ` set gps_columns \<subseteq> column_names (ensure_table e)" by (simp add: ensure_table_def add_columns_keep)
  then show ?thesis unfolding ensure_table_def [of "Some _"] by (simp add: add_columns_present)
qed

theorem insert_fits_table:
  "insert_fits (ensure_table None) \<and> insert_fits (ensure_table (Some signal_columns)) \<and>
   insert_fits (ensure_table (Some (filter (\<lambda>c. c \<notin> set gps_columns) signal_columns))) \<and>
   distinct (map col_name (ensure_table None))"
proof -
  have none: "ensure_table None = signal_columns" "ensure_table (Some signal_columns) = signal_columns"
    by (auto simp: ensure_table_def signal_columns_def column_names_def intro!: add_columns_present)
  have old: "ensure_table (Some (filter (\<lambda>c. c \<notin> set gps_columns) signal_columns)) = signal_columns"
    by (simp add: ensure_table_def signal_columns_def gps_columns_def add_column_def column_names_def column_eval)
  have "insert_fits signal_columns"
    by (simp add: insert_fits_def inserted_columns_def signal_columns_def gps_columns_def column_eval)
  moreover have "distinct (map col_name signal_columns)"
    by (simp add: signal_columns_def gps_columns_def column_eval)
  ultimately show ?thesis by (simp add: none old)
qed

end
