(* ===== verification/Spec2Isabelle.thy ===== *)
theory Spec2Isabelle
  imports Shutdown SweepThread SignalSchema
begin

text \<open>
  A verification development of the AcquisitionApp, a continuous spectrum scanner written in C++
  (\<open>src/include\<close>, \<open>src/src\<close>). The program sweeps a band with one or more software-defined radios,
  finds energy above the noise, confirms it over several sweeps, and reports detections to a
  database and a message broker. Beside that path it follows P25 channel grants and receives threat
  alerts.

  \<^bold>\<open>How the parts interact.\<close> \<open>main\<close> reads the configuration, asks the device manager how many devices are
  online, splits the bands and starts one scanner with one IQ source per slice. A scanner's thread runs
  \<open>sweepLoop\<close>: it opens its source (a scan task is requested over an AMQP channel and the samples
  arrive over UDP), takes dwells from \<open>next\<close>, runs each channel through the detector and the persistence
  filter, and calls \<open>on_detection\<close>, which stamps the GPS position and hands the detection to the
  database writer's queue and to the publisher. The grant consumer and the alert consumer have a queue
  and a worker thread of the same make as the database writer's.

  \<^bold>\<open>Theories and code.\<close> Definitions carry the names of the source where HOL allows it.
  \<^item> \<open>Prelude\<close>: results of code that may throw, rule collections, generic lemmas. \<open>Machine\<close>: step machines and their
    runs, the locales \<open>machine\<close>, interpreted by every concurrent component, and \<open>simulation\<close>. \<open>Floats\<close>: binary32 and
    binary64 rounding, with the locale \<open>rounding\<close> interpreted for both. \<open>Strings\<close>: the string functions
    of the standard library that are called. \<open>Json\<close>: the interface of the JSON library.
  \<^item> \<open>Config\<close>: \<open>SweepConfig.hpp\<close>, \<open>SweepConfig.cpp\<close>; the structs, \<open>from_file\<close> with its errors,
    \<open>splitBands\<close>. \<open>Types\<close>: \<open>Types.hpp\<close>, the dwell of \<open>IqSource.hpp\<close>.
  \<^item> \<open>Fft\<close>: \<open>FftProcessor.cpp\<close>; \<open>computeSpectrum\<close>, \<open>estimateNoise\<close>, \<open>detectFromSpectrum\<close>. \<open>CfarRuns\<close> and
    \<open>Detector\<close>: their correctness, first of the scan for runs, then of the whole. \<open>Scanner\<close>:
    \<open>SpectrumScanner.cpp\<close> without its loop; noise floors, persistence filter, \<open>processDwell\<close>. \<open>Tone\<close>: both put
    together, and one dwell with a tone carried through scanner, source and loop for the instances.
  \<^item> \<open>Channel\<close>: \<open>TaskAmqpChannel\<close> of \<open>TaskManagerIqSource.cpp\<close> as a step machine, with \<open>start\<close> and
    \<open>stop\<close>. \<open>TaskSource\<close>: the rest of that file; request, \<open>open\<close>, \<open>close\<close>, \<open>next\<close>, device query. What holds of it
    is in \<open>ScanPlan\<close> (the request), \<open>SampleStream\<close> (\<open>next\<close>) and \<open>SourceTask\<close> (sockets and tasks).
  \<^item> \<open>SweepLoop\<close>: \<open>sweepLoop\<close> over the interface \<open>IqSource\<close>, the locales \<open>iq_source\<close> and \<open>total_iq_source\<close>,
    interpreted by the source; the loop run alone. \<open>ScanThread\<close>: \<open>start\<close>, \<open>stop\<close> and the thread of the loop as a step
    machine over the two running flags; its control. \<open>SweepThread\<close>: the thread with both, as it runs; it refines the
    one and the other. \<open>Shutdown\<close>: \<open>main\<close> stopping all the threads and taking down what they report to.
  \<^item> \<open>WorkQueue\<close>: the machine of a queue, a worker and a condition variable, with a locale per contract
    (\<open>ordered_worker\<close>, \<open>fifo_worker\<close>, \<open>bounded_worker\<close>, \<open>draining_worker\<close>, \<open>stopping_worker\<close>,
    \<open>locked_worker\<close>, \<open>serving_worker\<close>), and the sequential service \<open>service_run\<close> that workers implement. Its
    instances are \<open>alert_worker\<close>, \<open>db_worker\<close> and \<open>p25_worker\<close>.
  \<^item> \<open>Alerts\<close>: \<open>RfAlert.hpp\<close>, \<open>AlertConsumer\<close>, \<open>AlertStore\<close>. \<open>SignalDb\<close>: \<open>DetectionDb\<close>, with its table in
    \<open>SignalSchema\<close>. \<open>P25\<close>: \<open>P25GrantConsumer\<close>, \<open>P25Db\<close>. \<open>Gps\<close>: \<open>GpsCache\<close>, \<open>GpsMonitor\<close>. \<open>Publisher\<close>:
    \<open>AmqpPublisher\<close>. \<open>Broker\<close>: the connection options of all five clients.
  \<^item> \<open>Reports\<close>: \<open>rf_detection.schema.json\<close>, and what every detection has in common. \<open>Grants\<close>: the grant handler of
    \<open>main.cpp\<close> with the captures. \<open>App\<close>: the rest of \<open>main.cpp\<close>. This theory holds what spans the components.

  \<^bold>\<open>What is shown.\<close>
  \<^item> The detector reports exactly the maximal runs of bins above the threshold, distinct and disjoint; the
    persistence filter is a product of one small automaton per 10 kHz bucket; a dwell's detections are those
    of such runs, with every strong one among them; processing dwells is total within the stated
    configuration bounds and keeps the scanner's invariant.
  \<^item> \<open>next\<close> neither loses nor repeats nor reorders samples and gives up after a bounded silence; the scan
    plan covers its band; \<open>open\<close> and \<open>close\<close> leak nothing; an exchange on the channel returns its own
    response or none, and the task of the source is the one it asked for; the loop over all of it is
    defined for every environment and ends clean, and so do the captures for grants. Whatever the interleaving with
    \<open>start\<close> and \<open>stop\<close>, the thread of a scanner does what the loop alone does; stopping it ends it within five of
    its moves with every socket closed, and closing the channel first sends what was posted.
  \<^item> The shutdown of \<open>main\<close> takes nothing down that a thread may still report to, under every interleaving, and comes
    to its end unless it waits for the grant consumer, whose lost wake-up can stop it before anything else is stopped.
  \<^item> A worker hands over what was queued in order; the alert and database workers end with nothing left,
    the grant queue keeps the newest five, and stopping the grant consumer can hang (a lost wake-up). All
    three refine the same sequential service.
  \<^item> The table writers count each detection and each grant once and keep their keys unique; \<open>main\<close> gives
    every device a slice, and every scanner it launches is constructed and can request its first task.
  \<^item> Whatever the launched scanners and the captures report, stopped at any point: each message sent has the members of schema 1.2 with their types,
    each row of the table describes a reported detection; the alerts stored are those received, in order.
  \<^item> Where the code fails on an input it accepts, a theorem shows it: an FFT size whose square overflows, a
    sample rate of zero for which the request loop never ends, two frequencies in one dwell after a lost
    flag, a resumed plan that overlaps itself, duplicate rows from a slow clock, an erased cipher name, a
    schema file that accepts no message.

  \<^bold>\<open>Bounds and fuel.\<close> No definition runs on fuel. The scan-plan loop, which may not end, is a
  \<open>partial_function (option)\<close>, and that it ends is proved for configurations with a positive step.
  Undefined behaviour of the source (an overflow of \<open>int\<close>, a conversion out of range) is None, and
  totality theorems exclude it under \<open>scannable\<close> and \<open>sweepable\<close>, the bounds on sizes, rates and
  frequencies stated there. Frequencies used as map keys are 64-bit words, grants have 32, 16 and 8-bit
  words; counters that are raised once per dwell are unbounded. Interleavings are explicit sequences of
  moves, and bounds on the number of moves are part of the liveness theorems.

  \<^bold>\<open>Parameters.\<close> Third-party code is an argument of the definitions that use it: tinyxml2 (\<open>xml_api\<close>),
  nlohmann::json (\<open>json_api\<close>), FFTW (\<open>fft\<close>), the packet header library (\<open>wire_api\<close>), the base64
  encoder, SQL quoting, the choice a query leaves open (\<open>tie\<close>). Clocks, sockets, broker messages and
  the outcome of a transaction are inputs.

  \<^bold>\<open>Not modelled.\<close> The inside of the broker, database and logging libraries; \<open>AlertPublisher\<close>, which is
  declared and has no implementation; the values of columns of \<open>signals\<close> the program neither writes nor
  reads, beyond two representatives; what the messaging library does with a post while it reconnects
  (posts run while the container does); infinities and NaN apart from the empty window of the detector; durations (the
  bounds count moves); the kernel that the sources share (each thread has its own \<open>world\<close>, in which the sockets of
  the others are a fixed set); destructors, which repeat the stops that \<open>main\<close> has made; the Python script \<open>sdr_recon.py\<close>, tests, packaging, deployment and the SQL schema file.
\<close>

section \<open>What spans the components\<close>

subsection \<open>From the scanners to the broker and the table\<close>

text \<open>What one scanner has reported, at some point of a run of its thread with \<open>start\<close> and \<open>stop\<close> on a source that
  is closed at first: one of the launched scanners on its own fresh source, or the scanner of a capture on the source of
  the captures.\<close>

definition thread_reports :: "'j json_api \<Rightarrow> wire_api \<Rightarrow> (sample list \<Rightarrow> sample list) \<Rightarrow> sweep_config \<Rightarrow> task_src \<Rightarrow>
   detection list \<Rightarrow> bool" where
  "thread_reports api wa fft c src dets \<longleftrightarrow> (\<exists>sc w pause as s. new_scanner c = Inr sc \<and> \<not> src_running src \<and>
     sweep_run api wa fft pause as (new_thread sc src w) = Some s \<and> sw_reported s = dets)"

text \<open>What the launched scanners have reported, in the order of \<open>launched\<close>, and the captures, grant by grant.\<close>

definition app_reports :: "'j json_api \<Rightarrow> wire_api \<Rightarrow> (sample list \<Rightarrow> sample list) \<Rightarrow> sweep_config \<Rightarrow> int \<Rightarrow>
   detection list list \<Rightarrow> (p25_grant \<times> detection list) list \<Rightarrow> bool" where
  "app_reports api wa fft cfg n_dev reports captures \<longleftrightarrow>
     list_all2 (\<lambda>(c, dev, required) dets. thread_reports api wa fft c (new_source c dev required) dets) (launched cfg n_dev) reports \<and>
     list_all (\<lambda>(g, dets). \<exists>src. thread_reports api wa fft (voice_cfg cfg g) src dets) captures"

definition reported_by :: "detection list list \<Rightarrow> (p25_grant \<times> detection list) list \<Rightarrow> detection list" where
  "reported_by reports captures = concat reports @ concat (map snd captures)"

text \<open>A detection as \<open>on_detection\<close> hands it on: reported by a scanner, with or without a position.\<close>

definition handed_on :: "detection list list \<Rightarrow> (p25_grant \<times> detection list) list \<Rightarrow> detection set" where
  "handed_on reports captures = {stamp fix d |fix d. d \<in> set (reported_by reports captures)}"

lemma stamp_report_ok: "report_ok cfg (stamp fix d) = report_ok cfg d"
  by (simp add: report_ok_def stamp_def split: option.split)

lemma thread_reports_ok:
  assumes "thread_reports api wa fft c src dets" and "0 < fft_size (sweep c)"
  shows "list_all (report_ok c) dets"
proof -
  obtain sc w pause as s where new: "new_scanner c = Inr sc" and off: "\<not> src_running src"
    and thread: "sweep_run api wa fft pause as (new_thread sc src w) = Some s" "sw_reported s = dets"
    using assms(1) unfolding thread_reports_def by blast
  obtain rs where run: "sweep_loop (task_open api) task_close (task_next wa) fft rs sc (src, w, []) =
      Some (Stopped, dets, sw_scanner s, sequential_end 0 0 s)"
    using sweep_thread_sequential [OF thread(1) off] thread(2) by blast
  have "reporting sc" using new_scanner_reporting [OF new] assms(2) by simp
  then show ?thesis using sweep_loop_reports [OF run] new_scanner_ok [OF new] by simp
qed

text \<open>The identity on a detection: that of the application, with the talk group of the grant for a capture.\<close>

definition identities :: "sweep_config \<Rightarrow> (p25_grant \<times> detection list) list \<Rightarrow> string list" where
  "identities cfg captures = scanner_id cfg # map (\<lambda>(g, dets). scanner_id cfg @ ''-tg'' @ show_nat (unat (talk_group g))) captures"

lemma reported_ok:
  assumes "app_reports api wa fft cfg n_dev reports captures" and "0 < fft_size (sweep cfg)" and "x \<in> handed_on reports captures"
  obtains c where "report_ok c x" and "device c = device cfg" and "scanner_id c \<in> set (identities cfg captures)"
proof -
  obtain fx d where x: "x = stamp fx d" and d: "d \<in> set (concat reports) \<or> d \<in> set (concat (map snd captures))"
    using assms(3) by (auto simp: handed_on_def reported_by_def)
  show thesis using d
  proof
    assume "d \<in> set (concat reports)"
    then obtain k where k: "k < length reports" "d \<in> set (reports ! k)" by (metis in_set_conv_nth set_concat UN_E)
    obtain c dev required where c: "launched cfg n_dev ! k = (c, dev, required)" by (metis prod_cases3)
    have "length (launched cfg n_dev) = length reports" "thread_reports api wa fft c (new_source c dev required) (reports ! k)"
      using assms(1) k c by (auto simp: app_reports_def list_all2_conv_all_nth dest!: spec [of _ k])
    moreover from this have "(c, dev, required) \<in> set (launched cfg n_dev)" using c k nth_mem by metis
    note fields = launched_fields [OF this]
    ultimately have "report_ok c d" using thread_reports_ok assms(2) k(2) by (fastforce simp: list_all_iff)
    then show thesis using that [of c] fields unfolding x stamp_report_ok by (simp add: identities_def)
  next
    assume "d \<in> set (concat (map snd captures))"
    then obtain g dets where g: "(g, dets) \<in> set captures" "d \<in> set dets" by auto
    then obtain src where "thread_reports api wa fft (voice_cfg cfg g) src dets"
      using assms(1) by (auto simp: app_reports_def list_all_iff)
    then have "report_ok (voice_cfg cfg g) d"
      using thread_reports_ok [of api wa fft "voice_cfg cfg g" src dets] assms(2) g(2) by (auto simp: list_all_iff voice_cfg_def)
    moreover have "scanner_id (voice_cfg cfg g) \<in> set (identities cfg captures)" using g(1) by (force simp: identities_def)
    ultimately show thesis using that [of "voice_cfg cfg g"] unfolding x stamp_report_ok by simp
  qed
qed

text \<open>A capture as it runs, with a thread that \<open>stop\<close> interrupts anywhere, is what theory \<open>Grants\<close> takes it for: a call of
  the handler with the same calls of \<open>open\<close>.\<close>

lemma capture_thread_is_call:
  assumes "new_scanner (voice_cfg cfg (gc_grant c)) = Inr sc" and "\<not> src_running src"
    and "sweep_run api wa fft pause as (new_thread sc src w) = Some s" and "between_rounds (sw_pc s)"
  shows "\<exists>rs. map rd_open rs = opens as \<and> snd (grant_handler cfg has_db api wa fft (c\<lparr>gc_rounds := rs\<rparr>) (src, w, []) d) =
     Inr (Some (Stopped, sw_reported s, sw_scanner s, sw_src s, sw_world s, []))"
proof -
  obtain rs where "map rd_open rs = opens as" and run: "sweep_loop (task_open api) task_close (task_next wa) fft rs sc (src, w, []) =
      Some (Stopped, sw_reported s, sw_scanner s, sequential_end 0 0 s)"
    using sweep_thread_sequential [OF assms(3,2)] by blast
  moreover have "sequential_end 0 0 s = (sw_src s, sw_world s, [])" using assms(4) by (simp add: sequential_end_def)
  ultimately show ?thesis using assms(1) by (intro exI [of _ rs]) (simp add: grant_handler_def del: sweep_loop.simps)
qed

text \<open>The application with one device on the tone of theory \<open>Tone\<close>: its scanner reports a detection and is stopped.\<close>

lemma tone_app_reports:
  "\<exists>d dets. app_reports (tree_api sample_reply) toy_wire tone_fft tone_config 1 [dets] [] \<and> d \<in> set dets"
proof -
  obtain sc where sc: "new_scanner tone_config = Inr sc"
    using new_scanner_Inr [of tone_config] tone_scannable by (fastforce simp: scannable_def)
  have band: "band_cfg tone_config (single_band tone_config) = tone_config"
    by (simp add: band_cfg_def single_band_def tone_config_def default_config_def default_device_def default_sweep_def)
  have dev: "device_id (single_band tone_config) = []" "\<not> device_required (single_band tone_config)"
    by (simp_all add: single_band_def tone_config_def default_config_def default_device_def default_band_def Let_def)
  have "launched tone_config 1 = [(tone_config, [], False)]"
    by (simp add: launched_def planned_bands_def effective_bands_def Let_def band dev)
  moreover obtain d dets where "thread_reports (tree_api sample_reply) toy_wire tone_fft tone_config (new_source tone_config [] False) dets" "d \<in> set dets"
    using tone_stopped [OF sc] sc new_source_not_running unfolding thread_reports_def by (metis bind.bind_lunit sweep_run_append)
  ultimately show ?thesis by (auto simp: app_reports_def)
qed

lemma tone_config_valid: "valid_config tone_config"
  using tone_scannable by (simp add: valid_config_def scannable_def)

text \<open>C14. Every message on the broker has the declared types. Whatever the scanners the application launches and
  its captures report, with whatever positions, and however the publisher's threads interleave: each message that
  is sent has all the required members, each of its declared type and within its declared bounds,
  with the two members of version 1.2 taken into the schema. The schema file of the repository, which
  admits no other members, accepts none of them.\<close>

theorem sent_messages_are_typed:
  assumes "valid_config cfg" and "0 < sample_rate (device cfg)" and "app_reports api wa fft cfg n_dev reports captures"
    and "pub_run b64 as new_publisher = Some p" and "\<And>x. Publish x \<in> set as \<Longrightarrow> x \<in> handed_on reports captures"
  shows "list_all (\<lambda>m. accepts schema_1_2 m \<and> \<not> accepts schema_file m) (sent p)"
proof (simp add: list_all_iff, intro ballI)
  fix m assume "m \<in> set (sent p)"
  then obtain x where x: "Publish x \<in> set as" "m = detection_doc b64 x" using sent_messages [OF assms(4)] by blast
  have "0 < fft_size (sweep cfg)" using assms(1) by (simp add: valid_config_def valid_sweep_def)
  then obtain c where "report_ok c x" "device c = device cfg" using reported_ok [OF assms(3) _ assms(5) [OF x(1)]] by blast
  then show "accepts schema_1_2 m \<and> \<not> accepts schema_file m"
    using detection_doc_1_2 [of c x] assms(2) detection_doc_not_1_1 x by simp
qed

theorem sent_messages_are_typed_witness:
  "\<exists>d dets p. app_reports (tree_api sample_reply) toy_wire tone_fft tone_config 1 [dets] [] \<and> d \<in> set dets \<and>
     pub_run (\<lambda>xs. []) [StartPub, SenderOpen, Publish (stamp None d), RunPost] new_publisher = Some p \<and>
     sent p = [detection_doc (\<lambda>xs. []) d] \<and> list_all (\<lambda>m. accepts schema_1_2 m \<and> \<not> accepts schema_file m) (sent p)"
proof -
  obtain d dets where rep: "app_reports (tree_api sample_reply) toy_wire tone_fft tone_config 1 [dets] []" "d \<in> set dets"
    using tone_app_reports by blast
  have same: "stamp None d = d" by (simp add: stamp_def)
  obtain p where run: "pub_run (\<lambda>xs. []) [StartPub, SenderOpen, Publish (stamp None d), RunPost] new_publisher = Some p"
    and p: "sent p = [detection_doc (\<lambda>xs. []) d]"
    by (simp add: pub_step_def publish_def new_publisher_def Let_def same)
  have "stamp None d \<in> handed_on [dets] []" using rep(2) by (auto simp: handed_on_def reported_by_def)
  then have "list_all (\<lambda>m. accepts schema_1_2 m \<and> \<not> accepts schema_file m) (sent p)"
    by (intro sent_messages_are_typed [OF tone_config_valid _ rep(1) run]) auto
  then show ?thesis using rep run p by blast
qed



subsection \<open>The workers implement a service\<close>

text \<open>C13. The three queues with their threads are, for an observer of what arrives and what is handled, the
  sequential service of theory \<open>WorkQueue\<close>: after any interleaving of producers, worker, spurious
  wake-ups and stopping, there is a run of the service with the same arrivals that has the same
  elements waiting, in service and served; without a limit for alerts and detections, and with the
  newest five waiting for grants.\<close>

theorem workers_implement_service:
  "(wq_run alert_worker as wq_init = Some a \<longrightarrow> service_run None (pushes as) (view a)) \<and>
   (wq_run (db_worker n) ds wq_init = Some d \<longrightarrow> service_run None (pushes ds) (view d)) \<and>
   (wq_run p25_worker gs wq_init = Some g \<longrightarrow> service_run (Some 5) (pushes gs) (view g))"
  using alerts.run_implements db.run_implements p25.run_implements by blast

theorem workers_implement_service_witness:
  "\<forall>x y. \<exists>a d g. wq_run alert_worker [Push x, Push y, Notify, Worker, Worker] wq_init = Some a \<and>
     service_run None [x, y] (view a) \<and> serving (view a) = [x] \<and> waiting (view a) = [y] \<and>
     wq_run (db_worker 1) [Push default_detection, Notify, Worker, Worker] wq_init = Some d \<and>
     service_run None [default_detection] (view d) \<and> serving (view d) = [default_detection] \<and>
     wq_run p25_worker (map Push (replicate 6 sample_grant)) wq_init = Some g \<and>
     service_run (Some 5) (replicate 6 sample_grant) (view g) \<and> length (waiting (view g)) = 5"
proof (intro allI)
  fix x y
  obtain a where a: "wq_run alert_worker [Push x, Push y, Notify, Worker, Worker] wq_init = Some a"
      "serving (view a) = [x]" "waiting (view a) = [y]"
    by (simp add: wq_eval view_def in_hand_def)
  obtain d where d: "wq_run (db_worker 1) [Push default_detection, Notify, Worker, Worker] wq_init = Some d"
      "serving (view d) = [default_detection]"
    by (simp add: wq_moves wq_init_def view_def in_hand_def)
  obtain g where g: "wq_run p25_worker (map Push (replicate 6 sample_grant)) wq_init = Some g" "length (waiting (view g)) = 5"
    by (simp add: p25_eval view_def in_hand_def numeral_eq_Suc)
  have p: "pushes [Push x, Push y, Notify, Worker, Worker] = [x, y]"
    "pushes [Push default_detection, Notify, Worker, Worker] = [default_detection]"
    "pushes (map Push (replicate 6 sample_grant)) = replicate 6 sample_grant"
    by (simp_all add: pushes_def numeral_eq_Suc)
  show "\<exists>a d g. wq_run alert_worker [Push x, Push y, Notify, Worker, Worker] wq_init = Some a \<and>
     service_run None [x, y] (view a) \<and> serving (view a) = [x] \<and> waiting (view a) = [y] \<and>
     wq_run (db_worker 1) [Push default_detection, Notify, Worker, Worker] wq_init = Some d \<and>
     service_run None [default_detection] (view d) \<and> serving (view d) = [default_detection] \<and>
     wq_run p25_worker (map Push (replicate 6 sample_grant)) wq_init = Some g \<and>
     service_run (Some 5) (replicate 6 sample_grant) (view g) \<and> length (waiting (view g)) = 5"
    using workers_implement_service [of "[Push x, Push y, Notify, Worker, Worker]" a 1
        "[Push default_detection, Notify, Worker, Worker]" d "map Push (replicate 6 sample_grant)" g]
      a d g unfolding p by blast
qed

subsection \<open>From a detection to the table\<close>

text \<open>C12. A detection that reaches the writer is counted exactly once or lost with its whole batch: when the
  writer's thread has ended, the hits of the table have grown by the size of the committed batches,
  which is the number of detections pushed when every transaction commits, and the handed-over
  batches are the pushed detections in order.\<close>

theorem pushed_detections_are_counted:
  assumes "wq_reach (db_worker n) s" and "wpc s = Exited" and "length txs = length (handled s)"
    and "table_ok t" and "tie_ok tie"
  shows "concat (handled s) = accepted s \<and> table_ok (write_batches tie txs (handled s) t) \<and>
    total_hits (write_batches tie txs (handled s) t) = total_hits t + int (length (committed txs (handled s))) \<and>
    (list_all fst txs \<longrightarrow> total_hits (write_batches tie txs (handled s) t) = total_hits t + int (length (accepted s)))"
  using db.exited_all_handled [OF assms(1,2)] write_batches_ok [OF assms(4,5), of txs "handled s"]
    committed_all [OF assms(3)] by simp

theorem pushed_detections_are_counted_witness:
  "\<exists>s. wq_run (db_worker 2) ([Push default_detection, Push default_detection, Push default_detection, Notify, Notify,
       Notify, EndInput, Worker, Worker, Worker, SetFlag, Worker]) wq_init = Some s \<and> length (handled s) = 2 \<and>
     total_hits (write_batches hd [(True, 0), (True, 5)] (handled s) \<lparr>rows = [], next_id = 0\<rparr>) = 3"
proof -
  obtain s where run: "wq_run (db_worker 2) ([Push default_detection, Push default_detection, Push default_detection,
      Notify, Notify, Notify, EndInput, Worker, Worker, Worker, SetFlag, Worker]) wq_init = Some s"
    and s: "wpc s = Exited" "length (handled s) = 2" "length (accepted s) = 3"
    by (simp add: wq_moves wq_init_def add_batch_def)
  have r: "wq_reach (db_worker 2) s" by (rule wq_reach_run [OF wq_reach.start run])
  have t: "table_ok \<lparr>rows = [], next_id = 0\<rparr>" "tie_ok hd" "total_hits \<lparr>rows = [], next_id = 0\<rparr> = 0"
    by (simp_all add: table_ok_def tie_ok_def total_hits_def)
  show ?thesis
    using pushed_detections_are_counted [OF r s(1) _ t(1,2), of "[(True, 0), (True, 5)]"] run s t(3) by simp
qed

end
